(* ===== verification/Prelude.thy ===== *)
theory Prelude
  imports Main "HOL-Library.Word"
begin

text \<open>
  Shared vocabulary of the development: Rust's fixed width integers as words, the outcome of a
  call that may panic or not return, Rust's \<^verbatim>\<open>Result\<close> as a sum with its \<^verbatim>\<open>?\<close> operator as a
  combinator, and generic facts on lists and words used by the components.

  The kernel is built in release mode only (\<^verbatim>\<open>compile_error!\<close> in kernel/src/main.rs refuses a
  build with debug assertions), so \<open>+\<close>, \<open>-\<close> and \<open>*\<close> on integers wrap around; an index
  out of range and a division by zero panic in every build.
\<close>

unbundle bit_operations_syntax

section \<open>Integers\<close>

type_synonym u8 = "8 word"
type_synonym u16 = "16 word"
type_synonym u32 = "32 word"
type_synonym u64 = "64 word"
type_synonym u128 = "128 word"
type_synonym bytes = "u8 list"

named_theorems run_simps \<open>equations of the outcome combinators\<close>
named_theorems codec_simps \<open>lengths and round trips of the byte encodings\<close>
named_theorems frame_simps \<open>components of the state that an operation leaves alone\<close>

section \<open>Outcomes and results\<close>

text \<open>
  A call returns (\<open>Done\<close>), panics (an index out of range, a division by zero), or does not
  return within the fuel given to the loops it runs (\<open>Hang\<close>).
\<close>

datatype 'a run = Done 'a | Panic | Hang

primrec andThen :: "'a run \<Rightarrow> ('a \<Rightarrow> 'b run) \<Rightarrow> 'b run" where
  "andThen (Done x) f = f x"
| "andThen Panic f = Panic"
| "andThen Hang f = Hang"

abbreviation Ok :: "'a \<Rightarrow> 'e + 'a" where "Ok \<equiv> Inr"
abbreviation Err :: "'e \<Rightarrow> 'e + 'a" where "Err \<equiv> Inl"

type_synonym ('s, 'e, 'a) fallible = "'s \<Rightarrow> (('e + 'a) \<times> 's) run"

text \<open>The \<^verbatim>\<open>?\<close> operator: continue on \<^verbatim>\<open>Ok\<close>, return early on \<^verbatim>\<open>Err\<close>.\<close>

definition try_then :: "('s, 'e, 'a) fallible \<Rightarrow> ('a \<Rightarrow> ('s, 'e, 'b) fallible) \<Rightarrow> ('s, 'e, 'b) fallible"
  where
  "try_then m f s =
     andThen (m s) (\<lambda>(r, s'). case r of Inl e \<Rightarrow> Done (Inl e, s') | Inr a \<Rightarrow> f a s')"

definition ok :: "'a \<Rightarrow> ('s, 'e, 'a) fallible" where
  "ok a s = Done (Inr a, s)"

definition throw :: "'e \<Rightarrow> ('s, 'e, 'a) fallible" where
  "throw e s = Done (Inl e, s)"

text \<open>The \<^verbatim>\<open>From\<close> conversion that \<^verbatim>\<open>?\<close> applies to the error.\<close>

definition map_err :: "('e \<Rightarrow> 'f) \<Rightarrow> ('s, 'e, 'a) fallible \<Rightarrow> ('s, 'f, 'a) fallible" where
  "map_err g m s =
     andThen (m s) (\<lambda>(r, s'). Done (case r of Inl e \<Rightarrow> Inl (g e) | Inr a \<Rightarrow> Inr a, s'))"

text \<open>An infallible operation on the state, and a match on the result of a fallible one.\<close>

definition run_then :: "('s \<Rightarrow> 's run) \<Rightarrow> ('s, 'e, 'b) fallible \<Rightarrow> ('s, 'e, 'b) fallible" where
  "run_then f m s = andThen (f s) m"

definition match_res ::
  "('s, 'e, 'a) fallible \<Rightarrow> ('e \<Rightarrow> ('s, 'f, 'b) fallible) \<Rightarrow> ('a \<Rightarrow> ('s, 'f, 'b) fallible) \<Rightarrow> ('s, 'f, 'b) fallible"
  where
  "match_res m onerr onok s =
     andThen (m s) (\<lambda>(r, s'). case r of Inl e \<Rightarrow> onerr e s' | Inr a \<Rightarrow> onok a s')"

lemma andThen_assoc [run_simps]:
  "andThen (andThen m f) g = andThen m (\<lambda>x. andThen (f x) g)"
  by (cases m) auto

lemma andThen_Done [run_simps]: "andThen m Done = m"
  by (cases m) auto

lemma andThen_eq_Done:
  "andThen m f = Done y \<longleftrightarrow> (\<exists>x. m = Done x \<and> f x = Done y)"
  by (cases m) auto

lemma andThen_eq_Panic:
  "andThen m f = Panic \<longleftrightarrow> m = Panic \<or> (\<exists>x. m = Done x \<and> f x = Panic)"
  by (cases m) auto

lemma try_then_ok [run_simps]: "try_then (ok a) f = f a"
  by (simp add: fun_eq_iff try_then_def ok_def)

lemma try_then_throw [run_simps]: "try_then (throw e) f = throw e"
  by (simp add: fun_eq_iff try_then_def throw_def)

lemma try_then_ok_right [run_simps]: "try_then m ok = m"
proof
  fix s
  show "try_then m ok s = m s"
    by (cases "m s") (auto simp: try_then_def ok_def split: sum.splits)
qed

lemma try_then_assoc:
  "try_then (try_then m f) g = try_then m (\<lambda>a. try_then (f a) g)"
proof
  fix s
  show "try_then (try_then m f) g s = try_then m (\<lambda>a. try_then (f a) g) s"
    by (cases "m s") (auto simp: try_then_def split: sum.splits)
qed

lemma try_then_eq_Done:
  "try_then m f s = Done (r, s'') \<longleftrightarrow>
     (\<exists>e. m s = Done (Inl e, s'') \<and> r = Inl e) \<or>
     (\<exists>a s'. m s = Done (Inr a, s') \<and> f a s' = Done (r, s''))"
  by (cases "m s") (auto simp: try_then_def split: sum.splits)

lemma match_res_eq_Done:
  "match_res m onerr onok s = Done (r, s'') \<longleftrightarrow>
     (\<exists>e s'. m s = Done (Inl e, s') \<and> onerr e s' = Done (r, s'')) \<or>
     (\<exists>a s'. m s = Done (Inr a, s') \<and> onok a s' = Done (r, s''))"
  by (cases "m s") (auto simp: match_res_def split: sum.splits)

lemma map_err_eq_Done:
  "map_err g m s = Done (r, s'') \<longleftrightarrow>
     (\<exists>e. m s = Done (Inl e, s'') \<and> r = Inl (g e)) \<or> (\<exists>a. m s = Done (Inr a, s'') \<and> r = Inr a)"
  by (cases "m s") (auto simp: map_err_def split: sum.splits)

text \<open>A call that does not panic and keeps a property of the state, whatever it returns.\<close>

definition safe :: "('s \<Rightarrow> bool) \<Rightarrow> ('s, 'e, 'a) fallible \<Rightarrow> bool" where
  "safe P m \<longleftrightarrow> (\<forall>s. P s \<longrightarrow> m s \<noteq> Panic \<and> (\<forall>r s'. m s = Done (r, s') \<longrightarrow> P s'))"

lemma safeI:
  "(\<And>s. P s \<Longrightarrow> m s \<noteq> Panic) \<Longrightarrow> (\<And>s r s'. P s \<Longrightarrow> m s = Done (r, s') \<Longrightarrow> P s') \<Longrightarrow> safe P m"
  by (auto simp: safe_def)

lemma safe_Panic: "safe P m \<Longrightarrow> P s \<Longrightarrow> m s \<noteq> Panic"
  by (simp add: safe_def)

lemma safe_Done: "safe P m \<Longrightarrow> P s \<Longrightarrow> m s = Done (r, s') \<Longrightarrow> P s'"
  by (simp add: safe_def)

lemma safe_cases:
  assumes "safe P m" and "P s"
  obtains "m s = Hang" | r s' where "m s = Done (r, s')" "P s'"
  using assms by (cases "m s") (auto simp: safe_def)

lemma safe_ok [intro]: "safe P (ok a)"
  by (simp add: safe_def ok_def)

lemma safe_throw [intro]: "safe P (throw e)"
  by (simp add: safe_def throw_def)

lemma safe_try_then [intro]:
  assumes "safe P m" and "\<And>a. safe P (f a)"
  shows "safe P (try_then m f)"
proof (rule safeI)
  fix s assume s: "P s"
  show "try_then m f s \<noteq> Panic"
    using assms(1) s
  proof (cases rule: safe_cases)
    case (2 r s')
    then show ?thesis using safe_Panic [OF assms(2)] by (auto simp: try_then_def split: sum.splits)
  qed (simp add: try_then_def)
next
  fix s r s' assume "P s" and "try_then m f s = Done (r, s')"
  then show "P s'" using assms by (auto simp: try_then_eq_Done dest: safe_Done)
qed

lemma safe_map_err [intro]: "safe P m \<Longrightarrow> safe P (map_err g m)"
  by (rule safeI) (auto simp: map_err_def andThen_eq_Done dest: safe_Panic safe_Done elim: safe_cases
      split: run.splits)

lemma safe_match_res [intro]:
  assumes "safe P m" and "\<And>e. safe P (onerr e)" and "\<And>a. safe P (onok a)"
  shows "safe P (match_res m onerr onok)"
proof (rule safeI)
  fix s assume s: "P s"
  show "match_res m onerr onok s \<noteq> Panic"
    using assms(1) s
  proof (cases rule: safe_cases)
    case (2 r s')
    then show ?thesis
      using safe_Panic [OF assms(2)] safe_Panic [OF assms(3)] by (auto simp: match_res_def split: sum.splits)
  qed (simp add: match_res_def)
next
  fix s r s' assume "P s" and "match_res m onerr onok s = Done (r, s')"
  then show "P s'" unfolding match_res_eq_Done using assms by (blast dest: safe_Done)
qed

lemma safe_run_then [intro]:
  assumes "\<And>s. P s \<Longrightarrow> f s \<noteq> Panic" and "\<And>s s'. P s \<Longrightarrow> f s = Done s' \<Longrightarrow> P s'" and "safe P m"
  shows "safe P (run_then f m)"
proof (rule safeI)
  fix s assume "P s"
  then show "run_then f m s \<noteq> Panic"
    using assms by (cases "f s") (auto simp: run_then_def dest: safe_Panic)
next
  fix s r s' assume "P s" and "run_then f m s = Done (r, s')"
  then show "P s'" using assms by (auto simp: run_then_def andThen_eq_Done dest: safe_Done)
qed

text \<open>The same with a postcondition on the result and the final state.\<close>

definition triple :: "('s \<Rightarrow> bool) \<Rightarrow> ('s, 'e, 'a) fallible \<Rightarrow> ('e + 'a \<Rightarrow> 's \<Rightarrow> bool) \<Rightarrow> bool" where
  "triple P m Q \<longleftrightarrow> (\<forall>s. P s \<longrightarrow> m s \<noteq> Panic \<and> (\<forall>r s'. m s = Done (r, s') \<longrightarrow> Q r s'))"

lemma tripleI:
  "(\<And>s. P s \<Longrightarrow> m s \<noteq> Panic) \<Longrightarrow> (\<And>s r s'. P s \<Longrightarrow> m s = Done (r, s') \<Longrightarrow> Q r s') \<Longrightarrow> triple P m Q"
  by (simp add: triple_def)

lemma triple_Panic: "triple P m Q \<Longrightarrow> P s \<Longrightarrow> m s \<noteq> Panic"
  by (simp add: triple_def)

lemma triple_Done: "triple P m Q \<Longrightarrow> P s \<Longrightarrow> m s = Done (r, s') \<Longrightarrow> Q r s'"
  by (simp add: triple_def)

lemma triple_safe: "safe P m \<Longrightarrow> triple P m (\<lambda>_. P)"
  by (simp add: triple_def safe_def)

lemma triple_weaken:
  "triple P' m Q' \<Longrightarrow> (\<And>s. P s \<Longrightarrow> P' s) \<Longrightarrow> (\<And>r s. Q' r s \<Longrightarrow> Q r s) \<Longrightarrow> triple P m Q"
  unfolding triple_def by meson

lemma triple_ok: "(\<And>s. P s \<Longrightarrow> Q (Inr a) s) \<Longrightarrow> triple P (ok a) Q"
  by (simp add: triple_def ok_def)

lemma triple_throw: "(\<And>s. P s \<Longrightarrow> Q (Inl e) s) \<Longrightarrow> triple P (throw e) Q"
  by (simp add: triple_def throw_def)

lemma triple_try_then:
  assumes "triple P m R" and "\<And>e s. R (Inl e) s \<Longrightarrow> Q (Inl e) s" and "\<And>a. triple (R (Inr a)) (f a) Q"
  shows "triple P (try_then m f) Q"
proof (rule tripleI)
  fix s assume s: "P s"
  show "try_then m f s \<noteq> Panic"
    using triple_Panic [OF assms(1) s] triple_Done [OF assms(1) s] triple_Panic [OF assms(3)]
    by (cases "m s") (auto simp: try_then_def split: sum.splits)
next
  fix s r s' assume s: "P s" and run: "try_then m f s = Done (r, s')"
  then show "Q r s'"
    using triple_Done [OF assms(1) s] assms(2) triple_Done [OF assms(3)] unfolding try_then_eq_Done by blast
qed

lemma triple_try_safe:
  "safe P m \<Longrightarrow> (\<And>e s. P s \<Longrightarrow> Q (Inl e) s) \<Longrightarrow> (\<And>a. triple P (f a) Q) \<Longrightarrow> triple P (try_then m f) Q"
  by (rule triple_try_then [OF triple_safe])

lemma triple_match_res:
  assumes "triple P m R" and "\<And>e. triple (R (Inl e)) (onerr e) Q" and "\<And>a. triple (R (Inr a)) (onok a) Q"
  shows "triple P (match_res m onerr onok) Q"
proof (rule tripleI)
  fix s assume s: "P s"
  show "match_res m onerr onok s \<noteq> Panic"
    using triple_Panic [OF assms(1) s] triple_Done [OF assms(1) s] triple_Panic [OF assms(2)] triple_Panic [OF assms(3)]
    by (cases "m s") (auto simp: match_res_def split: sum.splits)
next
  fix s r s' assume s: "P s" and run: "match_res m onerr onok s = Done (r, s')"
  then show "Q r s'"
    using triple_Done [OF assms(1) s] triple_Done [OF assms(2)] triple_Done [OF assms(3)]
    unfolding match_res_eq_Done by blast
qed

lemma triple_conj_safe: "safe P m \<Longrightarrow> triple P m Q \<Longrightarrow> triple P m (\<lambda>r s. P s \<and> Q r s)"
  by (simp add: triple_def safe_def)

section \<open>Rust helpers\<close>

text \<open>\<^verbatim>\<open>NonZero::new\<close>, and \<^verbatim>\<open>Option<NonZero<u16>>\<close> in its niche layout (\<^verbatim>\<open>None\<close> is zero).\<close>

definition nonzero_new :: "'a::len word \<Rightarrow> 'a word option" where
  "nonzero_new w = (if w = 0 then None else Some w)"

definition niche :: "'a::len word option \<Rightarrow> 'a word" where
  "niche x = (case x of None \<Rightarrow> 0 | Some w \<Rightarrow> w)"

lemma nonzero_new_niche [simp]: "x \<noteq> Some 0 \<Longrightarrow> nonzero_new (niche x) = x"
  by (cases x) (auto simp: nonzero_new_def niche_def)

lemma niche_nonzero_new [simp]: "niche (nonzero_new w) = w"
  by (simp add: nonzero_new_def niche_def)

lemma nonzero_new_neq [simp]: "nonzero_new w \<noteq> Some 0"
  by (simp add: nonzero_new_def)

text \<open>\<^verbatim>\<open>slice::chunks\<close>: consecutive pieces of a given length, the last one maybe shorter.\<close>

function chunks :: "nat \<Rightarrow> 'a list \<Rightarrow> 'a list list" where
  "chunks n xs = (if n = 0 \<or> xs = [] then [] else take n xs # chunks n (drop n xs))"
  by pat_completeness auto
termination
  by (relation "measure (\<lambda>(n, xs). length xs)") auto

declare chunks.simps [simp del]

lemma chunks_Nil [simp]: "chunks n [] = []"
  by (subst chunks.simps) simp

lemma concat_chunks: "0 < n \<Longrightarrow> concat (chunks n xs) = xs"
proof (induction n xs rule: chunks.induct)
  case (1 n xs)
  then show ?case by (subst chunks.simps) simp
qed

lemma chunks_short: "0 < n \<Longrightarrow> xs \<noteq> [] \<Longrightarrow> length xs \<le> n \<Longrightarrow> chunks n xs = [xs]"
  by (subst chunks.simps) simp

lemma concat_replicate_replicate [simp]:
  "concat (replicate n (replicate m x)) = replicate (n * m) x"
  by (induction n) (simp_all add: replicate_add)

section \<open>Words\<close>

lemma bit_lessD:
  fixes w :: "'a::len word"
  assumes "w < 2 ^ n" and "bit w k"
  shows "k < n"
proof -
  have "w AND mask n = w" using assms(1) by (rule less_mask_eq)
  with assms(2) have "bit (w AND mask n) k" by simp
  then show ?thesis by (simp add: bit_simps)
qed

lemma u8_bit_high [simp]: "8 \<le> n \<Longrightarrow> \<not> bit (b :: u8) n"
  by (auto dest: bit_imp_le_length)

lemma u16_bit_high [simp]: "16 \<le> n \<Longrightarrow> \<not> bit (b :: u16) n"
  by (auto dest: bit_imp_le_length)

text \<open>Equality of short words bit by bit, for goals made of masks, shifts and casts.\<close>

lemma u8_eqI:
  fixes x y :: u8
  assumes "bit x 0 = bit y 0" "bit x 1 = bit y 1" "bit x 2 = bit y 2" "bit x 3 = bit y 3"
    "bit x 4 = bit y 4" "bit x 5 = bit y 5" "bit x 6 = bit y 6" "bit x 7 = bit y 7"
  shows "x = y"
proof (rule bit_word_eqI)
  fix n assume "n < LENGTH(8)"
  then have "n \<in> {0, 1, 2, 3, 4, 5, 6, 7}" by auto
  with assms show "bit x n = bit y n" by auto
qed

lemma u16_eqI:
  fixes x y :: u16
  assumes "bit x 0 = bit y 0" "bit x 1 = bit y 1" "bit x 2 = bit y 2" "bit x 3 = bit y 3"
    "bit x 4 = bit y 4" "bit x 5 = bit y 5" "bit x 6 = bit y 6" "bit x 7 = bit y 7"
    "bit x 8 = bit y 8" "bit x 9 = bit y 9" "bit x 10 = bit y 10" "bit x 11 = bit y 11"
    "bit x 12 = bit y 12" "bit x 13 = bit y 13" "bit x 14 = bit y 14" "bit x 15 = bit y 15"
  shows "x = y"
proof (rule bit_word_eqI)
  fix n assume "n < LENGTH(16)"
  then have n: "n < 16" by simp
  show "bit x n = bit y n"
  proof (cases "n < 8")
    case True
    then have "n \<in> {0, 1, 2, 3, 4, 5, 6, 7}" by auto
    with assms(1-8) show ?thesis by auto
  next
    case False
    with n have "n \<in> {8, 9, 10, 11, 12, 13, 14, 15}"
      by (simp only: insert_iff empty_iff) linarith
    with assms(9-16) show ?thesis by auto
  qed
qed

text \<open>A property of a byte that holds for all 256 values.\<close>

lemma u8_exhaustive:
  assumes "list_all P (map of_nat [0..<256])" shows "P (b :: u8)"
proof -
  have "unat b < 256" using unsigned_less [of b, where 'a = nat] by simp
  then have "of_nat (unat b) \<in> set (map (of_nat :: nat \<Rightarrow> u8) [0..<256])"
    unfolding set_map by (intro imageI) simp
  then show ?thesis using assms by (auto simp: list_all_iff)
qed

text \<open>The idiom \<^verbatim>\<open>x == x | mask\<close> of the sources tests a bit.\<close>

lemma or_exp_same:
  fixes w :: "'a::len word"
  assumes "n < LENGTH('a)"
  shows "w = w OR 2 ^ n \<longleftrightarrow> bit w n"
proof
  assume "w = w OR 2 ^ n"
  then have "bit w n = bit (w OR 2 ^ n) n" by simp
  then show "bit w n" using assms by (simp add: bit_simps)
next
  assume "bit w n"
  then show "w = w OR 2 ^ n" by (intro bit_eqI) (auto simp: bit_simps)
qed

section \<open>Decimal and hexadecimal formatting\<close>

definition digit_char :: "nat \<Rightarrow> char" where
  "digit_char d = char_of (if d < 10 then 48 + d else 55 + d)"

fun fmt_radix :: "nat \<Rightarrow> nat \<Rightarrow> string" where
  "fmt_radix b n =
     (if b < 2 \<or> n < b then [digit_char n] else fmt_radix b (n div b) @ [digit_char (n mod b)])"

declare fmt_radix.simps [simp del]

abbreviation dec_str :: "nat \<Rightarrow> string" where "dec_str \<equiv> fmt_radix 10"
abbreviation hex_str :: "nat \<Rightarrow> string" where "hex_str \<equiv> fmt_radix 16"
abbreviation bin_str :: "nat \<Rightarrow> string" where "bin_str \<equiv> fmt_radix 2"

text \<open>\<^verbatim>\<open>{:x}\<close>, \<^verbatim>\<open>{:#wx}\<close> (prefixed and padded on the left to \<open>w\<close> characters) and booleans.\<close>

definition lower_char :: "char \<Rightarrow> char" where
  "lower_char c = (if 65 \<le> (of_char c :: nat) \<and> (of_char c :: nat) \<le> 90 then char_of (of_char c + 32 :: nat) else c)"

definition lhex_str :: "nat \<Rightarrow> string" where
  "lhex_str n = map lower_char (hex_str n)"

definition pad_left :: "nat \<Rightarrow> string \<Rightarrow> string" where
  "pad_left w s = replicate (w - length s) (CHR '' '') @ s"

definition ptr_str :: "nat \<Rightarrow> u64 \<Rightarrow> string" where
  "ptr_str w p = pad_left w (''0x'' @ lhex_str (unat p))"

definition bool_str :: "bool \<Rightarrow> string" where
  "bool_str b = (if b then ''true'' else ''false'')"

end
