(* ===== verification/Sync.thy ===== *)
theory Sync
  imports Prelude
begin

text \<open>
  libutil/src/sync.rs: the write-once cell \<^verbatim>\<open>InitLater\<close> and the mutually exclusive cell
  \<^verbatim>\<open>ExclusiveMap\<close>, first as sequential operations (what a caller that is not interrupted sees),
  then as step relations in which several execution contexts (the main code and interrupt
  handlers) interleave at the granularity of the atomic accesses of the source.
\<close>

text \<open>\<^verbatim>\<open>UnsafeFlag\<close>: a flag that anybody may \<^verbatim>\<open>load\<close> and only unsafe code may \<^verbatim>\<open>store\<close>; the state's fields of this type are read and updated.\<close>

type_synonym unsafe_flag = bool

section \<open>InitLater\<close>

definition UNINIT :: u8 where "UNINIT = 0"
definition INITIALISING :: u8 where "INITIALISING = 1"
definition INIT :: u8 where "INIT = 2"

lemmas il_state_defs = UNINIT_def INITIALISING_def INIT_def

text \<open>The cell holds arbitrary memory until it is written (\<^verbatim>\<open>MaybeUninit\<close>).\<close>

record 'a init_later =
  il_cell :: 'a
  il_state :: u8

datatype init_error = InitError (ie_state: u8)

definition init_later_uninit :: "'a \<Rightarrow> 'a init_later" where
  "init_later_uninit memory = \<lparr>il_cell = memory, il_state = UNINIT\<rparr>"

definition init_later_init :: "'a \<Rightarrow> 'a init_later \<Rightarrow> (init_error + 'a) \<times> 'a init_later" where
  "init_later_init val c =
     (let state = il_state c;
          c = c\<lparr>il_state := INITIALISING\<rparr>
      in if state = UNINIT
         then let c = c\<lparr>il_cell := val\<rparr>; c = c\<lparr>il_state := INIT\<rparr> in (Ok (il_cell c), c)
         else let c = c\<lparr>il_state := state\<rparr> in (Err (InitError state), c))"

definition init_later_read :: "'a init_later \<Rightarrow> init_error + 'a" where
  "init_later_read c =
     (if il_state c = INIT then Ok (il_cell c) else Err (InitError (il_state c)))"

text \<open>
  The message printed for an error; \<open>path\<close> is what \<^verbatim>\<open>type_name\<close> returns, of which the part
  after the last \<^verbatim>\<open>::\<close> is kept.
\<close>

fun after_last_sep :: "string \<Rightarrow> string \<Rightarrow> string" where
  "after_last_sep seg (CHR '':'' # CHR '':'' # cs) = after_last_sep [] cs"
| "after_last_sep seg (c # cs) = after_last_sep (seg @ [c]) cs"
| "after_last_sep seg [] = seg"

definition init_error_display :: "string \<Rightarrow> init_error \<Rightarrow> string" where
  "init_error_display path e =
     (let name = after_last_sep [] path;
          state = (if ie_state e = UNINIT then ''Uninit''
                   else if ie_state e = INITIALISING then ''Initialising''
                   else if ie_state e = INIT then ''Initialised''
                   else ''Unknown'')
      in ''InitLater '' @ name @ '' was accessed while '' @ state @ ''!'')"

text \<open>A cell at rest: no \<^verbatim>\<open>init\<close> is part way through.\<close>

definition il_quiet :: "'a init_later \<Rightarrow> bool" where
  "il_quiet c \<longleftrightarrow> il_state c = UNINIT \<or> il_state c = INIT"

text \<open>
  What a write-once cell promises: a value put into an empty cell is there, and stays there
  whatever is put later.
\<close>

locale write_once =
  fixes fresh :: 'c
    and put :: "'a \<Rightarrow> 'c \<Rightarrow> ('e + 'a) \<times> 'c"
    and get :: "'c \<Rightarrow> 'e + 'a"
    and quiet :: "'c \<Rightarrow> bool"
  assumes quiet_fresh: "quiet fresh"
    and get_fresh: "\<exists>e. get fresh = Inl e"
    and quiet_put: "quiet c \<Longrightarrow> quiet (snd (put v c))"
    and put_empty: "quiet c \<Longrightarrow> get c = Inl e \<Longrightarrow> fst (put v c) = Inr v \<and> get (snd (put v c)) = Inr v"
    and put_full: "quiet c \<Longrightarrow> get c = Inr w \<Longrightarrow> \<exists>e. put v c = (Inl e, c)"
begin

lemma puts_full:
  "quiet c \<Longrightarrow> get c = Inr w \<Longrightarrow> fold (\<lambda>v c. snd (put v c)) vs c = c"
proof (induction vs)
  case (Cons v vs)
  from put_full [OF Cons.prems, of v] have "snd (put v c) = c" by auto
  with Cons show ?case by simp
qed simp

lemma first_put_wins:
  "get (fold (\<lambda>v c. snd (put v c)) (v # vs) fresh) = Inr v"
proof -
  obtain e where "get fresh = Inl e" using get_fresh by blast
  then have "get (snd (put v fresh)) = Inr v" using put_empty quiet_fresh by blast
  moreover have "quiet (snd (put v fresh))" using quiet_put quiet_fresh by blast
  ultimately show ?thesis using puts_full by simp
qed

lemma second_put_fails:
  assumes "quiet c"
  shows "\<exists>e. fst (put w (snd (put v c))) = Inl e"
proof -
  have "\<exists>x. get (snd (put v c)) = Inr x"
  proof (cases "get c")
    case (Inl e)
    then show ?thesis using put_empty [OF assms Inl] by blast
  next
    case (Inr x)
    then show ?thesis using put_full [OF assms Inr, of v] by auto
  qed
  then obtain x where "get (snd (put v c)) = Inr x" by blast
  from put_full [OF quiet_put [OF assms] this, of w] show ?thesis by auto
qed

end

lemma init_later_init_uninit:
  "il_state c = UNINIT \<Longrightarrow> init_later_init v c = (Ok v, \<lparr>il_cell = v, il_state = INIT\<rparr>)"
  by (simp add: init_later_init_def Let_def)

lemma init_later_init_other:
  "il_state c \<noteq> UNINIT \<Longrightarrow> init_later_init v c = (Err (InitError (il_state c)), c)"
  by (simp add: init_later_init_def Let_def)

interpretation il: write_once "init_later_uninit m" init_later_init init_later_read il_quiet
proof unfold_locales
  fix c :: "'a init_later" and v e w
  show "il_quiet (init_later_uninit m)"
    by (simp add: il_quiet_def init_later_uninit_def)
  show "\<exists>e. init_later_read (init_later_uninit m) = Inl e"
    by (simp add: init_later_read_def init_later_uninit_def il_state_defs)
  assume q: "il_quiet c"
  then show "il_quiet (snd (init_later_init v c))"
    by (cases "il_state c = UNINIT")
      (auto simp: il_quiet_def init_later_init_uninit init_later_init_other)
  show "fst (init_later_init v c) = Inr v \<and> init_later_read (snd (init_later_init v c)) = Inr v"
    if "init_later_read c = Inl e"
    using q that
    by (auto simp: il_quiet_def init_later_init_uninit init_later_read_def)
  show "\<exists>e. init_later_init v c = (Inl e, c)" if "init_later_read c = Inr w"
    using that
    by (auto simp: init_later_read_def init_later_init_other il_state_defs split: if_splits)
qed

text \<open>
  C28: a cell that starts uninitialised cannot be read; after any sequence of \<^verbatim>\<open>init\<close> calls every
  read returns the value of the first one, and every further \<^verbatim>\<open>init\<close> is refused with the
  state \<^verbatim>\<open>INIT\<close> (whatever the uninitialised memory held).
\<close>

theorem init_later_first_init_wins:
  "init_later_read (fold (\<lambda>v c. snd (init_later_init v c)) (v # vs) (init_later_uninit m)) = Ok v
   \<and> init_later_read (init_later_uninit m) = Err (InitError UNINIT)
   \<and> fst (init_later_init w (fold (\<lambda>v c. snd (init_later_init v c)) (v # vs) (init_later_uninit m)))
       = Err (InitError INIT)"
proof -
  let ?c = "fold (\<lambda>v c. snd (init_later_init v c)) (v # vs) (init_later_uninit m)"
  have r: "init_later_read ?c = Ok v" by (rule il.first_put_wins)
  then have "il_state ?c = INIT" by (auto simp: init_later_read_def split: if_splits)
  then have "fst (init_later_init w ?c) = Err (InitError INIT)"
    using init_later_init_other [of ?c w] by (simp add: il_state_defs)
  moreover have "init_later_read (init_later_uninit m) = Err (InitError UNINIT)"
    by (simp add: init_later_read_def init_later_uninit_def il_state_defs)
  ultimately show ?thesis using r by blast
qed

subsection \<open>Interleaved init\<close>

text \<open>
  \<^verbatim>\<open>init\<close> is a separate load, a store of \<^verbatim>\<open>INITIALISING\<close>, the write of the value and a final
  store. Each context \<open>i\<close> runs \<^verbatim>\<open>init (arg i)\<close>; a step is one of these accesses by one context.
\<close>

datatype 'a il_pc = IlStart | IlLoaded u8 | IlMarked u8 | IlWritten | IlDone "init_error + 'a"

record 'a il_sys =
  il_shared :: "'a init_later"
  il_pcs :: "nat \<Rightarrow> 'a il_pc"

inductive il_step :: "(nat \<Rightarrow> 'a) \<Rightarrow> 'a il_sys \<Rightarrow> 'a il_sys \<Rightarrow> bool" for arg :: "nat \<Rightarrow> 'a" where
  il_load: "il_pcs s i = IlStart \<Longrightarrow>
     il_step arg s (s\<lparr>il_pcs := (il_pcs s)(i := IlLoaded (il_state (il_shared s)))\<rparr>)"
| il_mark: "il_pcs s i = IlLoaded st \<Longrightarrow>
     il_step arg s (s\<lparr>il_shared := (il_shared s)\<lparr>il_state := INITIALISING\<rparr>,
                      il_pcs := (il_pcs s)(i := IlMarked st)\<rparr>)"
| il_write: "il_pcs s i = IlMarked UNINIT \<Longrightarrow>
     il_step arg s (s\<lparr>il_shared := (il_shared s)\<lparr>il_cell := arg i\<rparr>,
                      il_pcs := (il_pcs s)(i := IlWritten)\<rparr>)"
| il_publish: "il_pcs s i = IlWritten \<Longrightarrow>
     il_step arg s (s\<lparr>il_shared := (il_shared s)\<lparr>il_state := INIT\<rparr>,
                      il_pcs := (il_pcs s)(i := IlDone (Ok (arg i)))\<rparr>)"
| il_refuse: "il_pcs s i = IlMarked st \<Longrightarrow> st \<noteq> UNINIT \<Longrightarrow>
     il_step arg s (s\<lparr>il_shared := (il_shared s)\<lparr>il_state := st\<rparr>,
                      il_pcs := (il_pcs s)(i := IlDone (Err (InitError st)))\<rparr>)"

inductive il_reach :: "(nat \<Rightarrow> 'a) \<Rightarrow> 'a il_sys \<Rightarrow> 'a il_sys \<Rightarrow> bool" for arg :: "nat \<Rightarrow> 'a" where
  il_refl: "il_reach arg s s"
| il_trans: "il_reach arg s t \<Longrightarrow> il_step arg t u \<Longrightarrow> il_reach arg s u"

definition il_start :: "'a \<Rightarrow> 'a il_sys" where
  "il_start m = \<lparr>il_shared = init_later_uninit m, il_pcs = (\<lambda>_. IlStart)\<rparr>"

text \<open>A context that is never interrupted takes exactly the sequential operation.\<close>

lemma il_trans': "il_step arg s t \<Longrightarrow> il_reach arg t u \<Longrightarrow> il_reach arg s u"
  by (rotate_tac 1, induction rule: il_reach.induct) (auto intro: il_reach.intros)

lemma il_uninterrupted:
  assumes "il_pcs s i = IlStart"
  shows "il_reach arg s
           (s\<lparr>il_shared := snd (init_later_init (arg i) (il_shared s)),
              il_pcs := (il_pcs s)(i := IlDone (fst (init_later_init (arg i) (il_shared s))))\<rparr>)"
proof -
  let ?st = "il_state (il_shared s)"
  let ?s1 = "s\<lparr>il_pcs := (il_pcs s)(i := IlLoaded ?st)\<rparr>"
  let ?s2 = "?s1\<lparr>il_shared := (il_shared ?s1)\<lparr>il_state := INITIALISING\<rparr>,
                 il_pcs := (il_pcs ?s1)(i := IlMarked ?st)\<rparr>"
  have 1: "il_step arg s ?s1" using assms by (rule il_load)
  have 2: "il_step arg ?s1 ?s2" by (rule il_mark) simp
  show ?thesis
  proof (cases "?st = UNINIT")
    case True
    let ?s3 = "?s2\<lparr>il_shared := (il_shared ?s2)\<lparr>il_cell := arg i\<rparr>,
                   il_pcs := (il_pcs ?s2)(i := IlWritten)\<rparr>"
    let ?s4 = "?s3\<lparr>il_shared := (il_shared ?s3)\<lparr>il_state := INIT\<rparr>,
                   il_pcs := (il_pcs ?s3)(i := IlDone (Ok (arg i)))\<rparr>"
    have 3: "il_step arg ?s2 ?s3" by (rule il_write) (simp add: True)
    have 4: "il_step arg ?s3 ?s4" by (rule il_publish) simp
    have "il_reach arg s ?s4" using 1 2 3 4 by (blast intro: il_trans' il_refl)
    then show ?thesis using True by (simp add: init_later_init_def Let_def)
  next
    case False
    let ?s3 = "?s2\<lparr>il_shared := (il_shared ?s2)\<lparr>il_state := ?st\<rparr>,
                   il_pcs := (il_pcs ?s2)(i := IlDone (Err (InitError ?st)))\<rparr>"
    have 3: "il_step arg ?s2 ?s3" by (rule il_refuse) (simp_all add: False)
    have "il_reach arg s ?s3" using 1 2 3 by (blast intro: il_trans' il_refl)
    then show ?thesis using False by (simp add: init_later_init_def Let_def)
  qed
qed

text \<open>
  the load and the store of the state are not one atomic access, so when a context is
  interrupted between them two \<^verbatim>\<open>init\<close> calls can both succeed: the first caller's value is
  replaced after it was handed out as an initialised, immutable reference.
\<close>

theorem init_later_interrupted_init_twice:
  fixes a b m :: 'a
  shows "\<exists>s. il_reach (\<lambda>i. if i = 0 then a else b) (il_start m) s
           \<and> il_pcs s 0 = IlDone (Ok a) \<and> il_pcs s 1 = IlDone (Ok b)
           \<and> init_later_read (il_shared s) = Ok a"
proof -
  let ?arg = "\<lambda>i::nat. if i = 0 then a else b"
  let ?s0 = "il_start m"
  let ?s1 = "?s0\<lparr>il_pcs := (il_pcs ?s0)(0 := IlLoaded UNINIT)\<rparr>"
  have 1: "il_step ?arg ?s0 ?s1"
    using il_load [of ?s0 0 ?arg] by (simp add: il_start_def init_later_uninit_def)
  let ?s2 = "?s1\<lparr>il_shared := \<lparr>il_cell = b, il_state = INIT\<rparr>,
                 il_pcs := (il_pcs ?s1)(1 := IlDone (Ok b))\<rparr>"
  have 2: "il_reach ?arg ?s1 ?s2"
    using il_uninterrupted [of ?s1 1 ?arg]
    by (simp add: il_start_def init_later_uninit_def init_later_init_uninit)
  let ?s3 = "?s2\<lparr>il_shared := \<lparr>il_cell = b, il_state = INITIALISING\<rparr>,
                 il_pcs := (il_pcs ?s2)(0 := IlMarked UNINIT)\<rparr>"
  have 3: "il_step ?arg ?s2 ?s3" using il_mark [of ?s2 0 UNINIT ?arg] by simp
  let ?s4 = "?s3\<lparr>il_shared := \<lparr>il_cell = a, il_state = INITIALISING\<rparr>,
                 il_pcs := (il_pcs ?s3)(0 := IlWritten)\<rparr>"
  have 4: "il_step ?arg ?s3 ?s4" using il_write [of ?s3 0 ?arg] by simp
  let ?s5 = "?s4\<lparr>il_shared := \<lparr>il_cell = a, il_state = INIT\<rparr>,
                 il_pcs := (il_pcs ?s4)(0 := IlDone (Ok a))\<rparr>"
  have 5: "il_step ?arg ?s4 ?s5" using il_publish [of ?s4 0 ?arg] by simp
  have "il_reach ?arg ?s0 ?s5"
    using 1 2 3 4 5 by (meson il_trans il_trans')
  moreover have "init_later_read (il_shared ?s5) = Ok a"
    by (simp add: init_later_read_def)
  ultimately show ?thesis by (intro exI [of _ ?s5]) simp
qed

section \<open>ExclusiveMap\<close>

record 'a exclusive_map =
  em_cell :: 'a
  em_access :: bool

definition exclusive_map_new :: "'a \<Rightarrow> 'a exclusive_map" where
  "exclusive_map_new val = \<lparr>em_cell = val, em_access = False\<rparr>"

lemma exclusive_map_new_simps [simp]:
  "em_cell (exclusive_map_new v) = v" "\<not> em_access (exclusive_map_new v)"
  by (simp_all add: exclusive_map_new_def)

text \<open>The closure takes the value and returns its result and the value it leaves behind.\<close>

definition exmap_map :: "('a \<Rightarrow> 'r \<times> 'a) \<Rightarrow> 'a exclusive_map \<Rightarrow> 'r option \<times> 'a exclusive_map" where
  "exmap_map f m =
     (if \<not> em_access m
      then let m = m\<lparr>em_access := True\<rparr>;
               (ret, v) = f (em_cell m);
               m = m\<lparr>em_cell := v\<rparr>;
               m = m\<lparr>em_access := False\<rparr>
           in (Some ret, m)
      else (None, m))"

lemma exmap_map_free:
  "\<not> em_access m \<Longrightarrow> exmap_map f m = (Some (fst (f (em_cell m))), m\<lparr>em_cell := snd (f (em_cell m))\<rparr>)"
  by (simp add: exmap_map_def Let_def split_beta)

lemma exmap_map_held: "em_access m \<Longrightarrow> exmap_map f m = (None, m)"
  by (simp add: exmap_map_def)

lemma exmap_map_access [simp]: "em_access (snd (exmap_map f m)) = em_access m"
  by (cases "em_access m") (simp_all add: exmap_map_free exmap_map_held)

lemma exmap_map_readonly:
  "(\<And>v. snd (f v) = v) \<Longrightarrow> snd (exmap_map f m) = m"
  by (cases "em_access m") (simp_all add: exmap_map_free exmap_map_held)

subsection \<open>Interleaved map\<close>

text \<open>
  Contexts run \<^verbatim>\<open>map (fn i)\<close>: a compare-exchange that takes the cell or gives up, the closure
  on the value read at entry (\<open>EmInside v\<close> holds the value the closure sees), its write back,
  and the store that releases the cell.
\<close>

datatype ('a, 'r) em_pc = EmIdle | EmInside 'a | EmRan 'r | EmDone "'r option"

record ('a, 'r) em_sys =
  em_shared :: "'a exclusive_map"
  em_pcs :: "nat \<Rightarrow> ('a, 'r) em_pc"

inductive em_step :: "(nat \<Rightarrow> 'a \<Rightarrow> 'r \<times> 'a) \<Rightarrow> ('a, 'r) em_sys \<Rightarrow> ('a, 'r) em_sys \<Rightarrow> bool"
  for fn :: "nat \<Rightarrow> 'a \<Rightarrow> 'r \<times> 'a" where
  em_enter: "em_pcs s i = EmIdle \<Longrightarrow> \<not> em_access (em_shared s) \<Longrightarrow>
     em_step fn s (s\<lparr>em_shared := (em_shared s)\<lparr>em_access := True\<rparr>,
                     em_pcs := (em_pcs s)(i := EmInside (em_cell (em_shared s)))\<rparr>)"
| em_fail: "em_pcs s i = EmIdle \<Longrightarrow> em_access (em_shared s) \<Longrightarrow>
     em_step fn s (s\<lparr>em_pcs := (em_pcs s)(i := EmDone None)\<rparr>)"
| em_apply: "em_pcs s i = EmInside v \<Longrightarrow>
     em_step fn s (s\<lparr>em_shared := (em_shared s)\<lparr>em_cell := snd (fn i v)\<rparr>,
                     em_pcs := (em_pcs s)(i := EmRan (fst (fn i v)))\<rparr>)"
| em_leave: "em_pcs s i = EmRan r \<Longrightarrow>
     em_step fn s (s\<lparr>em_shared := (em_shared s)\<lparr>em_access := False\<rparr>,
                     em_pcs := (em_pcs s)(i := EmDone (Some r))\<rparr>)"
| em_again: "em_pcs s i = EmDone r \<Longrightarrow>
     em_step fn s (s\<lparr>em_pcs := (em_pcs s)(i := EmIdle)\<rparr>)"

inductive em_reach :: "(nat \<Rightarrow> 'a \<Rightarrow> 'r \<times> 'a) \<Rightarrow> 'a \<Rightarrow> ('a, 'r) em_sys \<Rightarrow> bool"
  for fn :: "nat \<Rightarrow> 'a \<Rightarrow> 'r \<times> 'a" and v0 :: 'a where
  em_start: "em_reach fn v0 \<lparr>em_shared = exclusive_map_new v0, em_pcs = (\<lambda>_. EmIdle)\<rparr>"
| em_next: "em_reach fn v0 s \<Longrightarrow> em_step fn s t \<Longrightarrow> em_reach fn v0 t"

definition em_busy :: "('a, 'r) em_pc \<Rightarrow> bool" where
  "em_busy p = (case p of EmInside _ \<Rightarrow> True | EmRan _ \<Rightarrow> True | _ \<Rightarrow> False)"

lemma em_busy_simps [simp]:
  "\<not> em_busy EmIdle" "em_busy (EmInside v)" "em_busy (EmRan r)" "\<not> em_busy (EmDone q)"
  by (simp_all add: em_busy_def)

text \<open>
  The access flag is set exactly while some context is busy, no two contexts are busy at once,
  and the value a running closure works on is the current one.
\<close>

definition em_inv :: "('a, 'r) em_sys \<Rightarrow> bool" where
  "em_inv s \<longleftrightarrow>
     (em_access (em_shared s) \<longleftrightarrow> (\<exists>i. em_busy (em_pcs s i)))
     \<and> (\<forall>i j. em_busy (em_pcs s i) \<longrightarrow> em_busy (em_pcs s j) \<longrightarrow> i = j)
     \<and> (\<forall>i v. em_pcs s i = EmInside v \<longrightarrow> v = em_cell (em_shared s))"

lemma em_step_inv: "em_step fn s t \<Longrightarrow> em_inv s \<Longrightarrow> em_inv t"
proof (induction rule: em_step.induct)
  case (em_enter s i)
  then show ?case by (auto simp: em_inv_def)
next
  case (em_fail s i)
  then have "em_busy (((em_pcs s)(i := EmDone None)) j) = em_busy (em_pcs s j)" for j by auto
  with em_fail show ?case by (simp add: em_inv_def)
next
  case (em_apply s i v)
  then have b: "em_busy (em_pcs s i)" by simp
  with em_apply.prems have j: "\<And>j. em_busy (em_pcs s j) \<Longrightarrow> j = i"
    and acc: "em_access (em_shared s)"
    by (auto simp: em_inv_def)
  from j have k: "\<And>j w. em_pcs s j = EmInside w \<Longrightarrow> j = i" by (metis em_busy_simps(2))
  show ?case using j k acc by (auto simp: em_inv_def split: if_splits)
next
  case (em_leave s i r)
  then have "em_busy (em_pcs s i)" by simp
  with em_leave have *: "\<And>j. em_busy (em_pcs s j) \<Longrightarrow> j = i" by (auto simp: em_inv_def)
  then have "\<And>j v. em_pcs s j = EmInside v \<Longrightarrow> j = i" by (metis em_busy_simps(2))
  with * em_leave show ?case by (auto simp: em_inv_def)
next
  case (em_again s i r)
  then have "em_busy (((em_pcs s)(i := EmIdle)) j) = em_busy (em_pcs s j)" for j by auto
  with em_again show ?case by (simp add: em_inv_def)
qed

lemma em_reach_inv: "em_reach fn v0 s \<Longrightarrow> em_inv s"
proof (induction rule: em_reach.induct)
  case em_start
  show ?case by (simp add: em_inv_def exclusive_map_new_def)
next
  case (em_next s t)
  then show ?case using em_step_inv by blast
qed

text \<open>
  C12: in every interleaving of \<^verbatim>\<open>map\<close> calls at most one context is inside its closure, the
  closure works on the current contents (no update is lost), and the cell is refused exactly
  while some context is inside.
\<close>

theorem exclusive_map_mutual_exclusion:
  assumes "em_reach fn v0 s"
  shows "(em_access (em_shared s) \<longleftrightarrow> (\<exists>i. em_busy (em_pcs s i)))
    \<and> (\<forall>i j. em_busy (em_pcs s i) \<longrightarrow> em_busy (em_pcs s j) \<longrightarrow> i = j)
    \<and> (\<forall>i v. em_pcs s i = EmInside v \<longrightarrow> v = em_cell (em_shared s))"
  using em_reach_inv [OF assms] by (simp add: em_inv_def)

definition em_example :: "(nat, nat) em_sys" where
  "em_example = \<lparr>em_shared = \<lparr>em_cell = 42, em_access = True\<rparr>,
                 em_pcs = (\<lambda>_. EmIdle)(0 := EmInside 42)\<rparr>"

lemma em_example_reach: "em_reach (\<lambda>i v. (v, v + 8)) 42 em_example"
proof -
  let ?s = "\<lparr>em_shared = exclusive_map_new (42::nat), em_pcs = (\<lambda>_. EmIdle :: (nat, nat) em_pc)\<rparr>"
  have "em_step (\<lambda>i v. (v, v + 8)) ?s em_example"
    using em_enter [of ?s 0 "\<lambda>i v. (v, v + 8)"] by (simp add: em_example_def exclusive_map_new_def)
  then show ?thesis by (rule em_next [OF em_start])
qed

lemma em_example_busy: "em_busy (em_pcs em_example 0)"
  by (simp add: em_example_def)

theorem exclusive_map_mutual_exclusion_witness:
  "em_reach (\<lambda>i v. (v, v + 8)) 42 em_example \<and> em_busy (em_pcs em_example 0)
   \<and> {j. em_busy (em_pcs em_example j)} = {0}"
  using exclusive_map_mutual_exclusion [OF em_example_reach]
    em_example_reach em_example_busy by blast

end
