(* ===== verification/Send.thy ===== *)
theory Send
  imports Sync
begin

text \<open>
  libutil/src/send.rs: values as the bytes they occupy (\<^verbatim>\<open>AsBytes\<close>, \<^verbatim>\<open>mem::transmute\<close> back),
  the descriptors of descriptor tables and the error of loading a register. The x86-64 target
  is little endian, so an integer field of a packed struct is its bytes, least significant first.
\<close>

section \<open>Integers as little endian bytes\<close>

definition to_le :: "nat \<Rightarrow> 'a::len word \<Rightarrow> bytes" where
  "to_le n w = map (\<lambda>i. ucast (drop_bit (8 * i) w)) [0..<n]"

primrec of_le :: "bytes \<Rightarrow> 'a::len word" where
  "of_le [] = 0"
| "of_le (b # bs) = ucast b OR push_bit 8 (of_le bs)"

lemma length_to_le [simp, codec_simps]: "length (to_le n w) = n"
  by (simp add: to_le_def)

lemma bit_of_le:
  "bit (of_le bs :: 'a::len word) n \<longleftrightarrow>
     n < LENGTH('a) \<and> n div 8 < length bs \<and> bit (bs ! (n div 8)) (n mod 8)"
proof (induction bs arbitrary: n)
  case (Cons b bs)
  show ?case
  proof (cases "n < 8")
    case True
    then show ?thesis
      by (auto simp: bit_simps)
  next
    case False
    then have "n div 8 = Suc ((n - 8) div 8)" "(n - 8) mod 8 = n mod 8"
      by (simp_all add: le_div_geq le_mod_geq)
    with False Cons.IH [of "n - 8"] show ?thesis
      by (auto simp: bit_simps dest: bit_imp_le_length)
  qed
qed simp

lemma of_le_to_le [simp, codec_simps]:
  fixes w :: "'a::len word"
  assumes "LENGTH('a) = 8 * n"
  shows "of_le (to_le n w) = w"
proof (rule bit_eqI)
  fix k
  show "bit (of_le (to_le n w) :: 'a word) k = bit w k"
  proof (cases "k < 8 * n")
    case True
    then have "k div 8 < n" by linarith
    with True assms show ?thesis by (simp add: bit_of_le to_le_def bit_simps)
  next
    case False
    with assms show ?thesis by (auto simp: bit_of_le dest: bit_imp_le_length)
  qed
qed

lemma to_le_of_le [simp, codec_simps]:
  assumes "length bs = n" and "8 * n \<le> LENGTH('a::len)"
  shows "to_le n (of_le bs :: 'a word) = bs"
proof (rule nth_equalityI)
  show "length (to_le n (of_le bs :: 'a word)) = length bs" using assms by simp
next
  fix i
  assume "i < length (to_le n (of_le bs :: 'a word))"
  then have i: "i < n" by simp
  show "to_le n (of_le bs :: 'a word) ! i = bs ! i"
  proof (rule bit_eqI)
    fix k
    assume "possible_bit TYPE(8 word) k"
    then have "k < 8" by simp
    with i assms show "bit (to_le n (of_le bs :: 'a word) ! i) k = bit (bs ! i) k"
      by (simp add: to_le_def bit_simps bit_of_le)
  qed
qed

section \<open>AsBytes\<close>

text \<open>
  A type whose values have no padding: a fixed number of bytes, and bytes and values determine
  each other. \<open>wf\<close> describes the values of the HOL type that are values of the Rust type.
\<close>

locale byte_codec =
  fixes as_bytes :: "'t \<Rightarrow> bytes"
    and from_raw :: "bytes \<Rightarrow> 't"
    and size_of :: nat
    and wf :: "'t \<Rightarrow> bool"
  assumes length_as_bytes: "wf x \<Longrightarrow> length (as_bytes x) = size_of"
    and from_raw_as_bytes: "wf x \<Longrightarrow> from_raw (as_bytes x) = x"
    and wf_from_raw: "length bs = size_of \<Longrightarrow> wf (from_raw bs)"
    and as_bytes_from_raw: "length bs = size_of \<Longrightarrow> as_bytes (from_raw bs) = bs"

text \<open>\<^verbatim>\<open>impl AsBytes for [T]\<close>, and \<^verbatim>\<open>transmute\<close> of a byte array to \<^verbatim>\<open>[T; n]\<close>.\<close>

definition slice_as_bytes :: "('t \<Rightarrow> bytes) \<Rightarrow> 't list \<Rightarrow> bytes" where
  "slice_as_bytes f xs = concat (map f xs)"

definition transmute_array :: "(bytes \<Rightarrow> 't) \<Rightarrow> nat \<Rightarrow> nat \<Rightarrow> bytes \<Rightarrow> 't list" where
  "transmute_array dec sz n bs = map (\<lambda>i. dec (take sz (drop (i * sz) bs))) [0..<n]"

lemma length_transmute_array [simp, codec_simps]: "length (transmute_array dec sz n bs) = n"
  by (simp add: transmute_array_def)

lemma transmute_array_0 [simp]: "transmute_array dec sz 0 bs = []"
  by (simp add: transmute_array_def)

lemma transmute_array_Suc:
  "transmute_array dec sz (Suc n) bs = dec (take sz bs) # transmute_array dec sz n (drop sz bs)"
proof -
  have "map (\<lambda>i. dec (take sz (drop (i * sz) bs))) [1..<Suc n]
      = map (\<lambda>i. dec (take sz (drop (i * sz) (drop sz bs)))) [0..<n]"
    by (simp add: map_Suc_upt [symmetric] add.commute del: upt_Suc)
  then show ?thesis
    by (simp add: transmute_array_def upt_conv_Cons del: upt_Suc)
qed

context byte_codec
begin

lemma length_slice:
  "\<forall>x\<in>set xs. wf x \<Longrightarrow> length (slice_as_bytes as_bytes xs) = length xs * size_of"
  by (induction xs) (auto simp: slice_as_bytes_def length_as_bytes)

lemma transmute_slice:
  "\<forall>x\<in>set xs. wf x \<Longrightarrow>
   transmute_array from_raw size_of (length xs) (slice_as_bytes as_bytes xs) = xs"
  by (induction xs)
    (auto simp: slice_as_bytes_def transmute_array_Suc length_as_bytes from_raw_as_bytes)

lemma slice_transmute:
  "length bs = n * size_of \<Longrightarrow> slice_as_bytes as_bytes (transmute_array from_raw size_of n bs) = bs"
  by (induction n arbitrary: bs)
    (auto simp: slice_as_bytes_def transmute_array_Suc as_bytes_from_raw)

lemma wf_transmute:
  "length bs = n * size_of \<Longrightarrow> x \<in> set (transmute_array from_raw size_of n bs) \<Longrightarrow> wf x"
proof (induction n arbitrary: bs)
  case (Suc n)
  show ?case
  proof (cases "x = from_raw (take size_of bs)")
    case True
    with Suc.prems(1) show ?thesis by (simp add: wf_from_raw)
  next
    case False
    with Suc.prems show ?thesis
      by (intro Suc.IH [of "drop size_of bs"]) (simp_all add: transmute_array_Suc)
  qed
qed simp

lemma array_as_bytes:
  "byte_codec (slice_as_bytes as_bytes) (transmute_array from_raw size_of n) (n * size_of)
     (\<lambda>xs. length xs = n \<and> (\<forall>x\<in>set xs. wf x))"
  by unfold_locales (auto simp: length_slice transmute_slice slice_transmute wf_transmute)

end

interpretation u8_bytes: byte_codec "to_le 1 :: u8 \<Rightarrow> bytes" of_le 1 "\<lambda>_. True"
  by unfold_locales simp_all

interpretation u16_bytes: byte_codec "to_le 2 :: u16 \<Rightarrow> bytes" of_le 2 "\<lambda>_. True"
  by unfold_locales simp_all

interpretation u64_bytes: byte_codec "to_le 8 :: u64 \<Rightarrow> bytes" of_le 8 "\<lambda>_. True"
  by unfold_locales simp_all

section \<open>Table descriptors\<close>

text \<open>The operand of \<^verbatim>\<open>lgdt\<close> and \<^verbatim>\<open>lidt\<close>; \<open>addr\<close> is the address of the table.\<close>

record table_descriptor =
  td_size :: u16
  td_offset :: u64

definition table_descriptor_new :: "nat \<Rightarrow> u64 \<Rightarrow> table_descriptor" where
  "table_descriptor_new size_of_table addr =
     \<lparr>td_size = ucast (of_nat size_of_table - 1 :: u64), td_offset = addr\<rparr>"

definition table_descriptor_invalid :: table_descriptor where
  "table_descriptor_invalid = \<lparr>td_size = 0, td_offset = 0\<rparr>"

definition table_descriptor_eq :: "table_descriptor \<Rightarrow> table_descriptor \<Rightarrow> bool" where
  "table_descriptor_eq a b \<longleftrightarrow> td_size a = td_size b \<and> td_offset a = td_offset b"

lemma table_descriptor_eq_iff: "table_descriptor_eq a b \<longleftrightarrow> a = b"
  by (auto simp: table_descriptor_eq_def)

definition table_descriptor_display :: "table_descriptor \<Rightarrow> string" where
  "table_descriptor_display d = ''size = '' @ dec_str (unat (td_size d)) @ '' & offset = 0x'' @ lhex_str (unat (td_offset d))"

datatype load_register_error = LoadErr init_error | StoreErr string | OtherErr string

definition load_register_error_display :: "string \<Rightarrow> load_register_error \<Rightarrow> string" where
  "load_register_error_display path e =
     (case e of
        LoadErr e \<Rightarrow> ''Failed load, '' @ init_error_display path e
      | StoreErr t \<Rightarrow> ''Stored '' @ t @ '' doesn't match loaded '' @ t
      | OtherErr s \<Rightarrow> s)"

end
