(* ===== verification/Fs_Types.thy ===== *)
theory Fs_Types
  imports Send
begin

text \<open>
  libfs/src/lib.rs: the pointers, the packed pair of block pointers and the inode of the
  filesystem, with their layout on the drive.
\<close>

section \<open>Constants\<close>

definition MAGIC :: bytes where "MAGIC = [0xFD, 0x53, 0x46, 0x4B, 0x86, 0x64]"
definition INODES :: nat where "INODES = 140"
definition INODE_START :: u64 where "INODE_START = 1"
definition BLOCK_START :: u64 where "BLOCK_START = INODE_START + of_nat (INODES div 4)"
definition BLOCK_SIZE :: nat where "BLOCK_SIZE = 512"

section \<open>Block pointers\<close>

datatype block_ptr = BlockPtr "u16 option"

definition MAX_VAL :: u16 where "MAX_VAL = 2 ^ 12"

definition block_ptr_null :: block_ptr where "block_ptr_null = BlockPtr None"

definition block_ptr_new :: "u16 \<Rightarrow> block_ptr" where
  "block_ptr_new ptr =
     (if ptr < MAX_VAL then BlockPtr (nonzero_new ptr) else BlockPtr (nonzero_new MAX_VAL))"

fun block_ptr_get :: "block_ptr \<Rightarrow> u16 option" where
  "block_ptr_get (BlockPtr p) = p"

definition block_ptr_get_nullable :: "block_ptr \<Rightarrow> u16" where
  "block_ptr_get_nullable p = (case block_ptr_get p of Some val \<Rightarrow> val | None \<Rightarrow> 0)"

definition block_ptr_is_null :: "block_ptr \<Rightarrow> bool" where
  "block_ptr_is_null p \<longleftrightarrow> block_ptr_get p = None"

definition block_ptr_is_valid :: "block_ptr \<Rightarrow> bool" where
  "block_ptr_is_valid p \<longleftrightarrow> \<not> block_ptr_is_null p"

definition block_ptr_display :: "block_ptr \<Rightarrow> string" where
  "block_ptr_display p =
     (case block_ptr_get p of Some ptr \<Rightarrow> ''block ptr '' @ dec_str (unat ptr) | None \<Rightarrow> ''null block ptr'')"

text \<open>The values the constructor can make: null, or \<^verbatim>\<open>0 < ptr <= MAX_VAL\<close>.\<close>

definition block_ptr_wf :: "block_ptr \<Rightarrow> bool" where
  "block_ptr_wf p = (case block_ptr_get p of None \<Rightarrow> True | Some w \<Rightarrow> 0 < w \<and> w \<le> MAX_VAL)"

lemma block_ptr_new_wf [simp]: "block_ptr_wf (block_ptr_new w)"
  by (auto simp: block_ptr_wf_def block_ptr_new_def nonzero_new_def MAX_VAL_def
      word_neq_0_conv [symmetric])

lemma block_ptr_new_small: "w < MAX_VAL \<Longrightarrow> block_ptr_new w = BlockPtr (nonzero_new w)"
  by (simp add: block_ptr_new_def)

lemma block_ptr_get_nullable_new:
  "block_ptr_get_nullable (block_ptr_new w) = (if w < MAX_VAL then w else MAX_VAL)"
  by (simp add: block_ptr_get_nullable_def block_ptr_new_def nonzero_new_def MAX_VAL_def)

lemma block_ptr_new_nullable:
  "block_ptr_wf p \<Longrightarrow> block_ptr_new (block_ptr_get_nullable p) = p"
  by (cases p; cases "block_ptr_get p")
    (auto simp: block_ptr_wf_def block_ptr_new_def block_ptr_get_nullable_def nonzero_new_def
      MAX_VAL_def)

section \<open>Two block pointers in three bytes\<close>

datatype dual_block_ptr = DualBlockPtr u8 u8 u8

definition INODE_PTRS :: nat where "INODE_PTRS = 24"

definition dual_empty_arr :: "dual_block_ptr list" where
  "dual_empty_arr = replicate INODE_PTRS (DualBlockPtr 0 0 0)"

fun dual_decode :: "dual_block_ptr \<Rightarrow> block_ptr list" where
  "dual_decode (DualBlockPtr b0 b1 b2) =
     (let first = push_bit 4 (ucast b0 :: u16) OR drop_bit 4 ((ucast b1 :: u16) AND 0xF0);
          second = push_bit 8 ((ucast b1 :: u16) AND 0x0F) OR (ucast b2 :: u16)
      in [block_ptr_new first, block_ptr_new second])"

definition dual_encode :: "block_ptr \<Rightarrow> block_ptr \<Rightarrow> dual_block_ptr" where
  "dual_encode p0 p1 =
     (let fst = block_ptr_get_nullable p0; snd = block_ptr_get_nullable p1;
          one = (ucast (drop_bit 4 fst) :: u8);
          two = (ucast (push_bit 4 (fst AND 0xF) OR drop_bit 8 (snd AND 0xF00)) :: u8);
          three = (ucast snd :: u8)
      in DualBlockPtr one two three)"

definition dual_display :: "dual_block_ptr \<Rightarrow> string" where
  "dual_display d =
     (let ptrs = dual_decode d
      in ''('' @ block_ptr_display (ptrs ! 0) @ '', '' @ block_ptr_display (ptrs ! 1) @ '')'')"

lemma high_bits_clear:
  fixes w :: u16
  assumes "w < MAX_VAL"
  shows "\<not> bit w 12" "\<not> bit w 13" "\<not> bit w 14" "\<not> bit w 15"
  using assms bit_lessD [of w 12 12] bit_lessD [of w 12 13] bit_lessD [of w 12 14] bit_lessD [of w 12 15]
  by (auto simp: MAX_VAL_def)

lemma decoded_first_small:
  "push_bit 4 (ucast (b0 :: u8) :: u16) OR drop_bit 4 ((ucast (b1 :: u8) :: u16) AND 0xF0) < MAX_VAL"
    (is "?w < _")
proof -
  have "?w = take_bit 12 ?w" by (rule u16_eqI) (simp_all add: bit_simps)
  then have "?w = ?w AND mask 12" by (simp add: take_bit_eq_mask)
  then have "?w \<le> mask 12" using word_and_le1 by metis
  then show ?thesis by (simp add: MAX_VAL_def mask_eq_exp_minus_1 word_le_nat_alt word_less_nat_alt)
qed

lemma decoded_second_small:
  "push_bit 8 ((ucast (b1 :: u8) :: u16) AND 0x0F) OR (ucast (b2 :: u8) :: u16) < MAX_VAL"
    (is "?w < _")
proof -
  have "?w = take_bit 12 ?w" by (rule u16_eqI) (simp_all add: bit_simps)
  then have "?w = ?w AND mask 12" by (simp add: take_bit_eq_mask)
  then have "?w \<le> mask 12" using word_and_le1 by metis
  then show ?thesis by (simp add: MAX_VAL_def mask_eq_exp_minus_1 word_le_nat_alt word_less_nat_alt)
qed

lemma split_bytes_first:
  fixes f s :: u16
  assumes "f < MAX_VAL" and "s < MAX_VAL"
  shows "push_bit 4 (ucast (ucast (drop_bit 4 f) :: u8) :: u16)
      OR drop_bit 4 ((ucast (ucast (push_bit 4 (f AND 0xF) OR drop_bit 8 (s AND 0xF00)) :: u8) :: u16) AND 0xF0) = f"
  by (rule u16_eqI) (use high_bits_clear [OF assms(1)] in \<open>simp_all add: bit_simps\<close>)

lemma split_bytes_second:
  fixes f s :: u16
  assumes "f < MAX_VAL" and "s < MAX_VAL"
  shows "push_bit 8 ((ucast (ucast (push_bit 4 (f AND 0xF) OR drop_bit 8 (s AND 0xF00)) :: u8) :: u16) AND 0x0F)
      OR (ucast (ucast s :: u8) :: u16) = s"
  by (rule u16_eqI) (use high_bits_clear [OF assms(2)] in \<open>simp_all add: bit_simps\<close>)

lemma dual_decode_encode_bytes:
  "dual_encode (dual_decode d ! 0) (dual_decode d ! 1) = d"
proof (cases d)
  case (DualBlockPtr b0 b1 b2)
  have 1: "ucast (drop_bit 4 (push_bit 4 (ucast b0 :: u16) OR drop_bit 4 ((ucast b1 :: u16) AND 0xF0))) = b0"
    by (rule u8_eqI) (simp_all add: bit_simps)
  have 2: "ucast (push_bit 4 ((push_bit 4 (ucast b0 :: u16) OR drop_bit 4 ((ucast b1 :: u16) AND 0xF0)) AND 0xF)
      OR drop_bit 8 ((push_bit 8 ((ucast b1 :: u16) AND 0x0F) OR (ucast b2 :: u16)) AND 0xF00)) = b1"
    by (rule u8_eqI) (simp_all add: bit_simps)
  have 3: "ucast (push_bit 8 ((ucast b1 :: u16) AND 0x0F) OR (ucast b2 :: u16)) = b2"
    by (rule u8_eqI) (simp_all add: bit_simps)
  show ?thesis
    using 1 2 3 decoded_first_small [of b0 b1] decoded_second_small [of b1 b2]
    by (simp add: DualBlockPtr dual_encode_def Let_def block_ptr_get_nullable_new)
qed

text \<open>
  C27: packing two block pointers below \<^verbatim>\<open>MAX_VAL\<close> (null included) into three bytes and unpacking
  them gives the same two pointers; and unpacking any three bytes and packing the result gives
  the same three bytes, so the twelve bit packing loses nothing in either direction.
\<close>

theorem dual_block_ptr_round_trip:
  assumes "f < MAX_VAL" and "s < MAX_VAL"
  shows "dual_decode (dual_encode (block_ptr_new f) (block_ptr_new s)) = [block_ptr_new f, block_ptr_new s]
    \<and> dual_encode (dual_decode d ! 0) (dual_decode d ! 1) = d"
proof
  show "dual_decode (dual_encode (block_ptr_new f) (block_ptr_new s)) = [block_ptr_new f, block_ptr_new s]"
    using split_bytes_first [OF assms] split_bytes_second [OF assms] assms
    by (simp add: dual_encode_def Let_def block_ptr_get_nullable_new)
qed (rule dual_decode_encode_bytes)

theorem dual_block_ptr_round_trip_witness:
  "dual_decode (dual_encode (block_ptr_new 0xABC) (block_ptr_new 0x123))
     = [block_ptr_new 0xABC, block_ptr_new 0x123]"
  using dual_block_ptr_round_trip [where f = "0xABC" and s = "0x123"] by (simp add: MAX_VAL_def)

lemma dual_decode_bounds:
  "p \<in> set (dual_decode d) \<Longrightarrow> block_ptr_get p = Some w \<Longrightarrow> 0 < w \<and> w < MAX_VAL"
  using decoded_first_small decoded_second_small
  by (cases d) (auto simp: Let_def block_ptr_new_def nonzero_new_def word_neq_0_conv [symmetric]
      split: if_splits)

end
