(* ===== verification/Fs_Inode.thy ===== *)
theory Fs_Inode
  imports Fs_Types
begin

text \<open>
  libfs/src/lib.rs, continued: inode pointers, and the inode with its 128 byte packed layout.
\<close>

section \<open>Inode pointers\<close>

datatype inode_ptr = InodePtr "u16 option"

definition inode_ptr_null :: inode_ptr where "inode_ptr_null = InodePtr None"

definition inode_ptr_new :: "u16 \<Rightarrow> inode_ptr" where
  "inode_ptr_new ptr = InodePtr (nonzero_new ptr)"

fun inode_ptr_get :: "inode_ptr \<Rightarrow> u16 option" where
  "inode_ptr_get (InodePtr p) = p"

definition inode_ptr_is_null :: "inode_ptr \<Rightarrow> bool" where
  "inode_ptr_is_null p \<longleftrightarrow> inode_ptr_get p = None"

definition inode_ptr_is_valid :: "inode_ptr \<Rightarrow> bool" where
  "inode_ptr_is_valid p \<longleftrightarrow> \<not> inode_ptr_is_null p"

fun get_table_idx :: "inode_ptr \<Rightarrow> u16 option" where
  "get_table_idx (InodePtr (Some ptr)) = Some (ptr - 1)"
| "get_table_idx (InodePtr None) = None"

lemma get_table_idx_new:
  "get_table_idx (inode_ptr_new w) = (if w = 0 then None else Some (w - 1))"
  by (simp add: inode_ptr_new_def nonzero_new_def)

section \<open>Inodes\<close>

text \<open>\<^verbatim>\<open>FileMode\<close> is a \<^verbatim>\<open>u16\<close> of flags in which every bit pattern is allowed (\<^verbatim>\<open>const _ = !0\<close>).\<close>

datatype file_mode = FileMode (file_mode_bits: u16)

definition DIRECTORY :: file_mode where "DIRECTORY = FileMode 1"

record inode =
  nod_mode :: file_mode
  nod_links :: u8
  nod_size :: u16
  nod_blocks :: "dual_block_ptr list"
  nod_parent :: inode_ptr
  nod_reserved :: bytes

definition RESERVED_BYTES :: nat where "RESERVED_BYTES = 49"

definition inode_zeroed :: inode where
  "inode_zeroed = \<lparr>nod_mode = FileMode 0, nod_links = 0, nod_size = 0, nod_blocks = dual_empty_arr,
     nod_parent = inode_ptr_null, nod_reserved = replicate RESERVED_BYTES 0\<rparr>"

definition inode_new :: "file_mode \<Rightarrow> u16 \<Rightarrow> inode_ptr \<Rightarrow> inode" where
  "inode_new mode sz parent =
     \<lparr>nod_mode = mode, nod_links = 1, nod_size = sz, nod_blocks = dual_empty_arr,
      nod_parent = parent, nod_reserved = replicate RESERVED_BYTES 0\<rparr>"

definition is_available :: "inode \<Rightarrow> bool" where
  "is_available n \<longleftrightarrow> nod_links n = 0"

definition inode_clone :: "inode \<Rightarrow> inode" where
  "inode_clone n =
     \<lparr>nod_mode = nod_mode n, nod_links = nod_links n, nod_size = nod_size n,
      nod_blocks = nod_blocks n, nod_parent = nod_parent n,
      nod_reserved = replicate RESERVED_BYTES 0\<rparr>"

definition inode_eq :: "inode \<Rightarrow> inode \<Rightarrow> bool" where
  "inode_eq a b \<longleftrightarrow> nod_size a = nod_size b \<and> nod_parent a = nod_parent b \<and>
     nod_links a = nod_links b \<and> nod_mode a = nod_mode b \<and> nod_blocks a = nod_blocks b"

text \<open>The values of the Rust type: arrays of the declared lengths, no null inside a \<^verbatim>\<open>NonZero\<close>.\<close>

definition inode_wf :: "inode \<Rightarrow> bool" where
  "inode_wf n \<longleftrightarrow> length (nod_blocks n) = INODE_PTRS \<and> length (nod_reserved n) = RESERVED_BYTES \<and>
     inode_ptr_get (nod_parent n) \<noteq> Some 0"

lemma inode_zeroed_wf [simp]: "inode_wf inode_zeroed"
  by (simp add: inode_wf_def inode_zeroed_def dual_empty_arr_def inode_ptr_null_def)

lemma inode_new_wf [simp]: "inode_ptr_get parent \<noteq> Some 0 \<Longrightarrow> inode_wf (inode_new mode sz parent)"
  by (simp add: inode_wf_def inode_new_def dual_empty_arr_def)

lemma inode_clone_wf [simp]: "inode_wf n \<Longrightarrow> inode_wf (inode_clone n)"
  by (simp add: inode_wf_def inode_clone_def)

lemma inode_clone_idem [simp]: "inode_clone (inode_clone n) = inode_clone n"
  by (simp add: inode_clone_def)

lemma is_available_clone [simp]: "is_available (inode_clone n) = is_available n"
  by (simp add: is_available_def inode_clone_def)

lemma is_available_zeroed [simp]: "is_available inode_zeroed"
  by (simp add: is_available_def inode_zeroed_def)

lemma inode_clone_zeroed [simp]: "inode_clone inode_zeroed = inode_zeroed"
  by (simp add: inode_clone_def inode_zeroed_def)

text \<open>A clone compares equal to its original, although the reserved bytes are dropped.\<close>

lemma inode_eq_clone: "inode_eq a b \<longleftrightarrow> inode_clone a = inode_clone b"
  by (auto simp: inode_eq_def inode_clone_def)

section \<open>Layout\<close>

fun dual_as_bytes :: "dual_block_ptr \<Rightarrow> bytes" where
  "dual_as_bytes (DualBlockPtr a b c) = [a, b, c]"

definition dual_from_raw :: "bytes \<Rightarrow> dual_block_ptr" where
  "dual_from_raw bs = DualBlockPtr (bs ! 0) (bs ! 1) (bs ! 2)"

interpretation dual_bytes: byte_codec dual_as_bytes dual_from_raw 3 "\<lambda>_. True"
proof unfold_locales
  fix d bs
  show "length (dual_as_bytes d) = 3" by (cases d) simp
  show "dual_from_raw (dual_as_bytes d) = d" by (cases d) (simp add: dual_from_raw_def)
  show "dual_as_bytes (dual_from_raw bs) = bs" if "length bs = 3"
    using that by (auto simp: dual_from_raw_def length_Suc_conv numeral_3_eq_3)
qed simp

interpretation blocks_bytes: byte_codec
  "slice_as_bytes dual_as_bytes" "transmute_array dual_from_raw 3 24" 72 "\<lambda>xs. length xs = 24"
  using dual_bytes.array_as_bytes [of 24] by simp

definition inode_as_bytes :: "inode \<Rightarrow> bytes" where
  "inode_as_bytes n =
     to_le 2 (file_mode_bits (nod_mode n)) @ to_le 1 (nod_links n) @ to_le 2 (nod_size n) @
     slice_as_bytes dual_as_bytes (nod_blocks n) @
     to_le 2 (niche (inode_ptr_get (nod_parent n))) @ nod_reserved n"

definition inode_from_raw :: "bytes \<Rightarrow> inode" where
  "inode_from_raw bs =
     \<lparr>nod_mode = FileMode (of_le (take 2 bs)),
      nod_links = of_le (take 1 (drop 2 bs)),
      nod_size = of_le (take 2 (drop 3 bs)),
      nod_blocks = transmute_array dual_from_raw 3 INODE_PTRS (take 72 (drop 5 bs)),
      nod_parent = InodePtr (nonzero_new (of_le (take 2 (drop 77 bs)))),
      nod_reserved = take RESERVED_BYTES (drop 79 bs)\<rparr>"

definition SIZE_OF_INODE :: nat where "SIZE_OF_INODE = 128"

interpretation inode_bytes: byte_codec inode_as_bytes inode_from_raw SIZE_OF_INODE inode_wf
proof unfold_locales
  fix n bs
  assume wf: "inode_wf n"
  then have l: "length (slice_as_bytes dual_as_bytes (nod_blocks n)) = 72"
    and t: "transmute_array dual_from_raw 3 24 (slice_as_bytes dual_as_bytes (nod_blocks n)) = nod_blocks n"
    and p: "nonzero_new (niche (inode_ptr_get (nod_parent n))) = inode_ptr_get (nod_parent n)"
    and r: "length (nod_reserved n) = 49"
    using blocks_bytes.length_as_bytes blocks_bytes.from_raw_as_bytes
    by (simp_all add: inode_wf_def INODE_PTRS_def RESERVED_BYTES_def)
  show "length (inode_as_bytes n) = SIZE_OF_INODE"
    by (simp add: inode_as_bytes_def l r SIZE_OF_INODE_def)
  show "inode_from_raw (inode_as_bytes n) = n"
    by (cases "nod_parent n")
      (use p in \<open>simp add: inode_from_raw_def inode_as_bytes_def l r t INODE_PTRS_def RESERVED_BYTES_def\<close>)
next
  fix bs :: bytes
  assume "length bs = SIZE_OF_INODE"
  then have len: "length bs = 128" by (simp add: SIZE_OF_INODE_def)
  then show "inode_wf (inode_from_raw bs)"
    by (simp add: inode_wf_def inode_from_raw_def RESERVED_BYTES_def)
  have b: "slice_as_bytes dual_as_bytes (transmute_array dual_from_raw 3 24 (take 72 (drop 5 bs)))
      = take 72 (drop 5 bs)"
    using len by (intro blocks_bytes.as_bytes_from_raw) simp
  have "bs = take 2 bs @ take 1 (drop 2 bs) @ take 2 (drop 3 bs) @ take 72 (drop 5 bs) @
      take 2 (drop 77 bs) @ take 49 (drop 79 bs)"
    using len
    by (intro nth_equalityI) (auto simp: nth_append min_def)
  then show "inode_as_bytes (inode_from_raw bs) = bs"
    using len b by (simp add: inode_as_bytes_def inode_from_raw_def INODE_PTRS_def RESERVED_BYTES_def)
qed

text \<open>
  C26: an inode is 128 bytes, a quarter of a block; reading back the bytes of an inode gives that
  inode, and every 128 bytes are the bytes of a well-formed inode (so transmuting a freshly
  read table is sound); an array of inodes written to the drive reads back as the same array.
\<close>

theorem inode_layout:
  assumes "inode_wf n" and "length bs = SIZE_OF_INODE" and "\<forall>m\<in>set ns. inode_wf m"
  shows "length (inode_as_bytes n) * 4 = BLOCK_SIZE
    \<and> inode_from_raw (inode_as_bytes n) = n
    \<and> inode_wf (inode_from_raw bs) \<and> inode_as_bytes (inode_from_raw bs) = bs
    \<and> transmute_array inode_from_raw SIZE_OF_INODE (length ns) (slice_as_bytes inode_as_bytes ns) = ns"
  using assms inode_bytes.length_as_bytes inode_bytes.from_raw_as_bytes inode_bytes.wf_from_raw
    inode_bytes.as_bytes_from_raw inode_bytes.transmute_slice
  by (simp add: SIZE_OF_INODE_def BLOCK_SIZE_def)

theorem inode_layout_witness:
  "inode_from_raw (inode_as_bytes (inode_new DIRECTORY 7 (inode_ptr_new 0x42)))
     = inode_new DIRECTORY 7 (inode_ptr_new 0x42)"
  using inode_layout [of "inode_new DIRECTORY 7 (inode_ptr_new 0x42)" "replicate 128 0" "[]"]
  by (simp add: SIZE_OF_INODE_def inode_ptr_new_def nonzero_new_def)

lemma inode_zeroed_bytes: "inode_as_bytes inode_zeroed = replicate SIZE_OF_INODE 0"
  by (simp add: inode_as_bytes_def inode_zeroed_def SIZE_OF_INODE_def to_le_def dual_empty_arr_def
      INODE_PTRS_def RESERVED_BYTES_def slice_as_bytes_def inode_ptr_null_def niche_def
      numeral_eq_Suc)

end
