(* ===== verification/Fs_Header.thy ===== *)
theory Fs_Header
  imports Fs_Inode
begin

text \<open>
  libfs/src/header.rs: the header in block 0, and the release date packed in sixteen bits.
\<close>

section \<open>Releases\<close>

datatype fs_release = FsRelease u16

definition YEAR_START :: u16 where "YEAR_START = 2025"

definition fs_release_new :: "u16 \<Rightarrow> u16 \<Rightarrow> fs_release" where
  "fs_release_new day year = FsRelease (push_bit 10 (year - YEAR_START) OR day)"

fun year_day :: "fs_release \<Rightarrow> u16 \<times> u16" where
  "year_day (FsRelease r) = (let yr = drop_bit 10 r; day = r AND 0b111111111 in (yr, day))"

datatype cmp_ordering = Less | Equal | Greater

definition fs_release_partial_cmp :: "fs_release \<Rightarrow> fs_release \<Rightarrow> cmp_ordering option" where
  "fs_release_partial_cmp self other =
     (if self = other then Some Equal
      else let (self_yr, self_day) = year_day self;
               (other_yr, other_day) = year_day other
           in if other_yr > self_yr \<or> (self_yr = other_yr \<and> other_day > self_day)
              then Some Less else Some Greater)"

definition fs_release_display :: "fs_release \<Rightarrow> string" where
  "fs_release_display r =
     (let (year, day) = year_day r
      in dec_str (unat day) @ '':'' @ dec_str (unat (year + YEAR_START)))"

lemma year_of_packed:
  fixes y d :: u16
  assumes "y < 64" and "d < 1024"
  shows "drop_bit 10 (push_bit 10 y OR d) = y"
proof -
  have y: "\<not> bit y k" if "6 \<le> k" for k
    using bit_lessD [of y 6 k] assms(1) that by auto
  have d: "\<not> bit d k" if "10 \<le> k" for k
    using bit_lessD [of d 10 k] assms(2) that by auto
  show ?thesis by (rule u16_eqI) (simp_all add: bit_simps y d)
qed

lemma day_of_packed:
  fixes y d :: u16
  assumes "d < 512"
  shows "(push_bit 10 y OR d) AND 0b111111111 = d"
proof -
  have d: "\<not> bit d k" if "9 \<le> k" for k
    using bit_lessD [of d 9 k] assms that by auto
  show ?thesis by (rule u16_eqI) (simp_all add: bit_simps d)
qed

lemma year_offset_small:
  fixes year :: u16
  assumes "2025 \<le> year" and "year < 2089"
  shows "year - YEAR_START < 64"
  using assms unfolding YEAR_START_def by unat_arith

lemma year_day_new:
  assumes "day < 512" and "2025 \<le> year" and "year < 2089"
  shows "year_day (fs_release_new day year) = (year - YEAR_START, day)"
proof -
  have "day < 1024" using assms(1) by unat_arith
  then show ?thesis
    using year_of_packed [OF year_offset_small [OF assms(2,3)]] day_of_packed [OF assms(1)]
    by (simp add: fs_release_new_def)
qed

lemma fs_release_new_eq_iff:
  assumes "d1 < 512" "2025 \<le> y1" "y1 < 2089" "d2 < 512" "2025 \<le> y2" "y2 < 2089"
  shows "fs_release_new d1 y1 = fs_release_new d2 y2 \<longleftrightarrow> d1 = d2 \<and> y1 = y2"
proof
  assume "fs_release_new d1 y1 = fs_release_new d2 y2"
  then have "year_day (fs_release_new d1 y1) = year_day (fs_release_new d2 y2)" by (rule arg_cong)
  then show "d1 = d2 \<and> y1 = y2"
    unfolding year_day_new [OF assms(1-3)] year_day_new [OF assms(4-6)] by simp
qed simp

text \<open>
  for every real date from 2025 to 2088 the packed release gives back the year offset and the
  day, prints as \<^verbatim>\<open>day:year\<close>, and comparing two releases is comparing the dates, year first.
\<close>

theorem fs_release_is_a_date:
  assumes "d1 < 512" "2025 \<le> y1" "y1 < 2089" and "d2 < 512" "2025 \<le> y2" "y2 < 2089"
  shows "year_day (fs_release_new d1 y1) = (y1 - YEAR_START, d1)
    \<and> fs_release_display (fs_release_new d1 y1) = dec_str (unat d1) @ '':'' @ dec_str (unat y1)
    \<and> fs_release_partial_cmp (fs_release_new d1 y1) (fs_release_new d2 y2) =
        Some (if (y1, d1) = (y2, d2) then Equal
              else if y1 < y2 \<or> y1 = y2 \<and> d1 < d2 then Less else Greater)"
proof -
  have "y1 - YEAR_START < y2 - YEAR_START \<longleftrightarrow> y1 < y2"
    using assms(2,5) unfolding YEAR_START_def by unat_arith
  moreover have "y1 - YEAR_START = y2 - YEAR_START \<longleftrightarrow> y1 = y2" by simp
  ultimately show ?thesis
    using year_day_new [OF assms(1-3)] year_day_new [OF assms(4-6)]
      fs_release_new_eq_iff [OF assms]
    by (simp add: fs_release_partial_cmp_def fs_release_display_def)
qed

theorem fs_release_is_a_date_witness:
  "fs_release_partial_cmp (fs_release_new 364 2025) (fs_release_new 2 2026) = Some Less"
  using fs_release_is_a_date [of 364 2025 2 2026] by simp

text \<open>
  the doc comment gives the day bits 0 to 9, but the mask that reads it back has nine ones:
  a day with bit 9 set loses it, and two different releases then each compare greater than the
  other, so the order is not antisymmetric.
\<close>

theorem fs_release_day_bit_9_lost:
  "year_day (fs_release_new 512 2025) = (0, 0)
   \<and> fs_release_partial_cmp (fs_release_new 512 2025) (fs_release_new 0 2025) = Some Greater
   \<and> fs_release_partial_cmp (fs_release_new 0 2025) (fs_release_new 512 2025) = Some Greater"
  by (simp add: fs_release_new_def fs_release_partial_cmp_def YEAR_START_def)

section \<open>The header\<close>

record filesystem_header =
  hdr_magic :: bytes
  hdr_release :: fs_release
  hdr_features :: u64
  hdr_name :: bytes
  hdr_size :: u64
  hdr_reserved :: bytes

definition FsFeatures_FLOPPY :: u64 where "FsFeatures_FLOPPY = 1"
definition HDR_NAME_LEN :: nat where "HDR_NAME_LEN = 16"
definition HDR_RESERVED_BYTES :: nat where "HDR_RESERVED_BYTES = 472"
definition SIZE_OF_HEADER :: nat where "SIZE_OF_HEADER = 512"

definition filesystem_header_new :: "bytes \<Rightarrow> u16 \<Rightarrow> u16 \<Rightarrow> u64 \<Rightarrow> u64 \<Rightarrow> filesystem_header" where
  "filesystem_header_new name day year sz feats =
     \<lparr>hdr_magic = MAGIC, hdr_release = fs_release_new day year, hdr_features = feats,
      hdr_name = name, hdr_size = sz, hdr_reserved = replicate HDR_RESERVED_BYTES 0\<rparr>"

fun fs_release_bits :: "fs_release \<Rightarrow> u16" where
  "fs_release_bits (FsRelease r) = r"

definition header_as_bytes :: "filesystem_header \<Rightarrow> bytes" where
  "header_as_bytes h =
     hdr_magic h @ to_le 2 (fs_release_bits (hdr_release h)) @ to_le 8 (hdr_features h) @
     hdr_name h @ to_le 8 (hdr_size h) @ hdr_reserved h"

definition header_from_raw :: "bytes \<Rightarrow> filesystem_header" where
  "header_from_raw bs =
     \<lparr>hdr_magic = take 6 bs, hdr_release = FsRelease (of_le (take 2 (drop 6 bs))),
      hdr_features = of_le (take 8 (drop 8 bs)), hdr_name = take HDR_NAME_LEN (drop 16 bs),
      hdr_size = of_le (take 8 (drop 32 bs)), hdr_reserved = take HDR_RESERVED_BYTES (drop 40 bs)\<rparr>"

definition header_wf :: "filesystem_header \<Rightarrow> bool" where
  "header_wf h \<longleftrightarrow> length (hdr_magic h) = 6 \<and> length (hdr_name h) = HDR_NAME_LEN \<and>
     length (hdr_reserved h) = HDR_RESERVED_BYTES"

lemmas header_consts = HDR_NAME_LEN_def HDR_RESERVED_BYTES_def SIZE_OF_HEADER_def

lemma filesystem_header_new_wf [simp]:
  "length name = HDR_NAME_LEN \<Longrightarrow> header_wf (filesystem_header_new name day year sz feats)"
  by (simp add: header_wf_def filesystem_header_new_def MAGIC_def)

interpretation header_bytes: byte_codec header_as_bytes header_from_raw SIZE_OF_HEADER header_wf
proof unfold_locales
  fix h
  assume "header_wf h"
  then show "length (header_as_bytes h) = SIZE_OF_HEADER"
    and "header_from_raw (header_as_bytes h) = h"
    by (cases "hdr_release h"; simp add: header_wf_def header_as_bytes_def header_from_raw_def header_consts)+
next
  fix bs :: bytes
  assume "length bs = SIZE_OF_HEADER"
  then have len: "length bs = 512" by (simp add: SIZE_OF_HEADER_def)
  then show "header_wf (header_from_raw bs)"
    by (simp add: header_wf_def header_from_raw_def header_consts)
  have "bs = take 6 bs @ take 2 (drop 6 bs) @ take 8 (drop 8 bs) @ take 16 (drop 16 bs) @
      take 8 (drop 32 bs) @ take 472 (drop 40 bs)"
    using len by (intro nth_equalityI) (auto simp: nth_append min_def)
  then show "header_as_bytes (header_from_raw bs) = bs"
    using len by (simp add: header_as_bytes_def header_from_raw_def header_consts)
qed

text \<open>
  the header is exactly one block, the bytes of a header read back as that header, and every
  block is the bytes of some header, so an unformatted drive is read without undefined values
  and is recognised by its magic number alone.
\<close>

theorem header_layout:
  assumes "header_wf h" and "length bs = BLOCK_SIZE"
  shows "length (header_as_bytes h) = BLOCK_SIZE \<and> header_from_raw (header_as_bytes h) = h
    \<and> header_as_bytes (header_from_raw bs) = bs
    \<and> (hdr_magic (header_from_raw bs) = MAGIC \<longleftrightarrow> take 6 bs = MAGIC)"
  using assms header_bytes.length_as_bytes header_bytes.from_raw_as_bytes
    header_bytes.as_bytes_from_raw
  by (simp add: SIZE_OF_HEADER_def BLOCK_SIZE_def header_from_raw_def)

theorem header_layout_witness:
  "length (header_as_bytes (filesystem_header_new (replicate 16 65) 364 2025 0 1)) = BLOCK_SIZE"
  using header_layout [of "filesystem_header_new (replicate 16 65) 364 2025 0 1" "replicate 512 0"]
  by (simp add: HDR_NAME_LEN_def BLOCK_SIZE_def)

end
