(* ===== verification/Fs_Table.thy ===== *)
theory Fs_Table
  imports Fs_Header
begin

text \<open>
  libfs/src/table.rs: the block bitmap and the inode table cached in memory, and the allocation
  of blocks and inodes. The drive is reached through the \<^verbatim>\<open>Write\<close> function the caller passes.
\<close>

section \<open>State\<close>

type_synonym inode_table = "inode exclusive_map list"
type_synonym block_bitmap = "u128 exclusive_map list"

text \<open>\<^verbatim>\<open>Read\<close> fills the buffer it is given, \<^verbatim>\<open>Write\<close> writes it; both act on the drive \<open>'s\<close>.\<close>

type_synonym ('s, 'e) drive_read = "u64 \<Rightarrow> bytes \<Rightarrow> ('s, 'e, bytes) fallible"
type_synonym ('s, 'e) drive_write = "u64 \<Rightarrow> bytes \<Rightarrow> ('s, 'e, unit) fallible"

definition U128_BITS :: nat where "U128_BITS = 128"

definition inode_tbl_static :: inode_table where
  "inode_tbl_static = replicate INODES (exclusive_map_new inode_zeroed)"

definition block_bmp_static :: block_bitmap where
  "block_bmp_static = replicate (unat MAX_VAL div U128_BITS) (exclusive_map_new 0)"

section \<open>Block allocation\<close>

datatype alloc_bmp_error = NullPtr | AlreadyInUse block_ptr | ExmapInUse block_ptr

definition alloc_bmp_error_display :: "alloc_bmp_error \<Rightarrow> string" where
  "alloc_bmp_error_display e =
     (case e of
        NullPtr \<Rightarrow> ''attempted allocating a null block ptr''
      | AlreadyInUse b \<Rightarrow> block_ptr_display b @ '' is already allocated''
      | ExmapInUse b \<Rightarrow> block_ptr_display b @ [CHR 0x27] @ ''s exmap is being used somewhere else'')"

definition alloc_bmp :: "block_ptr \<Rightarrow> block_bitmap \<Rightarrow> ((alloc_bmp_error + unit) \<times> block_bitmap) run" where
  "alloc_bmp block bmp =
     (case block_ptr_get block of
        None \<Rightarrow> Done (Err NullPtr, bmp)
      | Some p \<Rightarrow>
          let ptr = unat p;
              idx = ptr div U128_BITS;
              b = push_bit (ptr mod U128_BITS) (1 :: u128)
          in if length bmp \<le> idx then Panic
             else let (res, cell) = exmap_map (\<lambda>i. if i AND b \<noteq> 0 then (Err (AlreadyInUse block), i)
                                                  else (Ok (), i OR b)) (bmp ! idx);
                      bmp = bmp[idx := cell]
                  in (case res of Some r \<Rightarrow> Done (r, bmp)
                                | None \<Rightarrow> Done (Err (ExmapInUse block), bmp)))"

fun alloc_next_from :: "nat list \<Rightarrow> block_bitmap \<Rightarrow> (block_ptr \<times> block_bitmap) run" where
  "alloc_next_from [] bmp = Done (block_ptr_null, bmp)"
| "alloc_next_from (ptr # ptrs) bmp =
     (let blk = block_ptr_new (of_nat ptr)
      in andThen (alloc_bmp blk bmp)
           (\<lambda>(r, bmp). case r of Inr _ \<Rightarrow> Done (blk, bmp) | Inl _ \<Rightarrow> alloc_next_from ptrs bmp))"

definition alloc_next_bmp :: "block_bitmap \<Rightarrow> (block_ptr \<times> block_bitmap) run" where
  "alloc_next_bmp bmp = alloc_next_from [1..<unat MAX_VAL] bmp"

section \<open>Inode allocation\<close>

datatype 'e update_inode_error = UpdNullPtr | TblExmapFailure | WriteError 'e

datatype 'e alloc_inode_error = OutOfInodes | UpdateInode "'e update_inode_error"

definition update_inode_error_display :: "('e \<Rightarrow> string) \<Rightarrow> 'e update_inode_error \<Rightarrow> string" where
  "update_inode_error_display disp e =
     (case e of
        UpdNullPtr \<Rightarrow> ''passed a null pointer''
      | TblExmapFailure \<Rightarrow> ''unable to access nods in the table exmap''
      | WriteError e \<Rightarrow> ''write error: '' @ disp e)"

definition alloc_inode_error_display :: "('e \<Rightarrow> string) \<Rightarrow> 'e alloc_inode_error \<Rightarrow> string" where
  "alloc_inode_error_display disp e =
     (case e of
        OutOfInodes \<Rightarrow> ''ran out of space on the inode table!''
      | UpdateInode e \<Rightarrow> ''update error: '' @ update_inode_error_display disp e)"

text \<open>The copies of the table's inodes, stopping at the first one whose cell is held.\<close>

fun copy_nods :: "inode_table \<Rightarrow> inode list option" where
  "copy_nods [] = Some []"
| "copy_nods (exmap # rest) =
     (case fst (exmap_map (\<lambda>n. (inode_clone n, n)) exmap) of
        None \<Rightarrow> None
      | Some nod \<Rightarrow> (case copy_nods rest of None \<Rightarrow> None | Some nods \<Rightarrow> Some (nod # nods)))"

definition write_inode_block ::
  "inode_ptr \<Rightarrow> inode_table \<Rightarrow> ('s, 'e) drive_write \<Rightarrow> ('s, 'e update_inode_error, unit) fallible" where
  "write_inode_block ptr tbl wr s =
     (case get_table_idx ptr of
        None \<Rightarrow> throw UpdNullPtr s
      | Some idx \<Rightarrow>
          let p = (ucast idx :: u64);
              block = (p AND NOT 0b11) + INODE_START;
              p = unat p
          in if length tbl < p + 4 then Panic
             else (case copy_nods (take 4 (drop p tbl)) of
                     None \<Rightarrow> throw TblExmapFailure s
                   | Some buf \<Rightarrow>
                       try_then (map_err WriteError (wr block (slice_as_bytes inode_as_bytes buf)))
                         (\<lambda>_. ok ()) s))"

fun alloc_inode_from ::
  "nat list \<Rightarrow> inode \<Rightarrow> ('s, 'e) drive_write \<Rightarrow> (inode_table \<times> 's, 'e alloc_inode_error, inode_ptr) fallible"
  where
  "alloc_inode_from [] nod wr (tbl, s) = throw OutOfInodes (tbl, s)"
| "alloc_inode_from (idx # idxs) nod wr (tbl, s) =
     (let (res, cell) = exmap_map (\<lambda>n. let alloc = is_available n
                                       in (alloc, if alloc then inode_clone nod else n)) (tbl ! idx);
          tbl = tbl[idx := cell]
      in if res = Some True
         then let ptr = inode_ptr_new (of_nat idx + 1)
              in andThen (write_inode_block ptr tbl wr s)
                   (\<lambda>(r, s). case r of
                      Inl e \<Rightarrow> throw (UpdateInode e) (tbl, s)
                    | Inr _ \<Rightarrow> ok (inode_ptr_new (of_nat idx)) (tbl, s))
         else alloc_inode_from idxs nod wr (tbl, s))"

definition alloc_inode ::
  "inode \<Rightarrow> ('s, 'e) drive_write \<Rightarrow> (inode_table \<times> 's, 'e alloc_inode_error, inode_ptr) fallible" where
  "alloc_inode nod wr s = alloc_inode_from [0..<length (fst s)] nod wr s"

section \<open>The bitmap as a set of blocks\<close>

definition bmp_bit :: "block_bitmap \<Rightarrow> nat \<Rightarrow> bool" where
  "bmp_bit bmp n \<longleftrightarrow> bit (em_cell (bmp ! (n div 128))) (n mod 128)"

definition bmp_used :: "block_bitmap \<Rightarrow> block_ptr set" where
  "bmp_used bmp = {p. \<exists>w. block_ptr_get p = Some w \<and> bmp_bit bmp (unat w)}"

text \<open>The static's length, and no cell held by somebody else.\<close>

definition bmp_ok :: "block_bitmap \<Rightarrow> bool" where
  "bmp_ok bmp \<longleftrightarrow> length bmp = 32 \<and> (\<forall>c\<in>set bmp. \<not> em_access c)"

text \<open>The pointers the bitmap has a bit for.\<close>

definition bmp_domain :: "block_ptr set" where
  "bmp_domain = {p. \<exists>w. block_ptr_get p = Some w \<and> w < MAX_VAL}"

lemma block_bmp_static_ok [simp]: "bmp_ok block_bmp_static"
  by (simp add: bmp_ok_def block_bmp_static_def MAX_VAL_def U128_BITS_def exclusive_map_new_def)

lemma block_bmp_static_used:
  "p \<in> bmp_domain \<Longrightarrow> p \<notin> bmp_used block_bmp_static"
  by (auto simp: bmp_used_def bmp_domain_def bmp_bit_def block_bmp_static_def MAX_VAL_def U128_BITS_def
      exclusive_map_new_def word_less_nat_alt less_mult_imp_div_less)

lemma in_use_test: "i AND 2 ^ n = 0 \<longleftrightarrow> \<not> bit (i :: u128) n"
  by (rule and_exp_eq_0_iff_not_bit)

lemma set_used_bit: "n < 128 \<Longrightarrow> bit (i OR (2 :: u128) ^ n) m \<longleftrightarrow> bit i m \<or> m = n"
  by (auto simp: bit_simps)

text \<open>The new contents of the bitmap after \<open>ptr\<close> was marked.\<close>

definition bmp_mark :: "block_bitmap \<Rightarrow> nat \<Rightarrow> block_bitmap" where
  "bmp_mark bmp ptr = bmp[ptr div 128 := (bmp ! (ptr div 128))
     \<lparr>em_cell := em_cell (bmp ! (ptr div 128)) OR push_bit (ptr mod 128) 1\<rparr>]"

lemma alloc_bmp_cases:
  assumes "bmp_ok bmp" and "block_ptr_get p = Some w"
  shows "alloc_bmp p bmp =
    (if MAX_VAL \<le> w then Panic
     else if bmp_bit bmp (unat w) then Done (Err (AlreadyInUse p), bmp)
     else Done (Ok (), bmp_mark bmp (unat w)))"
proof -
  have "32 \<le> unat w div 128 \<longleftrightarrow> MAX_VAL \<le> w"
    by (simp add: MAX_VAL_def word_le_nat_alt) linarith
  moreover have "\<not> em_access (bmp ! (unat w div 128))" if "unat w div 128 < 32"
    using assms(1) that by (simp add: bmp_ok_def)
  ultimately show ?thesis
    using assms(1) unfolding alloc_bmp_def
    by (auto simp: assms(2) Let_def U128_BITS_def bmp_ok_def exmap_map_free in_use_test
        bmp_bit_def bmp_mark_def list_update_same_conv)
qed

lemma bmp_mark_ok:
  assumes "bmp_ok bmp" shows "bmp_ok (bmp_mark bmp n)"
proof (cases "n div 128 < length bmp")
  case True
  then have "\<not> em_access (bmp ! (n div 128))" using assms by (simp add: bmp_ok_def)
  then show ?thesis using assms by (auto simp: bmp_ok_def bmp_mark_def dest: set_update_subset_insert [THEN subsetD])
next
  case False
  then show ?thesis using assms by (simp add: bmp_mark_def list_update_beyond)
qed

lemma bmp_bit_mark:
  assumes "bmp_ok bmp" and "n < 4096"
  shows "bmp_bit (bmp_mark bmp n) m \<longleftrightarrow> bmp_bit bmp m \<or> m = n"
proof -
  have n: "n div 128 < length bmp" using assms by (simp add: bmp_ok_def less_mult_imp_div_less)
  show ?thesis
  proof (cases "m div 128 = n div 128")
    case True
    then have "m = n \<longleftrightarrow> m mod 128 = n mod 128" by (metis div_mult_mod_eq)
    with True n show ?thesis by (simp add: bmp_bit_def bmp_mark_def set_used_bit)
  next
    case False
    then show ?thesis by (auto simp: bmp_bit_def bmp_mark_def)
  qed
qed

lemma bmp_used_mark:
  assumes "bmp_ok bmp" and "block_ptr_get p = Some w" and "w < MAX_VAL"
  shows "bmp_used (bmp_mark bmp (unat w)) = insert p (bmp_used bmp)"
proof -
  have "unat w < 4096" using assms(3) by (simp add: MAX_VAL_def word_less_nat_alt)
  then have "q \<in> bmp_used (bmp_mark bmp (unat w)) \<longleftrightarrow> q = p \<or> q \<in> bmp_used bmp" for q
    using assms(1,2) by (cases p; cases q) (auto simp: bmp_used_def bmp_bit_mark unsigned_word_eqI)
  then show ?thesis by blast
qed

section \<open>What a block allocator promises\<close>

text \<open>
  Allocating a block that is free takes exactly that block; one that is taken is refused and
  nothing changes. \<open>alloc_each\<close> is the loop that marks the blocks of an inode one after the
  other, counting them and stopping at the first failure.
\<close>

fun alloc_each :: "('p \<Rightarrow> 'b \<Rightarrow> (('e + unit) \<times> 'b) run) \<Rightarrow> 'p list \<Rightarrow> u32 \<Rightarrow> ('b, 'e, u32) fallible" where
  "alloc_each alloc [] used_blocks b = ok used_blocks b"
| "alloc_each alloc (p # ps) used_blocks b =
     try_then (alloc p) (\<lambda>_. alloc_each alloc ps (used_blocks + 1)) b"

locale block_allocator =
  fixes alloc :: "'p \<Rightarrow> 'b \<Rightarrow> (('e + unit) \<times> 'b) run"
    and used :: "'b \<Rightarrow> 'p set"
    and invar :: "'b \<Rightarrow> bool"
    and blocks :: "'p set"
  assumes alloc_free: "invar b \<Longrightarrow> p \<in> blocks \<Longrightarrow> p \<notin> used b \<Longrightarrow>
      \<exists>b'. alloc p b = Done (Inr (), b') \<and> invar b' \<and> used b' = insert p (used b)"
    and alloc_taken: "invar b \<Longrightarrow> p \<in> blocks \<Longrightarrow> p \<in> used b \<Longrightarrow> \<exists>e. alloc p b = Done (Inl e, b)"
begin

lemma no_double_alloc:
  assumes "invar b" and "p \<in> blocks" and "alloc p b = Done (Inr (), b')"
  shows "\<exists>e. alloc p b' = Done (Inl e, b')"
proof -
  have free: "p \<notin> used b" using alloc_taken [OF assms(1,2)] assms(3) by auto
  from alloc_free [OF assms(1,2) free] assms(3) have "invar b'" "p \<in> used b'" by auto
  then show ?thesis using alloc_taken assms(2) by blast
qed

lemma alloc_each_free:
  assumes "invar b" and "set ps \<subseteq> blocks" and "distinct ps" and "set ps \<inter> used b = {}"
  shows "\<exists>b'. alloc_each alloc ps n b = Done (Inr (n + of_nat (length ps)), b') \<and> invar b'
    \<and> used b' = used b \<union> set ps"
  using assms
proof (induction ps arbitrary: n b)
  case (Cons p ps)
  then obtain b1 where b1: "alloc p b = Done (Inr (), b1)" "invar b1" "used b1 = insert p (used b)"
    using alloc_free [of b p] by auto
  with Cons.prems Cons.IH [of b1 "n + 1"] obtain b' where
    "alloc_each alloc ps (n + 1) b1 = Done (Inr (n + 1 + of_nat (length ps)), b')" "invar b'"
    "used b' = used b1 \<union> set ps"
    by auto
  with b1 show ?case by (auto simp: try_then_def algebra_simps)
qed (simp add: ok_def)

lemma alloc_each_conflict:
  assumes "invar b" and "set ps \<subseteq> blocks" and "\<not> (distinct ps \<and> set ps \<inter> used b = {})"
  shows "\<exists>e b'. alloc_each alloc ps n b = Done (Inl e, b') \<and> invar b' \<and> used b' \<subseteq> used b \<union> set ps"
  using assms
proof (induction ps arbitrary: n b)
  case (Cons p ps)
  show ?case
  proof (cases "p \<in> used b")
    case True
    then obtain e where "alloc p b = Done (Inl e, b)" using alloc_taken [of b p] Cons.prems by auto
    then show ?thesis using Cons.prems(1) by (auto simp: try_then_def)
  next
    case False
    then obtain b1 where b1: "alloc p b = Done (Inr (), b1)" "invar b1" "used b1 = insert p (used b)"
      using alloc_free [of b p] Cons.prems by auto
    have "\<not> (distinct ps \<and> set ps \<inter> used b1 = {})"
      using Cons.prems(3) False b1(3) by auto
    then obtain e b' where "alloc_each alloc ps (n + 1) b1 = Done (Inl e, b')" "invar b'"
      "used b' \<subseteq> used b1 \<union> set ps"
      using Cons.IH [of b1 "n + 1"] b1(2) Cons.prems(2) by auto
    with b1 show ?thesis by (auto simp: try_then_def)
  qed
qed simp

end

interpretation bmp: block_allocator alloc_bmp bmp_used bmp_ok bmp_domain
proof unfold_locales
  fix b p
  assume ok: "bmp_ok b" and "p \<in> bmp_domain"
  then obtain w where w: "block_ptr_get p = Some w" "w < MAX_VAL" by (auto simp: bmp_domain_def)
  then have "p \<in> bmp_used b \<longleftrightarrow> bmp_bit b (unat w)" by (simp add: bmp_used_def)
  then show "p \<notin> bmp_used b \<Longrightarrow>
      \<exists>b'. alloc_bmp p b = Done (Inr (), b') \<and> bmp_ok b' \<and> bmp_used b' = insert p (bmp_used b)"
    and "p \<in> bmp_used b \<Longrightarrow> \<exists>e. alloc_bmp p b = Done (Inl e, b)"
    using alloc_bmp_cases [OF ok w(1)] w bmp_mark_ok [OF ok] bmp_used_mark [OF ok w(1)]
    by (auto simp: not_le [symmetric])
qed

text \<open>
  C8: on the block bitmap \<^verbatim>\<open>alloc_bmp\<close> refuses a null pointer, takes a free block and only that
  block, refuses a taken block with \<^verbatim>\<open>AlreadyInUse\<close> and changes nothing, so no block is ever
  handed out twice.
\<close>

theorem alloc_bmp_correct:
  assumes "bmp_ok bmp" and "p \<in> bmp_domain"
  shows "alloc_bmp block_ptr_null bmp = Done (Err NullPtr, bmp)
    \<and> (if p \<in> bmp_used bmp then alloc_bmp p bmp = Done (Err (AlreadyInUse p), bmp)
       else \<exists>bmp'. alloc_bmp p bmp = Done (Ok (), bmp') \<and> bmp_ok bmp'
              \<and> bmp_used bmp' = insert p (bmp_used bmp)
              \<and> alloc_bmp p bmp' = Done (Err (AlreadyInUse p), bmp'))"
proof -
  obtain w where w: "block_ptr_get p = Some w" "w < MAX_VAL"
    using assms(2) by (auto simp: bmp_domain_def)
  have refused: "alloc_bmp p b = Done (Err (AlreadyInUse p), b)" if "bmp_ok b" "p \<in> bmp_used b" for b
    using alloc_bmp_cases [OF that(1) w(1)] that(2) w by (simp add: bmp_used_def not_le [symmetric])
  have null: "alloc_bmp block_ptr_null bmp = Done (Err NullPtr, bmp)"
    by (simp add: alloc_bmp_def block_ptr_null_def)
  show ?thesis
  proof (cases "p \<in> bmp_used bmp")
    case True
    then show ?thesis using refused assms(1) null by simp
  next
    case False
    then obtain b' where b': "alloc_bmp p bmp = Done (Inr (), b')" "bmp_ok b'"
      "bmp_used b' = insert p (bmp_used bmp)"
      using bmp.alloc_free [OF assms] by blast
    moreover have "alloc_bmp p b' = Done (Err (AlreadyInUse p), b')"
      using refused [OF b'(2)] b'(3) by simp
    ultimately show ?thesis using False null by auto
  qed
qed

theorem alloc_bmp_correct_witness:
  "\<exists>bmp'. alloc_bmp (block_ptr_new 7) block_bmp_static = Done (Ok (), bmp')
     \<and> alloc_bmp (block_ptr_new 7) bmp' = Done (Err (AlreadyInUse (block_ptr_new 7)), bmp')"
proof -
  have d: "block_ptr_new 7 \<in> bmp_domain"
    by (simp add: bmp_domain_def block_ptr_new_def nonzero_new_def MAX_VAL_def)
  show ?thesis
    using alloc_bmp_correct [OF block_bmp_static_ok d] block_bmp_static_used [OF d] by auto
qed

text \<open>
  the pointer \<^verbatim>\<open>MAX_VAL\<close>, which \<^verbatim>\<open>BlockPtr::new\<close> makes from every larger value and calls
  valid, has no bit in the bitmap: allocating it indexes past the end and panics. Packing it
  into an inode turns it into a null pointer.
\<close>

theorem max_val_pointer_is_unusable:
  assumes "bmp_ok bmp" and "MAX_VAL \<le> w"
  shows "block_ptr_is_valid (block_ptr_new w) \<and> alloc_bmp (block_ptr_new w) bmp = Panic
    \<and> dual_decode (dual_encode (block_ptr_new w) block_ptr_null) = [block_ptr_null, block_ptr_null]"
proof -
  have g: "block_ptr_get (block_ptr_new w) = Some MAX_VAL"
    using assms(2) by (simp add: block_ptr_new_def nonzero_new_def MAX_VAL_def not_le [symmetric])
  have n: "block_ptr_get_nullable block_ptr_null = 0"
    by (simp add: block_ptr_get_nullable_def block_ptr_null_def)
  have "dual_encode (block_ptr_new w) block_ptr_null = DualBlockPtr 0 0 0"
    using g by (simp add: dual_encode_def Let_def n block_ptr_get_nullable_def [of "block_ptr_new w"] MAX_VAL_def)
  then show ?thesis
    using alloc_bmp_cases [OF assms(1) g] g
    by (simp add: block_ptr_is_valid_def block_ptr_is_null_def block_ptr_new_def nonzero_new_def
        block_ptr_null_def MAX_VAL_def)
qed

theorem max_val_pointer_is_unusable_witness:
  "alloc_bmp (block_ptr_new 5000) block_bmp_static = Panic"
  using max_val_pointer_is_unusable [OF block_bmp_static_ok, of 5000] by (simp add: MAX_VAL_def)

section \<open>The next free block\<close>

lemma block_ptr_new_of_nat:
  assumes "1 \<le> n" and "n < 4096"
  shows "block_ptr_get (block_ptr_new (of_nat n)) = Some (of_nat n)"
    and "unat (of_nat n :: u16) = n"
proof -
  show u: "unat (of_nat n :: u16) = n" using assms by (simp add: unat_of_nat)
  then have "(of_nat n :: u16) < MAX_VAL" "(of_nat n :: u16) \<noteq> 0"
    using assms by (auto simp: MAX_VAL_def word_less_nat_alt)
  then show "block_ptr_get (block_ptr_new (of_nat n)) = Some (of_nat n)"
    by (simp add: block_ptr_new_def nonzero_new_def)
qed

lemma alloc_bmp_of_nat:
  assumes "bmp_ok bmp" and "1 \<le> n" and "n < 4096"
  shows "alloc_bmp (block_ptr_new (of_nat n)) bmp =
    (if bmp_bit bmp n then Done (Err (AlreadyInUse (block_ptr_new (of_nat n))), bmp)
     else Done (Ok (), bmp_mark bmp n))"
proof -
  note g = block_ptr_new_of_nat [OF assms(2,3)]
  then have "\<not> MAX_VAL \<le> (of_nat n :: u16)" using assms(3) by (simp add: MAX_VAL_def word_le_nat_alt)
  then show ?thesis using alloc_bmp_cases [OF assms(1) g(1)] g(2) by simp
qed

lemma alloc_next_from_find:
  assumes "bmp_ok bmp" and "set ps \<subseteq> {1..<4096}"
  shows "alloc_next_from ps bmp =
    (case find (\<lambda>n. \<not> bmp_bit bmp n) ps of
       None \<Rightarrow> Done (block_ptr_null, bmp)
     | Some n \<Rightarrow> Done (block_ptr_new (of_nat n), bmp_mark bmp n))"
  using assms by (induction ps) (auto simp: alloc_bmp_of_nat Let_def)

lemma find_upt_Some:
  "find P [m..<k] = Some n \<longleftrightarrow> m \<le> n \<and> n < k \<and> P n \<and> (\<forall>i. m \<le> i \<longrightarrow> i < n \<longrightarrow> \<not> P i)"
proof
  assume "find P [m..<k] = Some n"
  then obtain i where i: "i < k - m" "P (m + i)" "n = m + i" "\<forall>j<i. \<not> P ([m..<k] ! j)"
    by (auto simp: find_Some_iff)
  have "\<not> P j" if "m \<le> j" "j < n" for j
  proof -
    have "j - m < i" "m + (j - m) = j" using i that by auto
    moreover have "[m..<k] ! (j - m) = j" using i that by simp
    ultimately show ?thesis using i(4) by metis
  qed
  with i show "m \<le> n \<and> n < k \<and> P n \<and> (\<forall>i. m \<le> i \<longrightarrow> i < n \<longrightarrow> \<not> P i)" by auto
next
  assume "m \<le> n \<and> n < k \<and> P n \<and> (\<forall>i. m \<le> i \<longrightarrow> i < n \<longrightarrow> \<not> P i)"
  then show "find P [m..<k] = Some n"
    by (auto simp: find_Some_iff intro!: exI [of _ "n - m"])
qed

text \<open>
  C24: \<^verbatim>\<open>alloc_next_bmp\<close> never panics; it takes the lowest free block from 1 up and marks exactly
  that one, or returns a null pointer and changes nothing when all 4095 blocks are taken.
\<close>

theorem alloc_next_bmp_lowest:
  assumes "bmp_ok bmp"
  shows "(alloc_next_bmp bmp = Done (block_ptr_null, bmp) \<and> (\<forall>n. 1 \<le> n \<and> n < 4096 \<longrightarrow> bmp_bit bmp n))
    \<or> (\<exists>n bmp'. 1 \<le> n \<and> n < 4096 \<and> \<not> bmp_bit bmp n \<and> (\<forall>m. 1 \<le> m \<and> m < n \<longrightarrow> bmp_bit bmp m)
         \<and> alloc_next_bmp bmp = Done (block_ptr_new (of_nat n), bmp') \<and> bmp_ok bmp'
         \<and> bmp_used bmp' = insert (block_ptr_new (of_nat n)) (bmp_used bmp))"
proof (cases "find (\<lambda>n. \<not> bmp_bit bmp n) [1..<4096]")
  case None
  then have "alloc_next_bmp bmp = Done (block_ptr_null, bmp)"
    using alloc_next_from_find [OF assms, of "[1..<4096]"] by (simp add: alloc_next_bmp_def MAX_VAL_def)
  then show ?thesis using None by (simp add: find_None_iff)
next
  case (Some n)
  then have n: "1 \<le> n" "n < 4096" "\<not> bmp_bit bmp n" "\<forall>m. 1 \<le> m \<and> m < n \<longrightarrow> bmp_bit bmp m"
    by (auto simp: find_upt_Some)
  have "alloc_next_bmp bmp = Done (block_ptr_new (of_nat n), bmp_mark bmp n)"
    using alloc_next_from_find [OF assms, of "[1..<4096]"] Some
    by (simp add: alloc_next_bmp_def MAX_VAL_def)
  moreover have "bmp_used (bmp_mark bmp n) = insert (block_ptr_new (of_nat n)) (bmp_used bmp)"
    using bmp_used_mark [OF assms block_ptr_new_of_nat(1) [OF n(1,2)]] block_ptr_new_of_nat(2) [OF n(1,2)] n(2)
    by (simp add: MAX_VAL_def word_less_nat_alt)
  ultimately show ?thesis using n bmp_mark_ok [OF assms] by blast
qed

theorem alloc_next_bmp_lowest_witness:
  "\<exists>bmp'. alloc_next_bmp block_bmp_static = Done (block_ptr_new 1, bmp')"
proof -
  have free: "\<not> bmp_bit block_bmp_static n" if "n < 4096" for n
    using that
    by (simp add: bmp_bit_def block_bmp_static_def MAX_VAL_def U128_BITS_def exclusive_map_new_def
        less_mult_imp_div_less)
  have "\<not> (\<forall>n. 1 \<le> n \<and> n < 4096 \<longrightarrow> bmp_bit block_bmp_static n)"
    using free [of 1] by auto
  moreover have "n = 1" if "1 \<le> n" "n < 4096" "\<forall>m. 1 \<le> m \<and> m < n \<longrightarrow> bmp_bit block_bmp_static m" for n
    using free [of 1] that by (cases "n = 1") auto
  ultimately show ?thesis
    using alloc_next_bmp_lowest [OF block_bmp_static_ok] by fastforce
qed

section \<open>Inode allocation\<close>

definition tbl_ok :: "inode_table \<Rightarrow> bool" where
  "tbl_ok tbl \<longleftrightarrow> length tbl = INODES \<and> (\<forall>c\<in>set tbl. \<not> em_access c \<and> inode_wf (em_cell c))"

lemma inode_tbl_static_ok [simp]: "tbl_ok inode_tbl_static"
  by (simp add: tbl_ok_def inode_tbl_static_def exclusive_map_new_def)

lemma copy_nods_ok:
  "\<forall>c\<in>set tbl. \<not> em_access c \<Longrightarrow> copy_nods tbl = Some (map (\<lambda>c. inode_clone (em_cell c)) tbl)"
  by (induction tbl) (auto simp: exmap_map_free)

lemma round_down_4: "(w :: u64) AND - 4 = of_nat (4 * (unat w div 4))"
proof -
  have "w AND NOT (mask 2) = push_bit 2 (drop_bit 2 w)"
  proof (rule bit_word_eqI)
    fix n
    show "bit (w AND NOT (mask 2)) n = bit (push_bit 2 (drop_bit 2 w)) n" if "n < LENGTH(64)"
    proof (cases "2 \<le> n")
      case True
      then have "Suc (Suc (n - 2)) = n" by simp
      with that True show ?thesis by (auto simp: bit_simps)
    qed (simp add: bit_simps)
  qed
  then have "w AND - 4 = w div 4 * 4"
    by (simp add: mask_eq_exp_minus_1 push_bit_eq_mult drop_bit_eq_div)
  also have "\<dots> = of_nat (4 * (unat w div 4))"
    by (simp add: of_nat_div of_nat_mult word_arith_nat_div mult.commute)
  finally show ?thesis by simp
qed

lemma unit_continuation: "(\<lambda>_. ok ()) = (ok :: unit \<Rightarrow> ('s, 'e, unit) fallible)"
  by (simp add: fun_eq_iff)

text \<open>What writing back the inode of slot \<open>i\<close> comes to.\<close>

lemma write_inode_block_slot:
  assumes "tbl_ok tbl" and "i < INODES"
  shows "write_inode_block (inode_ptr_new (of_nat i + 1)) tbl wr s =
    (if i + 4 \<le> INODES
     then map_err WriteError (wr (of_nat (4 * (i div 4)) + 1)
            (slice_as_bytes inode_as_bytes (map (\<lambda>c. inode_clone (em_cell c)) (take 4 (drop i tbl))))) s
     else Panic)"
proof -
  have i: "i < 140" using assms(2) by (simp add: INODES_def)
  have "(of_nat i + 1 :: u16) = of_nat (i + 1)" by simp
  also have "\<dots> \<noteq> 0" using i by (simp only: word_unat_eq_iff unat_of_nat) simp
  finally have nz: "(of_nat i + 1 :: u16) \<noteq> 0" .
  have u: "unat (ucast (of_nat i :: u16) :: u64) = i"
    using i by (simp add: unat_of_nat unsigned_ucast_eq take_bit_nat_eq_self_iff)
  have c: "\<forall>c\<in>set (take 4 (drop i tbl)). \<not> em_access c"
    using assms(1) by (auto simp: tbl_ok_def dest: in_set_takeD in_set_dropD)
  show ?thesis
    using assms(1) i nz u copy_nods_ok [OF c]
    by (simp add: write_inode_block_def get_table_idx_new tbl_ok_def INODES_def INODE_START_def
        Let_def round_down_4 unit_continuation run_simps)
qed

lemma alloc_inode_from_find:
  assumes "\<forall>c\<in>set tbl. \<not> em_access c" and "set is \<subseteq> {..<length tbl}"
  shows "alloc_inode_from is nod wr (tbl, s) =
    (case find (\<lambda>i. is_available (em_cell (tbl ! i))) is of
       None \<Rightarrow> throw OutOfInodes (tbl, s)
     | Some i \<Rightarrow>
         let tbl' = tbl[i := exclusive_map_new (inode_clone nod)]
         in andThen (write_inode_block (inode_ptr_new (of_nat i + 1)) tbl' wr s)
              (\<lambda>(r, s). case r of Inl e \<Rightarrow> throw (UpdateInode e) (tbl', s)
                                | Inr _ \<Rightarrow> ok (inode_ptr_new (of_nat i)) (tbl', s)))"
  using assms(2)
proof (induction "is")
  case (Cons i "is")
  then have i: "i < length tbl" by simp
  then have na: "\<not> em_access (tbl ! i)" using assms(1) by simp
  have step: "exmap_map (\<lambda>n. let alloc = is_available n in (alloc, if alloc then inode_clone nod else n)) (tbl ! i)
      = (if is_available (em_cell (tbl ! i)) then (Some True, exclusive_map_new (inode_clone nod))
         else (Some False, tbl ! i))"
    using na by (cases "tbl ! i") (simp add: exmap_map_free exclusive_map_new_def Let_def)
  show ?case
    using Cons by (simp add: step)
qed simp

lemma alloc_inode_slot:
  assumes "tbl_ok tbl" and "i < INODES" and "is_available (em_cell (tbl ! i))"
    and "\<forall>j < i. \<not> is_available (em_cell (tbl ! j))" and "inode_wf nod"
  shows "alloc_inode nod wr (tbl, s) =
     (let tbl' = tbl[i := exclusive_map_new (inode_clone nod)]
      in if i + 4 \<le> INODES
         then andThen (wr (of_nat (4 * (i div 4)) + 1)
                (slice_as_bytes inode_as_bytes (map (\<lambda>c. inode_clone (em_cell c)) (take 4 (drop i tbl')))) s)
               (\<lambda>(r, s). case r of Inl e \<Rightarrow> throw (UpdateInode (WriteError e)) (tbl', s)
                                 | Inr _ \<Rightarrow> ok (inode_ptr_new (of_nat i)) (tbl', s))
         else Panic)"
proof -
  have len: "length tbl = INODES" and acc: "\<forall>c\<in>set tbl. \<not> em_access c"
    using assms(1) by (auto simp: tbl_ok_def)
  have f: "find (\<lambda>i. is_available (em_cell (tbl ! i))) [0..<length tbl] = Some i"
    using assms(2-4) len by (simp add: find_upt_Some)
  let ?t = "tbl[i := exclusive_map_new (inode_clone nod)]"
  have "tbl_ok ?t"
    using assms(1,5) by (auto simp: tbl_ok_def exclusive_map_new_def dest!: set_update_subset_insert [THEN subsetD])
  note wb = write_inode_block_slot [OF this assms(2), of wr s]
  have a: "alloc_inode nod wr (tbl, s) = andThen (write_inode_block (inode_ptr_new (of_nat i + 1)) ?t wr s)
      (\<lambda>(r, s). case r of Inl e \<Rightarrow> throw (UpdateInode e) (?t, s)
                        | Inr _ \<Rightarrow> ok (inode_ptr_new (of_nat i)) (?t, s))"
    using alloc_inode_from_find [OF acc, of "[0..<length tbl]" nod wr s] f
    by (simp add: alloc_inode_def atLeast0LessThan Let_def)
  let ?w = "wr (of_nat (4 * (i div 4)) + 1)
    (slice_as_bytes inode_as_bytes (map (\<lambda>c. inode_clone (em_cell c)) (take 4 (drop i ?t)))) s"
  show ?thesis
  proof (cases "i + 4 \<le> INODES")
    case True
    then show ?thesis
      using a wb by (cases ?w) (auto simp: map_err_def Let_def split: sum.splits)
  next
    case False
    then show ?thesis using a wb by (simp add: Let_def)
  qed
qed

text \<open>
  allocation, when the first available slot is one of the first 137, stores a clone of the inode in that slot and in no
  other and issues one write to the drive, of the four slots from that one on, to a block address computed from the slot rounded down
  to a multiple of four; the write's failure is the allocation's.
\<close>

theorem alloc_inode_first_available:
  assumes "tbl_ok tbl" and "i < 137" and "is_available (em_cell (tbl ! i))"
    and "\<forall>j < i. \<not> is_available (em_cell (tbl ! j))" and "inode_wf nod"
    and "alloc_inode nod wr (tbl, s) = Done (r, (tbl', s'))"
  shows "tbl' = tbl[i := exclusive_map_new (inode_clone nod)] \<and> tbl_ok tbl'
    \<and> (\<exists>q. wr (of_nat (4 * (i div 4)) + 1)
              (slice_as_bytes inode_as_bytes (map (\<lambda>c. inode_clone (em_cell c)) (take 4 (drop i tbl')))) s
            = Done (q, s')
          \<and> r = (case q of Inl e \<Rightarrow> Err (UpdateInode (WriteError e)) | Inr _ \<Rightarrow> Ok (inode_ptr_new (of_nat i))))"
proof -
  let ?t = "tbl[i := exclusive_map_new (inode_clone nod)]"
  let ?w = "wr (of_nat (4 * (i div 4)) + 1)
    (slice_as_bytes inode_as_bytes (map (\<lambda>c. inode_clone (em_cell c)) (take 4 (drop i ?t)))) s"
  have i: "i < INODES" "i + 4 \<le> INODES" using assms(2) by (simp_all add: INODES_def)
  have "andThen ?w (\<lambda>(r, s). case r of Inl e \<Rightarrow> throw (UpdateInode (WriteError e)) (?t, s)
      | Inr _ \<Rightarrow> ok (inode_ptr_new (of_nat i)) (?t, s)) = Done (r, tbl', s')"
    using alloc_inode_slot [OF assms(1) i(1) assms(3-5), of wr s] i(2) assms(6) by (simp add: Let_def)
  then have eq: "tbl' = ?t \<and> (\<exists>q. ?w = Done (q, s')
      \<and> r = (case q of Inl e \<Rightarrow> Err (UpdateInode (WriteError e)) | Inr _ \<Rightarrow> Ok (inode_ptr_new (of_nat i))))"
    by (cases ?w) (auto simp: throw_def ok_def split: sum.splits)
  moreover have "tbl_ok ?t"
    using assms(1,5)
    by (auto simp: tbl_ok_def exclusive_map_new_def dest!: set_update_subset_insert [THEN subsetD])
  ultimately show ?thesis by auto
qed

text \<open>A drive that records its writes, for concrete runs.\<close>

definition recording_write :: "((u64 \<times> bytes) list, unit) drive_write" where
  "recording_write block buf log = ok () (log @ [(block, buf)])"

lemma static_slot: "i < INODES \<Longrightarrow> em_cell (inode_tbl_static ! i) = inode_zeroed"
  by (simp add: inode_tbl_static_def exclusive_map_new_def)

lemma alloc_inode_static:
  assumes "inode_wf nod"
  shows "alloc_inode nod recording_write (inode_tbl_static, []) =
     (let tbl' = inode_tbl_static[0 := exclusive_map_new (inode_clone nod)]
      in ok (inode_ptr_new 0)
           (tbl', [(1, slice_as_bytes inode_as_bytes [inode_clone nod, inode_zeroed, inode_zeroed, inode_zeroed])]))"
proof -
  have t: "take 4 (inode_tbl_static[0 := exclusive_map_new (inode_clone nod)])
      = [exclusive_map_new (inode_clone nod), exclusive_map_new inode_zeroed,
         exclusive_map_new inode_zeroed, exclusive_map_new inode_zeroed]"
    by (simp add: inode_tbl_static_def INODES_def numeral_eq_Suc)
  have "alloc_inode nod recording_write (inode_tbl_static, []) =
     (let tbl' = inode_tbl_static[0 := exclusive_map_new (inode_clone nod)]
      in andThen (recording_write 1
            (slice_as_bytes inode_as_bytes (map (\<lambda>c. inode_clone (em_cell c)) (take 4 tbl'))) [])
           (\<lambda>(r, s). case r of Inl e \<Rightarrow> throw (UpdateInode (WriteError e)) (tbl', s)
                             | Inr _ \<Rightarrow> ok (inode_ptr_new 0) (tbl', s)))"
    using alloc_inode_slot [of inode_tbl_static 0 nod recording_write "[]"] assms
    by (simp add: static_slot INODES_def cong: sum.case_cong)
  then show ?thesis
    by (simp add: Let_def t [unfolded exclusive_map_new_def] recording_write_def ok_def exclusive_map_new_def)
qed

theorem alloc_inode_first_available_witness:
  "\<exists>tbl' log. alloc_inode (inode_new DIRECTORY 0 inode_ptr_null) recording_write (inode_tbl_static, [])
       = Done (Ok (inode_ptr_new 0), (tbl', log) :: inode_table \<times> (u64 \<times> bytes) list)
     \<and> tbl_ok tbl' \<and> tbl' = inode_tbl_static[0 := exclusive_map_new (inode_new DIRECTORY 0 inode_ptr_null)]"
proof -
  let ?n = "inode_new DIRECTORY 0 inode_ptr_null"
  have wf: "inode_wf ?n" by (simp add: inode_ptr_null_def)
  have c: "inode_clone ?n = ?n" by (simp add: inode_clone_def inode_new_def)
  have free: "is_available (em_cell (inode_tbl_static ! 0))" by (simp add: static_slot INODES_def)
  obtain tbl' log where run: "alloc_inode ?n recording_write (inode_tbl_static, [])
      = Done (Ok (inode_ptr_new 0), (tbl', log))"
    using alloc_inode_static [OF wf] by (simp add: Let_def ok_def)
  have "tbl' = inode_tbl_static[0 := exclusive_map_new (inode_clone ?n)]"
    by (rule alloc_inode_first_available [OF inode_tbl_static_ok _ free _ wf run, THEN conjunct1]) simp_all
  moreover have "tbl_ok tbl'"
    by (rule alloc_inode_first_available [OF inode_tbl_static_ok _ free _ wf run, THEN conjunct2, THEN conjunct1])
      simp_all
  ultimately show ?thesis using run c by auto
qed

text \<open>
  the pointer \<^verbatim>\<open>alloc_inode\<close> returns does not name the slot it filled: it is built from the slot
  index without the offset of one, so it is null for slot 0 and names the slot before for any
  other.
\<close>

theorem alloc_inode_returns_wrong_pointer:
  assumes "tbl_ok tbl" and "i < 137" and "is_available (em_cell (tbl ! i))"
    and "\<forall>j < i. \<not> is_available (em_cell (tbl ! j))" and "inode_wf nod"
    and "alloc_inode nod wr (tbl, s) = Done (Ok p, (tbl', s'))"
  shows "get_table_idx p = (if i = 0 then None else Some (of_nat i - 1))
    \<and> get_table_idx p \<noteq> Some (of_nat i)"
proof -
  let ?t = "tbl[i := exclusive_map_new (inode_clone nod)]"
  let ?w = "wr (of_nat (4 * (i div 4)) + 1)
    (slice_as_bytes inode_as_bytes (map (\<lambda>c. inode_clone (em_cell c)) (take 4 (drop i ?t)))) s"
  have i: "i < INODES" "i + 4 \<le> INODES" using assms(2) by (simp_all add: INODES_def)
  have "andThen ?w (\<lambda>(r, s). case r of Inl e \<Rightarrow> throw (UpdateInode (WriteError e)) (?t, s)
      | Inr _ \<Rightarrow> ok (inode_ptr_new (of_nat i)) (?t, s)) = Done (Ok p, tbl', s')"
    using alloc_inode_slot [OF assms(1) i(1) assms(3-5), of wr s] i(2) assms(6) by (simp add: Let_def)
  then have "p = inode_ptr_new (of_nat i)"
    by (cases ?w) (auto simp: throw_def ok_def split: sum.splits)
  moreover have "(of_nat i :: u16) = 0 \<longleftrightarrow> i = 0"
    using assms(2) by (simp add: word_unat_eq_iff unat_of_nat)
  ultimately show ?thesis by (simp add: get_table_idx_new)
qed

theorem alloc_inode_returns_wrong_pointer_witness:
  "\<exists>tbl' log. alloc_inode (inode_new DIRECTORY 0 inode_ptr_null) recording_write (inode_tbl_static, [])
       = Done (Ok inode_ptr_null, (tbl', log) :: inode_table \<times> (u64 \<times> bytes) list)"
proof -
  let ?n = "inode_new DIRECTORY 0 inode_ptr_null"
  have wf: "inode_wf ?n" by (simp add: inode_ptr_null_def)
  have free: "is_available (em_cell (inode_tbl_static ! 0))" by (simp add: static_slot INODES_def)
  obtain tbl' log p where run: "alloc_inode ?n recording_write (inode_tbl_static, [])
      = Done (Ok p, (tbl', log))"
    using alloc_inode_static [OF wf] by (simp add: Let_def ok_def)
  have "get_table_idx p = None"
    using alloc_inode_returns_wrong_pointer [OF inode_tbl_static_ok _ free _ wf run] by simp
  then have "p = inode_ptr_null" by (cases p rule: get_table_idx.cases) (simp_all add: inode_ptr_null_def)
  then show ?thesis using run by blast
qed

text \<open>
  when the first available slot is one of the last three, the slice \<^verbatim>\<open>tbl[ptr..ptr + 4]\<close> taken
  from the unrounded index runs past the end of the table, and the allocation panics after
  the slot was filled; so at most 137 of the 140 slots can be allocated.
\<close>

theorem alloc_inode_panics_on_last_slots:
  assumes "tbl_ok tbl" and "137 \<le> i" and "i < INODES" and "is_available (em_cell (tbl ! i))"
    and "\<forall>j < i. \<not> is_available (em_cell (tbl ! j))" and "inode_wf nod"
  shows "alloc_inode nod wr (tbl, s) = Panic"
  using alloc_inode_slot [OF assms(1,3-6), of wr s] assms(2) by (simp add: INODES_def Let_def)

definition nearly_full_tbl :: inode_table where
  "nearly_full_tbl = replicate 137 (exclusive_map_new (inode_new DIRECTORY 0 inode_ptr_null))
     @ replicate 3 (exclusive_map_new inode_zeroed)"

theorem alloc_inode_panics_on_last_slots_witness:
  "alloc_inode inode_zeroed recording_write (nearly_full_tbl, []) = Panic"
proof (rule alloc_inode_panics_on_last_slots [where i = 137])
  show "tbl_ok nearly_full_tbl"
    by (auto simp: tbl_ok_def nearly_full_tbl_def INODES_def exclusive_map_new_def inode_ptr_null_def)
  show "\<forall>j < 137. \<not> is_available (em_cell (nearly_full_tbl ! j))"
    by (simp add: nearly_full_tbl_def nth_append exclusive_map_new_def is_available_def inode_new_def)
  show "is_available (em_cell (nearly_full_tbl ! 137))"
    by (simp add: nearly_full_tbl_def nth_append exclusive_map_new_def)
qed (simp_all add: INODES_def)

end
