(* ===== verification/Fs_Lookup.thy ===== *)
theory Fs_Lookup
  imports Fs_Table
begin

text \<open>
  libfs/src/lib.rs, continued: directory entries with their 48 byte layout, and the text of an inode. How the
  flags of a mode are printed is code of the bitflags crate, the parameter \<open>fmt_mode\<close>.
\<close>

section \<open>Directory entries\<close>

record inode_lookup =
  lookup_name :: bytes
  lookup_inode :: inode_ptr

definition LOOKUP_NAME_LEN :: nat where "LOOKUP_NAME_LEN = 46"

definition SIZE_OF_LOOKUP :: nat where "SIZE_OF_LOOKUP = 48"

definition lookup_wf :: "inode_lookup \<Rightarrow> bool" where
  "lookup_wf l \<longleftrightarrow> length (lookup_name l) = LOOKUP_NAME_LEN \<and> inode_ptr_get (lookup_inode l) \<noteq> Some 0"

text \<open>The packed struct in memory, and the struct such bytes stand for.\<close>

definition lookup_as_bytes :: "inode_lookup \<Rightarrow> bytes" where
  "lookup_as_bytes l = lookup_name l @ to_le 2 (niche (inode_ptr_get (lookup_inode l)))"

definition lookup_from_raw :: "bytes \<Rightarrow> inode_lookup" where
  "lookup_from_raw bs =
     \<lparr>lookup_name = take LOOKUP_NAME_LEN bs, lookup_inode = InodePtr (nonzero_new (of_le (drop LOOKUP_NAME_LEN bs)))\<rparr>"

interpretation lookup_bytes: byte_codec lookup_as_bytes lookup_from_raw SIZE_OF_LOOKUP lookup_wf
proof unfold_locales
  fix l
  assume wf: "lookup_wf l"
  then have n: "length (lookup_name l) = 46" and p: "inode_ptr_get (lookup_inode l) \<noteq> Some 0"
    by (simp_all add: lookup_wf_def LOOKUP_NAME_LEN_def)
  show "length (lookup_as_bytes l) = SIZE_OF_LOOKUP" by (simp add: lookup_as_bytes_def n SIZE_OF_LOOKUP_def)
  show "lookup_from_raw (lookup_as_bytes l) = l"
    using n p by (cases "lookup_inode l") (simp add: lookup_from_raw_def lookup_as_bytes_def LOOKUP_NAME_LEN_def)
next
  fix bs :: bytes
  assume "length bs = SIZE_OF_LOOKUP"
  then have len: "length bs = 48" by (simp add: SIZE_OF_LOOKUP_def)
  then show "lookup_wf (lookup_from_raw bs)" by (simp add: lookup_wf_def lookup_from_raw_def LOOKUP_NAME_LEN_def)
  show "lookup_as_bytes (lookup_from_raw bs) = bs"
    using len by (simp add: lookup_as_bytes_def lookup_from_raw_def LOOKUP_NAME_LEN_def)
qed

text \<open>
  The comment on the blocks of an inode promises 768 children of a directory, 32 bytes each. An entry has
  48 bytes: the blocks hold 512 of them end to end, and 480 if no entry crosses the end of a block.
\<close>

lemma directory_capacity:
  "INODE_PTRS * 2 * BLOCK_SIZE div 32 = 768"
  "INODE_PTRS * 2 * BLOCK_SIZE div SIZE_OF_LOOKUP = 512"
  "INODE_PTRS * 2 * (BLOCK_SIZE div SIZE_OF_LOOKUP) = 480"
  by (simp_all add: INODE_PTRS_def BLOCK_SIZE_def SIZE_OF_LOOKUP_def)

section \<open>Printing inodes\<close>

definition inode_display :: "(u16 \<Rightarrow> string) \<Rightarrow> inode \<Rightarrow> string" where
  "inode_display fmt_mode n =
     ''inode '' @ fmt_mode (file_mode_bits (nod_mode n)) @ '' '' @ dec_str (unat (nod_links n)) @ '' ''
     @ dec_str (unat (nod_size n)) @ ''b {'' @ concat (map dual_display (nod_blocks n)) @ ''}''"

text \<open>The derived \<^verbatim>\<open>Debug\<close> of lists and tuple structs, and \<^verbatim>\<open>finish_non_exhaustive\<close>.\<close>

fun comma_separated :: "string list \<Rightarrow> string" where
  "comma_separated [] = ''''"
| "comma_separated [x] = x"
| "comma_separated (x # y # ys) = x @ '', '' @ comma_separated (y # ys)"

definition debug_list :: "string list \<Rightarrow> string" where
  "debug_list xs = ''['' @ comma_separated xs @ '']''"

definition dual_debug :: "dual_block_ptr \<Rightarrow> string" where
  "dual_debug d = ''DualBlockPtr('' @ debug_list (map (\<lambda>b. dec_str (unat b)) (dual_as_bytes d)) @ '')''"

definition inode_debug :: "(u16 \<Rightarrow> string) \<Rightarrow> inode \<Rightarrow> string" where
  "inode_debug fmt_mode n =
     ''INode { mode: FileMode('' @ fmt_mode (file_mode_bits (nod_mode n)) @ ''), links: '' @ dec_str (unat (nod_links n))
     @ '', size: '' @ dec_str (unat (nod_size n)) @ '', blocks: '' @ debug_list (map dual_debug (nod_blocks n)) @ '', .. }''"

text \<open>Inodes that compare equal print the same: neither text shows what the comparison leaves out.\<close>

lemma equal_inodes_print_alike:
  assumes "inode_eq a b"
  shows "inode_display fmt_mode a = inode_display fmt_mode b" "inode_debug fmt_mode a = inode_debug fmt_mode b"
  using assms by (simp_all add: inode_eq_def inode_display_def inode_debug_def)

end
