(* ===== verification/Lib_Tests.thy ===== *)
theory Lib_Tests
  imports Fs_Lookup
begin

text \<open>
  The unit tests of libutil and libfs (the modules \<^verbatim>\<open>tests\<close> of sync.rs, send.rs, lib.rs, header.rs and
  table.rs), translated as programs over the model. A test returns, or panics at the first assertion that
  fails; each is shown to return, so the model agrees with the expectations the authors wrote down.
\<close>

section \<open>Assertions\<close>

definition assert :: "bool \<Rightarrow> unit run" where
  "assert b = (if b then Done () else Panic)"

fun asserts :: "bool list \<Rightarrow> unit run" where
  "asserts [] = Done ()"
| "asserts (b # bs) = andThen (assert b) (\<lambda>_. asserts bs)"

text \<open>A loop over a range whose body works on some state.\<close>

fun for_each :: "'i list \<Rightarrow> ('i \<Rightarrow> 's \<Rightarrow> 's run) \<Rightarrow> 's \<Rightarrow> 's run" where
  "for_each [] body s = Done s"
| "for_each (i # is) body s = andThen (body i s) (for_each is body)"

lemma asserts_all [simp]: "asserts bs = (if list_all id bs then Done () else Panic)"
  by (induction bs) (simp_all add: assert_def)

lemma for_each_stateless:
  "(\<And>i. i \<in> set is \<Longrightarrow> body i s = Done s) \<Longrightarrow> for_each is body s = Done s"
  by (induction "is") simp_all

lemma for_each_upt:
  assumes "\<And>i s. I i s \<Longrightarrow> m \<le> i \<Longrightarrow> i < n \<Longrightarrow> \<exists>s'. body i s = Done s' \<and> I (Suc i) s'"
    and "I m s" and "m \<le> n"
  shows "\<exists>s'. for_each [m..<n] body s = Done s' \<and> I n s'"
  using assms
proof (induction "n - m" arbitrary: m s)
  case (Suc d)
  then have "m < n" by simp
  moreover obtain s1 where s1: "body m s = Done s1" "I (Suc m) s1" using Suc.prems(1,2) \<open>m < n\<close> by blast
  moreover have "\<exists>s'. for_each [Suc m..<n] body s1 = Done s' \<and> I n s'"
    by (rule Suc.hyps(1)) (use Suc.hyps(2) Suc.prems(1) s1(2) \<open>m < n\<close> in auto)
  ultimately show ?case by (simp add: upt_rec)
qed simp

section \<open>libutil: sync.rs and send.rs\<close>

definition initlater_inits_once :: "u32 \<Rightarrow> unit run" where
  "initlater_inits_once memory =
     (let init = init_later_uninit memory;
          (first, init) = init_later_init 0x42 init;
          (second, init) = init_later_init 0x43 init
      in asserts [\<not> isl first, isl second])"

definition initlater_cant_read_before_init :: "u32 \<Rightarrow> unit run" where
  "initlater_cant_read_before_init memory =
     (let init = init_later_uninit memory
      in andThen (assert (isl (init_later_read init))) (\<lambda>_.
           case fst (init_later_init 0x42 init) of Inl _ \<Rightarrow> Panic | Inr val \<Rightarrow> assert (val = 0x42)))"

text \<open>
  \<^verbatim>\<open>map\<close> with a closure that may panic and may use the cell it is working on: it gets the cell as it is while the closure
  runs. With a closure that only uses the value it is \<open>exmap_map\<close>.
\<close>

definition exmap_map_with ::
  "('a exclusive_map \<Rightarrow> ('r \<times> 'a exclusive_map) run) \<Rightarrow> 'a exclusive_map \<Rightarrow> ('r option \<times> 'a exclusive_map) run" where
  "exmap_map_with f m =
     (if \<not> em_access m
      then andThen (f (m\<lparr>em_access := True\<rparr>)) (\<lambda>(ret, m). Done (Some ret, m\<lparr>em_access := False\<rparr>))
      else Done (None, m))"

lemma exmap_map_with_value:
  "exmap_map_with (\<lambda>m. Done (fst (f (em_cell m)), m\<lparr>em_cell := snd (f (em_cell m))\<rparr>)) m = Done (exmap_map f m)"
  by (simp add: exmap_map_with_def exmap_map_def Let_def split_beta)

text \<open>\<^verbatim>\<open>unwrap\<close> of what \<^verbatim>\<open>map\<close> returned.\<close>

definition unwrap_map :: "('r option \<times> 'c) run \<Rightarrow> 'c run" where
  "unwrap_map r = andThen r (\<lambda>(x, c). case x of None \<Rightarrow> Panic | Some _ \<Rightarrow> Done c)"

definition exmap_works :: "unit run" where
  "exmap_works =
     (let exmap = exclusive_map_new (42 :: u32)
      in andThen (unwrap_map (Done (exmap_map (\<lambda>i. ((), i + 8)) exmap))) (\<lambda>exmap.
         andThen (unwrap_map (exmap_map_with (\<lambda>m. andThen (assert (em_cell m = 50)) (\<lambda>u. Done (u, m))) exmap)) (\<lambda>exmap.
         andThen (unwrap_map (exmap_map_with (\<lambda>m.
             let (inner, m) = exmap_map (\<lambda>v. ((), v)) m
             in andThen (assert (inner = None)) (\<lambda>u. Done (u, m))) exmap)) (\<lambda>_. Done ()))))"

text \<open>A packed struct of two fields.\<close>

record my_struct =
  my_x :: u16
  my_y :: u8

definition my_struct_as_bytes :: "my_struct \<Rightarrow> bytes" where
  "my_struct_as_bytes s = to_le 2 (my_x s) @ to_le 1 (my_y s)"

definition as_bytes_works :: "unit run" where
  "as_bytes_works =
     (let bytes = my_struct_as_bytes \<lparr>my_x = 257, my_y = 18\<rparr>
      in asserts [bytes ! 0 = 1, bytes ! 1 = 1, bytes ! 2 = 18])"

lemma libutil_tests_pass:
  "initlater_inits_once memory = Done ()"
  "initlater_cant_read_before_init memory = Done ()"
  "exmap_works = Done ()"
  "as_bytes_works = Done ()"
proof -
  show "initlater_inits_once memory = Done ()" "initlater_cant_read_before_init memory = Done ()"
    by (simp_all add: initlater_inits_once_def initlater_cant_read_before_init_def init_later_uninit_def init_later_init_def
        init_later_read_def il_state_defs assert_def)
  show "exmap_works = Done ()"
    by (simp add: exmap_works_def unwrap_map_def exmap_map_with_def exmap_map_free exmap_map_held assert_def)
  show "as_bytes_works = Done ()"
    by (simp add: as_bytes_works_def my_struct_as_bytes_def to_le_def upt_rec)
qed

section \<open>libfs: lib.rs and header.rs\<close>

text \<open>The size of a type is the number of bytes its values occupy.\<close>

definition types_have_the_right_size :: "inode \<Rightarrow> inode_lookup \<Rightarrow> inode_ptr \<Rightarrow> block_ptr \<Rightarrow> unit run" where
  "types_have_the_right_size n l ip bp =
     asserts [length (inode_as_bytes n) = 128,
       length (inode_as_bytes n) = BLOCK_SIZE div 4,
       length (lookup_as_bytes l) = 48,
       length (to_le 2 (niche (inode_ptr_get ip))) = LENGTH(16) div 8,
       length (to_le 2 (niche (block_ptr_get bp))) = LENGTH(16) div 8]"

definition header_types_have_the_right_size :: "filesystem_header \<Rightarrow> u16 \<Rightarrow> unit run" where
  "header_types_have_the_right_size h release =
     asserts [length (header_as_bytes h) = 512, length (to_le 2 release) = 2]"

definition block_ptr_nullability :: "unit run" where
  "block_ptr_nullability =
     asserts [block_ptr_is_null block_ptr_null,
       \<not> block_ptr_is_valid block_ptr_null,
       block_ptr_is_null (block_ptr_new 0),
       block_ptr_is_valid (block_ptr_new 2312),
       block_ptr_is_valid (block_ptr_new MAX_VAL),
       block_ptr_is_valid (block_ptr_new (MAX_VAL + 6))]"

definition block_ptr_eq :: "unit run" where
  "block_ptr_eq =
     asserts [block_ptr_new 0 = block_ptr_null,
       block_ptr_new 1 \<noteq> block_ptr_null,
       block_ptr_new 9 = block_ptr_new 9,
       block_ptr_new MAX_VAL = block_ptr_new (MAX_VAL + 1),
       block_ptr_new MAX_VAL = block_ptr_new (MAX_VAL + 257),
       block_ptr_new MAX_VAL \<noteq> block_ptr_new (MAX_VAL - 1)]"

definition dual_block_ptr_encoding :: "unit run" where
  "dual_block_ptr_encoding =
     for_each [0..<2 ^ 12] (\<lambda>f.
       for_each [0..<2 ^ 12] (\<lambda>s u.
         let fst = block_ptr_new (of_nat f); snd = block_ptr_new (of_nat s);
             decoded = dual_decode (dual_encode fst snd)
         in asserts [fst = decoded ! 0, snd = decoded ! 1])) ()"

text \<open>
  The second assertion of the release test compares the decoded day with itself, because the pattern that
  binds it hides the loop variable. \<open>intended\<close> is what the loop variable would have been compared with.
\<close>

definition fs_release_encoding :: "bool \<Rightarrow> unit run" where
  "fs_release_encoding intended =
     for_each [0..<2 ^ 6] (\<lambda>year.
       for_each [0..<2 ^ 10] (\<lambda>d u.
         let (yr, day) = year_day (fs_release_new (of_nat d) (YEAR_START + of_nat year))
         in asserts [yr = of_nat year, day = (if intended then of_nat d else day)])) ()"

lemma of_nat_u16_less: "n < m \<Longrightarrow> m \<le> 65535 \<Longrightarrow> (of_nat n :: u16) < of_nat m"
  by (simp add: word_less_nat_alt unat_of_nat)

lemma release_year:
  assumes "year < 64" and "d < 1024"
  shows "fst (year_day (fs_release_new (of_nat d) (YEAR_START + of_nat year))) = of_nat year"
  using year_of_packed [of "of_nat year" "of_nat d"] of_nat_u16_less [OF assms(1)] of_nat_u16_less [OF assms(2)]
  by (simp add: fs_release_new_def Let_def)

lemma dual_round_trip_of_nat:
  assumes "f < 4096" and "s < 4096"
  shows "dual_decode (dual_encode (block_ptr_new (of_nat f)) (block_ptr_new (of_nat s)))
    = [block_ptr_new (of_nat f), block_ptr_new (of_nat s)]"
proof -
  have "(of_nat f :: u16) < MAX_VAL" "(of_nat s :: u16) < MAX_VAL"
    using of_nat_u16_less [OF assms(1)] of_nat_u16_less [OF assms(2)] by (simp_all add: MAX_VAL_def)
  note small = this
  then show ?thesis
    using split_bytes_first [OF small] split_bytes_second [OF small]
    by (simp add: dual_encode_def Let_def block_ptr_get_nullable_new)
qed

lemma libfs_type_tests_pass:
  "inode_wf n \<Longrightarrow> lookup_wf l \<Longrightarrow> types_have_the_right_size n l ip bp = Done ()"
  "header_wf h \<Longrightarrow> header_types_have_the_right_size h r = Done ()"
  "block_ptr_nullability = Done ()"
  "block_ptr_eq = Done ()"
  "dual_block_ptr_encoding = Done ()"
  "fs_release_encoding False = Done ()"
proof -
  show "inode_wf n \<Longrightarrow> lookup_wf l \<Longrightarrow> types_have_the_right_size n l ip bp = Done ()"
    and "header_wf h \<Longrightarrow> header_types_have_the_right_size h r = Done ()"
    by (simp_all add: types_have_the_right_size_def header_types_have_the_right_size_def inode_bytes.length_as_bytes
        lookup_bytes.length_as_bytes header_bytes.length_as_bytes SIZE_OF_INODE_def SIZE_OF_LOOKUP_def SIZE_OF_HEADER_def BLOCK_SIZE_def)
  show "block_ptr_nullability = Done ()" "block_ptr_eq = Done ()"
    by (simp_all add: block_ptr_nullability_def block_ptr_eq_def block_ptr_is_null_def block_ptr_is_valid_def
        block_ptr_new_def block_ptr_null_def nonzero_new_def MAX_VAL_def)
  show "dual_block_ptr_encoding = Done ()"
    unfolding dual_block_ptr_encoding_def
    by (intro for_each_stateless) (simp add: dual_round_trip_of_nat Let_def)
  show "fs_release_encoding False = Done ()"
    unfolding fs_release_encoding_def
    by (intro for_each_stateless) (simp add: release_year split_beta)
qed

text \<open>Compared with the loop variable, the test would fail, on day 512, whose top bit the decoding drops.\<close>

lemma for_each_stuck:
  "i \<in> set is \<Longrightarrow> (\<And>s s'. body i s \<noteq> Done s') \<Longrightarrow> for_each is body s \<noteq> Done s'"
proof (induction "is" arbitrary: s)
  case (Cons j "is")
  then show ?case by (cases "body j s") auto
qed simp

lemma fs_release_encoding_intended_fails: "fs_release_encoding True \<noteq> Done ()"
proof -
  have "year_day (fs_release_new (of_nat 512) (YEAR_START + of_nat 0)) = (0, 0)"
    by (simp add: fs_release_new_def YEAR_START_def)
  then show ?thesis
    unfolding fs_release_encoding_def
    by (intro for_each_stuck [where i = 0] for_each_stuck [where i = 512]) simp_all
qed

section \<open>libfs: table.rs\<close>

definition no_double_bmp_alloc :: "unit run" where
  "no_double_bmp_alloc =
     andThen (alloc_bmp (BlockPtr None) block_bmp_static) (\<lambda>(r, bmp).
     andThen (assert (r = Err NullPtr)) (\<lambda>_.
     andThen (for_each [1..<unat MAX_VAL] (\<lambda>ptr bmp.
         let blk = block_ptr_new (of_nat ptr)
         in andThen (alloc_bmp blk bmp) (\<lambda>(r, bmp).
            andThen (assert (r = Ok ())) (\<lambda>_.
            andThen (alloc_bmp blk bmp) (\<lambda>(r, bmp).
            andThen (assert (r = Err (AlreadyInUse blk))) (\<lambda>_. Done bmp))))) bmp)
       (\<lambda>_. Done ())))"

definition bmp_alloc_persistence :: "unit run" where
  "bmp_alloc_persistence =
     andThen (unwrap_map (Done (exmap_map (\<lambda>idx. ((), 0b10)) (block_bmp_static ! 0)))) (\<lambda>cell.
       let bmp = block_bmp_static[0 := cell]; blk = block_ptr_new 1
       in andThen (alloc_bmp blk bmp) (\<lambda>(r, bmp).
          andThen (assert (r = Err (AlreadyInUse blk))) (\<lambda>_.
          andThen (alloc_bmp (block_ptr_new 2) bmp) (\<lambda>(r, bmp). assert (r = Ok ())))))"

definition alloc_next_bmp_works :: "unit run" where
  "alloc_next_bmp_works =
     andThen (for_each [1..<unat MAX_VAL] (\<lambda>ptr bmp.
         andThen (alloc_next_bmp bmp) (\<lambda>(blk, bmp).
         andThen (assert (blk = block_ptr_new (of_nat ptr))) (\<lambda>_. Done bmp))) block_bmp_static)
       (\<lambda>bmp. andThen (alloc_next_bmp bmp) (\<lambda>(blk, bmp). assert (block_ptr_is_null blk)))"

definition NOD :: inode where
  "NOD = inode_new DIRECTORY 0 (inode_ptr_new 0x42)"

text \<open>The write function of the test, which checks what it is asked to write.\<close>

definition checking_write :: "(unit, unit) drive_write" where
  "checking_write ptr buf s =
     andThen (asserts [ptr = 1, take SIZE_OF_INODE buf = inode_as_bytes NOD,
         drop SIZE_OF_INODE buf = replicate (SIZE_OF_INODE * 3) 0])
       (\<lambda>_. ok () s)"

definition alloc_inode_works :: "unit run" where
  "alloc_inode_works =
     andThen (alloc_inode NOD checking_write (inode_tbl_static, ())) (\<lambda>(r, tbl, s).
       case r of
         Inl _ \<Rightarrow> Panic
       | Inr _ \<Rightarrow>
           andThen (exmap_map_with (\<lambda>m. andThen (assert (inode_eq (em_cell m) NOD)) (\<lambda>u. Done (u, m))) (tbl ! 0))
             (\<lambda>_. Done ()))"

lemma static_bit: "n < 4096 \<Longrightarrow> \<not> bmp_bit block_bmp_static n"
  by (simp add: bmp_bit_def block_bmp_static_def MAX_VAL_def U128_BITS_def exclusive_map_new_def less_mult_imp_div_less)

text \<open>The bitmap before block \<open>n\<close> is tried: the blocks below it are taken, the others free.\<close>

definition filled_to :: "nat \<Rightarrow> block_bitmap \<Rightarrow> bool" where
  "filled_to n bmp \<longleftrightarrow> bmp_ok bmp \<and> (\<forall>m. 1 \<le> m \<and> m < 4096 \<longrightarrow> (bmp_bit bmp m \<longleftrightarrow> m < n))"

lemma filled_to_static: "filled_to 1 block_bmp_static"
  using static_bit by (auto simp: filled_to_def)

lemma filled_to_mark: "filled_to n bmp \<Longrightarrow> n < 4096 \<Longrightarrow> filled_to (Suc n) (bmp_mark bmp n)"
  by (auto simp: filled_to_def bmp_mark_ok bmp_bit_mark)

lemma unat_MAX_VAL: "unat MAX_VAL = 4096"
  by (simp add: MAX_VAL_def)

lemma alloc_next_filled:
  assumes "filled_to n bmp" and "1 \<le> n" and "n < 4096"
  shows "alloc_next_bmp bmp = Done (block_ptr_new (of_nat n), bmp_mark bmp n)"
proof -
  have "find (\<lambda>m. \<not> bmp_bit bmp m) [1..<4096] = Some n"
    using assms by (auto simp: filled_to_def find_upt_Some)
  moreover have "set [1..<4096] \<subseteq> {1..<4096 :: nat}" by auto
  ultimately show ?thesis
    using assms(1) alloc_next_from_find [of bmp "[1..<4096]"]
    by (simp add: alloc_next_bmp_def unat_MAX_VAL filled_to_def del: upt_conv_Cons)
qed

lemma alloc_next_full:
  assumes "filled_to 4096 bmp" shows "alloc_next_bmp bmp = Done (block_ptr_null, bmp)"
proof -
  have "find (\<lambda>m. \<not> bmp_bit bmp m) [1..<4096] = None"
    using assms by (auto simp: filled_to_def find_None_iff)
  moreover have "set [1..<4096] \<subseteq> {1..<4096 :: nat}" by auto
  ultimately show ?thesis
    using assms alloc_next_from_find [of bmp "[1..<4096]"]
    by (simp add: alloc_next_bmp_def unat_MAX_VAL filled_to_def del: upt_conv_Cons)
qed

lemma no_double_bmp_alloc_passes: "no_double_bmp_alloc = Done ()"
proof -
  let ?body = "\<lambda>ptr bmp.
         let blk = block_ptr_new (of_nat ptr)
         in andThen (alloc_bmp blk bmp) (\<lambda>(r, bmp).
            andThen (assert (r = Ok ())) (\<lambda>_.
            andThen (alloc_bmp blk bmp) (\<lambda>(r, bmp).
            andThen (assert (r = Err (AlreadyInUse blk))) (\<lambda>_. Done bmp))))"
  have "?body n bmp = Done (bmp_mark bmp n)" if "filled_to n bmp" "1 \<le> n" "n < 4096" for n bmp
    using that alloc_bmp_of_nat [of bmp n] alloc_bmp_of_nat [of "bmp_mark bmp n" n]
    by (simp add: filled_to_def bmp_mark_ok bmp_bit_mark assert_def)
  then obtain bmp where "for_each [1..<4096] ?body block_bmp_static = Done bmp"
    using for_each_upt [of filled_to 1 4096 ?body block_bmp_static] filled_to_static filled_to_mark by fastforce
  then show ?thesis
    by (simp add: no_double_bmp_alloc_def alloc_bmp_def [of "BlockPtr None"] assert_def unat_MAX_VAL del: upt_conv_Cons)
qed

lemma alloc_next_bmp_works_passes: "alloc_next_bmp_works = Done ()"
proof -
  let ?body = "\<lambda>ptr bmp. andThen (alloc_next_bmp bmp) (\<lambda>(blk, bmp).
         andThen (assert (blk = block_ptr_new (of_nat ptr))) (\<lambda>_. Done bmp))"
  have "?body n bmp = Done (bmp_mark bmp n)" if "filled_to n bmp" "1 \<le> n" "n < 4096" for n bmp
    using alloc_next_filled [OF that] by (simp add: assert_def)
  then obtain bmp where "for_each [1..<4096] ?body block_bmp_static = Done bmp" "filled_to 4096 bmp"
    using for_each_upt [of filled_to 1 4096 ?body block_bmp_static] filled_to_static filled_to_mark by fastforce
  then show ?thesis
    by (simp add: alloc_next_bmp_works_def alloc_next_full unat_MAX_VAL assert_def block_ptr_is_null_def block_ptr_null_def
        del: upt_conv_Cons)
qed

lemma bmp_alloc_persistence_passes: "bmp_alloc_persistence = Done ()"
  by (simp add: bmp_alloc_persistence_def unwrap_map_def exmap_map_free block_bmp_static_def MAX_VAL_def U128_BITS_def
      alloc_bmp_def block_ptr_new_def nonzero_new_def exclusive_map_new_def assert_def)

lemma NOD_facts: "inode_wf NOD" "inode_clone NOD = NOD"
  by (simp_all add: NOD_def inode_ptr_new_def nonzero_new_def) (simp add: inode_clone_def inode_new_def)

lemma alloc_inode_works_passes: "alloc_inode_works = Done ()"
proof -
  let ?tbl = "inode_tbl_static[0 := exclusive_map_new NOD]"
  let ?buf = "slice_as_bytes inode_as_bytes (map (\<lambda>c. inode_clone (em_cell c)) (take 4 ?tbl))"
  have "take 4 ?tbl = [exclusive_map_new NOD, exclusive_map_new inode_zeroed, exclusive_map_new inode_zeroed,
      exclusive_map_new inode_zeroed]"
    by (simp add: inode_tbl_static_def INODES_def numeral_eq_Suc)
  then have buf: "?buf = inode_as_bytes NOD @ replicate (SIZE_OF_INODE * 3) 0"
    by (simp add: slice_as_bytes_def NOD_facts inode_zeroed_bytes replicate_add [symmetric] mult.commute numeral_3_eq_3)
  have w: "checking_write 1 ?buf () = Done (Inr (), ())"
    using inode_bytes.length_as_bytes [OF NOD_facts(1)] unfolding buf by (simp add: checking_write_def ok_def)
  have "alloc_inode NOD checking_write (inode_tbl_static, ()) = Done (Inr (inode_ptr_new 0), ?tbl, ())"
    using alloc_inode_slot [OF inode_tbl_static_ok, of 0 NOD checking_write "()"] w
    by (simp add: static_slot INODES_def NOD_facts ok_def)
  then show ?thesis
    by (simp add: alloc_inode_works_def exmap_map_with_def inode_tbl_static_def INODES_def assert_def inode_eq_def)
qed

text \<open>
  These unit tests of libutil and libfs pass on the model (not the size checks of the types): none of their assertions fails, whatever an
  uninitialised cell holds.
\<close>

theorem library_unit_tests_pass:
  "initlater_inits_once memory = Done () \<and> initlater_cant_read_before_init memory = Done () \<and> exmap_works = Done ()
   \<and> as_bytes_works = Done () \<and> block_ptr_nullability = Done () \<and> block_ptr_eq = Done () \<and> dual_block_ptr_encoding = Done ()
   \<and> fs_release_encoding False = Done () \<and> no_double_bmp_alloc = Done () \<and> bmp_alloc_persistence = Done ()
   \<and> alloc_next_bmp_works = Done () \<and> alloc_inode_works = Done ()"
  by (simp only: libutil_tests_pass libfs_type_tests_pass no_double_bmp_alloc_passes bmp_alloc_persistence_passes
      alloc_next_bmp_works_passes alloc_inode_works_passes simp_thms)

end
