(* ===== verification/Machine.thy ===== *)
theory Machine
  imports Send
begin

text \<open>
  kernel/src/ports.rs and the flags of kernel/src/startup.rs: the part of the machine every driver
  uses. The processor's I/O is recorded in \<open>io_log\<close>, newest event first; what a device answers
  is a function of that history (\<open>port_in\<close>), so a device may react to anything the kernel wrote
  to it. The record \<open>machine\<close> is extended by each driver with its own statics.
\<close>

section \<open>The environment\<close>

text \<open>
  \<open>ClockRead\<close>, \<open>Halt\<close> and \<open>Spin\<close> mark the points at which pending interrupts are taken: reading
  the clock, halting and spinning. \<open>irqs\<close> gives the interrupt requests pending there (the mark is
  the newest event of the history it sees), \<open>fuel\<close> bounds the iterations of
  every loop whose end depends on a device or on an interrupt. The remaining fields stand for what
  the build and the linker fix: the version strings of the build script and the addresses of
  statics and of interrupt handlers.
\<close>

datatype io = Out u16 u8 | Inp u16 u8 | ClockRead | Halt | Spin

datatype irq = TimerIrq | KbdIrq | FloppyIrq | RtcIrq | SpuriousIrq

record env =
  port_in :: "io list \<Rightarrow> u16 \<Rightarrow> u8"
  irqs :: "io list \<Rightarrow> irq list"
  fuel :: nat
  sfk_version :: string
  patch_quote :: string
  century :: u16
  floppyfs_year :: u16
  floppyfs_day :: u16
  disable_enter :: bool
  handler_addr :: "nat \<Rightarrow> u64"
  static_addr :: "string \<Rightarrow> u64"

section \<open>State\<close>

record machine =
  io_log :: "io list"
  ints_on :: bool
  INTERRUPT_DEPTH :: u32
  GDT_INIT :: unsafe_flag
  PIC_INIT :: unsafe_flag
  PIT_INIT :: unsafe_flag
  KBD_INIT :: unsafe_flag
  FLOPPY_INIT :: unsafe_flag
  RTC_IRQ_INIT :: unsafe_flag

text \<open>Everything of the machine but the log.\<close>

definition machine_flags :: "'a machine_scheme \<Rightarrow> bool \<times> u32 \<times> bool \<times> bool \<times> bool \<times> bool \<times> bool \<times> bool" where
  "machine_flags k = (ints_on k, INTERRUPT_DEPTH k, GDT_INIT k, PIC_INIT k, PIT_INIT k, KBD_INIT k,
     FLOPPY_INIT k, RTC_IRQ_INIT k)"

section \<open>Ports\<close>

datatype port =
    MainPicCmd | MainPicData | SecondaryPicCmd | SecondaryPicData
  | VGASelectorC | VGARegisterC
  | PITChannel0 | PITChannel2 | PITCmd
  | CMOSIndex | CMOSData
  | QemuExit | SerialPort1
  | PS2Data | PCSpeaker | UnusedPort

fun port_addr :: "port \<Rightarrow> u16" where
  "port_addr MainPicCmd = 0x20"
| "port_addr MainPicData = 0x21"
| "port_addr SecondaryPicCmd = 0xA0"
| "port_addr SecondaryPicData = 0xA1"
| "port_addr VGASelectorC = 0x3D4"
| "port_addr VGARegisterC = 0x3D5"
| "port_addr PITChannel0 = 0x40"
| "port_addr PITChannel2 = 0x42"
| "port_addr PITCmd = 0x43"
| "port_addr CMOSIndex = 0x70"
| "port_addr CMOSData = 0x71"
| "port_addr QemuExit = 0xF4"
| "port_addr SerialPort1 = 0x3F8"
| "port_addr PS2Data = 0x60"
| "port_addr PCSpeaker = 0x61"
| "port_addr UnusedPort = 0x80"

definition writeb_nodummy :: "u16 \<Rightarrow> u8 \<Rightarrow> 'a machine_scheme \<Rightarrow> 'a machine_scheme" where
  "writeb_nodummy port val k = k\<lparr>io_log := Out port val # io_log k\<rparr>"

definition writeb :: "u16 \<Rightarrow> u8 \<Rightarrow> 'a machine_scheme \<Rightarrow> 'a machine_scheme" where
  "writeb port val k = writeb_nodummy port val (writeb_nodummy (port_addr UnusedPort) 0 k)"

definition readb_nodummy :: "env \<Rightarrow> u16 \<Rightarrow> 'a machine_scheme \<Rightarrow> u8 \<times> 'a machine_scheme" where
  "readb_nodummy E port k =
     (let val = port_in E (io_log k) port in (val, k\<lparr>io_log := Inp port val # io_log k\<rparr>))"

definition readb :: "env \<Rightarrow> u16 \<Rightarrow> 'a machine_scheme \<Rightarrow> u8 \<times> 'a machine_scheme" where
  "readb E port k = readb_nodummy E port (writeb_nodummy (port_addr UnusedPort) 0 k)"

lemmas port_defs = writeb_def writeb_nodummy_def readb_def readb_nodummy_def Let_def

text \<open>The events of a sequence of delayed writes, newest first.\<close>

fun delayed_outs :: "(u16 \<times> u8) list \<Rightarrow> io list" where
  "delayed_outs [] = []"
| "delayed_outs ((p, v) # ps) = delayed_outs ps @ [Out p v, Out 0x80 0]"

text \<open>
  What a log says was written to the devices, in the order of time: all but the delays and the cursor's position.
\<close>

primrec device_writes :: "io list \<Rightarrow> (u16 \<times> u8) list" where
  "device_writes [] = []"
| "device_writes (ev # evs) = device_writes evs
     @ (case ev of Out p v \<Rightarrow> if p \<in> {0x80, 0x3D4, 0x3D5} then [] else [(p, v)] | _ \<Rightarrow> [])"

lemma port_addr_inject: "port_addr p = port_addr q \<longleftrightarrow> p = q"
  by (cases p; cases q) simp_all

section \<open>Interrupt flag\<close>

definition sti :: "'a machine_scheme \<Rightarrow> 'a machine_scheme" where
  "sti k = k\<lparr>ints_on := True\<rparr>"

definition cli :: "'a machine_scheme \<Rightarrow> 'a machine_scheme" where
  "cli k = k\<lparr>ints_on := False\<rparr>"

lemmas if_defs = sti_def cli_def

section \<open>Exit codes of startup tasks\<close>

datatype 'e exit_code = ExInfallible | ExOk | ExError 'e | ExStop 'e

text \<open>A port access only adds events to the log.\<close>

lemma writeb_eq [frame_simps]: "writeb p v k = k\<lparr>io_log := Out p v # Out 0x80 0 # io_log k\<rparr>"
  by (simp add: port_defs)

lemma readb_eq [frame_simps]:
  "readb E p k =
     (let v = port_in E (Out 0x80 0 # io_log k) p in (v, k\<lparr>io_log := Inp p v # Out 0x80 0 # io_log k\<rparr>))"
  by (simp add: port_defs)

end
