(* ===== verification/Vga.thy ===== *)
theory Vga
  imports Machine
begin

text \<open>
  kernel/src/vga.rs and kernel/src/vga/: the text buffers, the cursor and printing. A buffer is a
  list of 25 rows of 80 characters; an index outside of it panics, as in the source.
\<close>

section \<open>Characters\<close>

datatype color =
    Black | Blue | Green | Cyan | Red | Purple | Brown | Grey
  | LightGrey | LightBlue | Lime | LightCyan | LightRed | Pink | Yellow | White

fun color_code :: "color \<Rightarrow> u16" where
  "color_code Black = 0" | "color_code Blue = 1" | "color_code Green = 2" | "color_code Cyan = 3"
| "color_code Red = 4" | "color_code Purple = 5" | "color_code Brown = 6" | "color_code Grey = 7"
| "color_code LightGrey = 8" | "color_code LightBlue = 9" | "color_code Lime = 10"
| "color_code LightCyan = 11" | "color_code LightRed = 12" | "color_code Pink = 13"
| "color_code Yellow = 14" | "color_code White = 15"

type_synonym vga_char = u16
type_synonym raw_buffer = "vga_char list list"

definition vga_char_new :: "u8 \<Rightarrow> color \<Rightarrow> color \<Rightarrow> vga_char" where
  "vga_char_new char fg bg =
     (ucast char :: u16) OR push_bit 12 (color_code bg) OR push_bit 8 (color_code fg)"

definition SPACE :: vga_char where "SPACE = vga_char_new 0x20 White Black"

section \<open>State\<close>

definition BUFFER_WIDTH :: u8 where "BUFFER_WIDTH = 80"
definition BUFFER_HEIGHT :: u8 where "BUFFER_HEIGHT = 25"

definition empty_buffer :: raw_buffer where
  "empty_buffer = replicate (unat BUFFER_HEIGHT) (replicate (unat BUFFER_WIDTH) SPACE)"

text \<open>
  \<open>vga_memory\<close> is the memory at \<^verbatim>\<open>0xb8000\<close>; the static \<^verbatim>\<open>BUFFER\<close> refers to \<open>boot_buffer\<close> until
  \<^verbatim>\<open>vga::init\<close> connects it to that memory.
\<close>

record vga = machine +
  vga_memory :: raw_buffer
  boot_buffer :: raw_buffer
  buffer_connected :: bool
  BUFFER_HELD :: unsafe_flag
  ALT :: raw_buffer
  TMP :: raw_buffer
  CURSOR_row :: u8
  CURSOR_column :: u8
  ALLOW_ROW_0 :: bool

definition BUFFER :: "'a vga_scheme \<Rightarrow> raw_buffer" where
  "BUFFER k = (if buffer_connected k then vga_memory k else boot_buffer k)"

definition set_BUFFER :: "raw_buffer \<Rightarrow> 'a vga_scheme \<Rightarrow> 'a vga_scheme" where
  "set_BUFFER b k = (if buffer_connected k then k\<lparr>vga_memory := b\<rparr> else k\<lparr>boot_buffer := b\<rparr>)"

section \<open>Buffers\<close>

definition try_yoink :: "'a vga_scheme \<Rightarrow> 'a vga_scheme option" where
  "try_yoink k = (if \<not> BUFFER_HELD k then Some (k\<lparr>BUFFER_HELD := True\<rparr>) else None)"

definition drop_yoinked :: "'a vga_scheme \<Rightarrow> 'a vga_scheme" where
  "drop_yoinked k = k\<lparr>BUFFER_HELD := False\<rparr>"

text \<open>\<^verbatim>\<open>buf.buffer()[row][col] = v\<close>\<close>

definition buffer_store :: "nat \<Rightarrow> nat \<Rightarrow> vga_char \<Rightarrow> 'a vga_scheme \<Rightarrow> 'a vga_scheme run" where
  "buffer_store row col v k =
     (let b = BUFFER k
      in if length b \<le> row then Panic
         else if length (b ! row) \<le> col then Panic
         else Done (set_BUFFER (b[row := (b ! row)[col := v]]) k))"

section \<open>Cursor\<close>

datatype cursor_shift = ShiftLeft | ShiftRight | ShiftUp | ShiftDown

definition row_col :: "'a vga_scheme \<Rightarrow> u8 \<times> u8" where
  "row_col k = (CURSOR_row k, CURSOR_column k)"

definition clamp_row_col :: "'a vga_scheme \<Rightarrow> 'a vga_scheme" where
  "clamp_row_col k =
     (let (row, col) = row_col k;
          row = (if ALLOW_ROW_0 k then min row (BUFFER_HEIGHT - 1)
                 else max 1 (min row (BUFFER_HEIGHT - 1)));
          k = k\<lparr>CURSOR_row := row\<rparr>;
          col = min col (BUFFER_WIDTH - 1)
      in k\<lparr>CURSOR_column := col\<rparr>)"

definition set_row :: "u8 \<Rightarrow> 'a vga_scheme \<Rightarrow> 'a vga_scheme" where
  "set_row row k = clamp_row_col (k\<lparr>CURSOR_row := row\<rparr>)"

definition set_col :: "u8 \<Rightarrow> 'a vga_scheme \<Rightarrow> 'a vga_scheme" where
  "set_col col k = clamp_row_col (k\<lparr>CURSOR_column := col\<rparr>)"

definition update_visual_pos :: "'a vga_scheme \<Rightarrow> 'a vga_scheme" where
  "update_visual_pos k =
     (let k = clamp_row_col k;
          (row, col) = row_col k;
          pos = (ucast row :: u16) * ucast BUFFER_WIDTH + ucast col;
          k = writeb (port_addr VGASelectorC) 0x0E k;
          k = writeb (port_addr VGARegisterC) (ucast (drop_bit 8 pos)) k;
          k = writeb (port_addr VGASelectorC) 0x0F k
      in writeb (port_addr VGARegisterC) (ucast pos) k)"

fun shift_cursor :: "cursor_shift \<Rightarrow> 'a vga_scheme \<Rightarrow> 'a vga_scheme" where
  "shift_cursor ShiftLeft k =
     (let (row, col) = row_col k
      in if col = 0 then set_col (BUFFER_WIDTH - 1) k else set_col (col - 1) k)"
| "shift_cursor ShiftRight k =
     (let (row, col) = row_col k
      in if col < BUFFER_WIDTH - 1 then set_col (col + 1) k else set_col 0 k)"
| "shift_cursor ShiftUp k =
     (let (row, col) = row_col k
      in if row = 1 then set_row (BUFFER_HEIGHT - 1) k else set_row (row - 1) k)"
| "shift_cursor ShiftDown k =
     (let (row, col) = row_col k
      in if row < BUFFER_HEIGHT - 1 then set_row (row + 1) k else set_row 0 k)"

definition clear :: "'a vga_scheme \<Rightarrow> 'a vga_scheme" where
  "clear k =
     (let k = update_visual_pos (set_row 1 (set_col 0 k))
      in case try_yoink k of
           Some k \<Rightarrow> drop_yoinked (set_BUFFER empty_buffer k)
         | None \<Rightarrow> k)"

definition swap :: "'a vga_scheme \<Rightarrow> 'a vga_scheme" where
  "swap k =
     (case try_yoink k of
        Some k \<Rightarrow>
          let k = k\<lparr>TMP := ALT k\<rparr>;
              k = k\<lparr>ALT := BUFFER k\<rparr>;
              k = set_BUFFER (TMP k) k
          in drop_yoinked k
      | None \<Rightarrow> k)"

section \<open>Printing\<close>

text \<open>Move the rows from \<open>top_row\<close> on up by one and blank the last one.\<close>

definition scroll :: "nat \<Rightarrow> raw_buffer \<Rightarrow> raw_buffer" where
  "scroll top_row buf =
     (let h = unat BUFFER_HEIGHT;
          buf = fold (\<lambda>row buf. buf[row := buf ! (row + 1)]) [top_row..<h - 1] buf
      in fold (\<lambda>col buf. buf[h - 1 := (buf ! (h - 1))[col := SPACE]]) [0..<unat BUFFER_WIDTH] buf)"

definition newline :: "'a vga_scheme \<Rightarrow> 'a vga_scheme" where
  "newline k =
     (case try_yoink k of
        Some k \<Rightarrow>
          let (row, _) = row_col k;
              k = set_col 0 k;
              k = (if BUFFER_HEIGHT - 1 \<le> row
                   then set_BUFFER (scroll (if ALLOW_ROW_0 k then 0 else 1) (BUFFER k)) k
                   else set_row (row + 1) k)
          in drop_yoinked k
      | None \<Rightarrow> k)"

definition write_char :: "u8 \<Rightarrow> color \<Rightarrow> color \<Rightarrow> 'a vga_scheme \<Rightarrow> 'a vga_scheme run" where
  "write_char byte fg bg k =
     (if byte = 10 then Done (newline k)
      else let (row, col) = row_col k;
               nl = BUFFER_WIDTH - 1 \<le> col
           in andThen
                (case try_yoink k of
                   Some k \<Rightarrow> andThen (buffer_store (unat row) (unat col) (vga_char_new byte fg bg) k)
                                (\<lambda>k. Done (drop_yoinked k))
                 | None \<Rightarrow> Done k)
                (\<lambda>k. Done (if nl then newline k else set_col (col + 1) k)))"

definition delete_prev_char :: "'a vga_scheme \<Rightarrow> 'a vga_scheme run" where
  "delete_prev_char k =
     (case try_yoink k of
        Some k \<Rightarrow>
          let (row, col) = row_col k
          in if col = 0
             then andThen (buffer_store (unat (ucast row - 1 :: u64)) (unat BUFFER_WIDTH - 1) SPACE k)
                    (\<lambda>k. Done (shift_cursor ShiftUp (shift_cursor ShiftLeft (drop_yoinked k))))
             else andThen (buffer_store (unat row) (unat (ucast col - 1 :: u64)) SPACE k)
                    (\<lambda>k. Done (shift_cursor ShiftLeft (drop_yoinked k)))
      | None \<Rightarrow> Done k)"

fun print_bytes :: "bytes \<Rightarrow> color \<Rightarrow> color \<Rightarrow> 'a vga_scheme \<Rightarrow> 'a vga_scheme run" where
  "print_bytes [] fg bg k = Done k"
| "print_bytes (b # bs) fg bg k = andThen (write_char b fg bg k) (print_bytes bs fg bg)"

definition str_bytes :: "string \<Rightarrow> bytes" where
  "str_bytes s = map (\<lambda>c. of_nat (of_char c)) s"

definition print_args :: "string \<Rightarrow> color \<Rightarrow> color \<Rightarrow> 'a vga_scheme \<Rightarrow> 'a vga_scheme run" where
  "print_args s fg bg = print_bytes (str_bytes s) fg bg"

definition nl_str :: string where "nl_str = [CHR 0x0A]"

definition print :: "string \<Rightarrow> 'a vga_scheme \<Rightarrow> 'a vga_scheme run" where
  "print s = print_args s White Black"

definition println :: "color \<Rightarrow> string \<Rightarrow> 'a vga_scheme \<Rightarrow> 'a vga_scheme run" where
  "println fg s = print_args (s @ nl_str) fg Black"

section \<open>Top level\<close>

definition vga_init :: "'a vga_scheme \<Rightarrow> ('e exit_code \<times> 'a vga_scheme) run" where
  "vga_init k =
     (let k = clear (k\<lparr>buffer_connected := True\<rparr>)
      in andThen (print (nl_str @ ''Hello, '') k)
           (\<lambda>k. andThen (println LightCyan (''Sunflower!'' @ nl_str) k) (\<lambda>k. Done (ExInfallible, k))))"

text \<open>\<^verbatim>\<open>{:#w}\<close> on a string: padded with spaces on the right to \<open>w\<close> characters.\<close>

definition pad_right :: "nat \<Rightarrow> string \<Rightarrow> string" where
  "pad_right w s = s @ replicate (w - length s) (CHR '' '')"

definition topbar_text :: "env \<Rightarrow> string" where
  "topbar_text E =
     ''                  | Sunflower '' @ pad_right 6 (sfk_version E)
     @ '' | Help: SysRq / PrntScr F7 | '' @ pad_right 14 (patch_quote E)"

definition draw_topbar :: "env \<Rightarrow> 'a vga_scheme \<Rightarrow> 'a vga_scheme run" where
  "draw_topbar E k =
     (let (prev_row, prev_col) = row_col k;
          k = k\<lparr>ALLOW_ROW_0 := True\<rparr>;
          k = set_col 0 (set_row 0 k)
      in andThen (print_args (topbar_text E) Black LightGrey k)
           (\<lambda>k. let k = k\<lparr>ALLOW_ROW_0 := False\<rparr> in Done (set_col prev_col (set_row prev_row k))))"

section \<open>Invariant\<close>

lemmas dim_defs = BUFFER_WIDTH_def BUFFER_HEIGHT_def

definition buf_ok :: "raw_buffer \<Rightarrow> bool" where
  "buf_ok b \<longleftrightarrow> length b = 25 \<and> (\<forall>r\<in>set b. length r = 80)"

definition vga_ok :: "'a vga_scheme \<Rightarrow> bool" where
  "vga_ok k \<longleftrightarrow> buf_ok (vga_memory k) \<and> buf_ok (boot_buffer k) \<and> buf_ok (ALT k) \<and> buf_ok (TMP k)
     \<and> CURSOR_row k < 25 \<and> CURSOR_column k < 80"

text \<open>The cursor is off the top bar's row.\<close>

definition below_topbar :: "'a vga_scheme \<Rightarrow> bool" where
  "below_topbar k \<longleftrightarrow> \<not> ALLOW_ROW_0 k \<and> 0 < CURSOR_row k"

lemma buf_ok_row: "buf_ok b \<Longrightarrow> r < 25 \<Longrightarrow> length (b ! r) = 80"
  by (simp add: buf_ok_def)

lemma buf_ok_update: "buf_ok b \<Longrightarrow> length row = 80 \<Longrightarrow> buf_ok (b[r := row])"
  by (auto simp: buf_ok_def dest!: set_update_subset_insert [THEN subsetD])

lemma buf_ok_empty [simp]: "buf_ok empty_buffer"
  by (simp add: buf_ok_def empty_buffer_def dim_defs)

lemma buf_ok_BUFFER: "vga_ok k \<Longrightarrow> buf_ok (BUFFER k)"
  by (simp add: vga_ok_def BUFFER_def)

lemma vga_ok_set_BUFFER: "vga_ok k \<Longrightarrow> buf_ok b \<Longrightarrow> vga_ok (set_BUFFER b k)"
  by (simp add: vga_ok_def set_BUFFER_def)

lemma BUFFER_set_BUFFER [simp]: "BUFFER (set_BUFFER b k) = b"
  by (simp add: BUFFER_def set_BUFFER_def)

lemma set_BUFFER_same: "set_BUFFER (BUFFER k) k = k"
  by (simp add: BUFFER_def set_BUFFER_def)

lemma set_BUFFER_twice [simp]: "set_BUFFER b (set_BUFFER c k) = set_BUFFER b k"
  by (simp add: set_BUFFER_def)

text \<open>Which fields the buffer operations leave alone.\<close>

lemma set_BUFFER_frame [simp]:
  "CURSOR_row (set_BUFFER b k) = CURSOR_row k" "CURSOR_column (set_BUFFER b k) = CURSOR_column k"
  "ALLOW_ROW_0 (set_BUFFER b k) = ALLOW_ROW_0 k" "BUFFER_HELD (set_BUFFER b k) = BUFFER_HELD k"
  "ALT (set_BUFFER b k) = ALT k" "TMP (set_BUFFER b k) = TMP k"
  "buffer_connected (set_BUFFER b k) = buffer_connected k" "machine.io_log (set_BUFFER b k) = io_log k"
  "vga.more (set_BUFFER b k) = vga.more k"
  "machine_flags (set_BUFFER b k) = machine_flags k"
  by (simp_all add: set_BUFFER_def machine_flags_def)

lemma machine_flags_upd [simp]:
  "machine_flags (k\<lparr>BUFFER_HELD := h\<rparr>) = machine_flags k" "machine_flags (k\<lparr>CURSOR_row := r\<rparr>) = machine_flags k"
  "machine_flags (k\<lparr>CURSOR_column := c\<rparr>) = machine_flags k" "machine_flags (k\<lparr>ALLOW_ROW_0 := a\<rparr>) = machine_flags k"
  by (simp_all add: machine_flags_def)

lemma BUFFER_frame [simp]:
  "BUFFER (k\<lparr>BUFFER_HELD := h\<rparr>) = BUFFER k" "BUFFER (k\<lparr>CURSOR_row := r\<rparr>) = BUFFER k"
  "BUFFER (k\<lparr>CURSOR_column := c\<rparr>) = BUFFER k" "BUFFER (k\<lparr>ALLOW_ROW_0 := a\<rparr>) = BUFFER k"
  "BUFFER (k\<lparr>ALT := x\<rparr>) = BUFFER k" "BUFFER (k\<lparr>TMP := x\<rparr>) = BUFFER k"
  "BUFFER (k\<lparr>io_log := l\<rparr>) = BUFFER k"
  by (simp_all add: BUFFER_def)

subsection \<open>Cursor\<close>

lemma clamp_bounds:
  "CURSOR_row (clamp_row_col k) < 25" "CURSOR_column (clamp_row_col k) < 80"
  "\<not> ALLOW_ROW_0 k \<Longrightarrow> 0 < CURSOR_row (clamp_row_col k)"
  by (auto simp: clamp_row_col_def row_col_def dim_defs min_def max_def Let_def word_le_nat_alt word_less_nat_alt)

lemma clamp_id: "CURSOR_row k < 25 \<Longrightarrow> CURSOR_column k < 80 \<Longrightarrow> ALLOW_ROW_0 k \<or> 0 < CURSOR_row k \<Longrightarrow>
   clamp_row_col k = k"
  by (cases k) (auto simp: clamp_row_col_def row_col_def dim_defs min_def max_def word_le_nat_alt word_less_nat_alt)

lemma clamp_frame [simp]:
  "BUFFER (clamp_row_col k) = BUFFER k" "ALLOW_ROW_0 (clamp_row_col k) = ALLOW_ROW_0 k"
  "BUFFER_HELD (clamp_row_col k) = BUFFER_HELD k" "ALT (clamp_row_col k) = ALT k"
  "vga_memory (clamp_row_col k) = vga_memory k" "boot_buffer (clamp_row_col k) = boot_buffer k"
  "TMP (clamp_row_col k) = TMP k" "buffer_connected (clamp_row_col k) = buffer_connected k"
  "io_log (clamp_row_col k) = io_log k" "vga.more (clamp_row_col k) = vga.more k"
  "machine_flags (clamp_row_col k) = machine_flags k"
  by (simp_all add: clamp_row_col_def row_col_def Let_def)

definition bufs_ok :: "'a vga_scheme \<Rightarrow> bool" where
  "bufs_ok k \<longleftrightarrow> buf_ok (vga_memory k) \<and> buf_ok (boot_buffer k) \<and> buf_ok (ALT k) \<and> buf_ok (TMP k)"

lemma vga_ok_clamp: "bufs_ok k \<Longrightarrow> vga_ok (clamp_row_col k)"
  using clamp_bounds by (auto simp: vga_ok_def bufs_ok_def)

lemma vga_ok_bufs: "vga_ok k \<Longrightarrow> bufs_ok k"
  by (simp add: vga_ok_def bufs_ok_def)

text \<open>Every cursor movement ends in range, and off the top bar unless that row is allowed.\<close>

lemma vga_ok_set_col: "bufs_ok k \<Longrightarrow> vga_ok (set_col c k)"
  by (simp add: set_col_def vga_ok_clamp bufs_ok_def)

lemma vga_ok_set_row: "bufs_ok k \<Longrightarrow> vga_ok (set_row r k)"
  by (simp add: set_row_def vga_ok_clamp bufs_ok_def)

lemma set_row_frame [simp]:
  "BUFFER (set_row r k) = BUFFER k" "ALLOW_ROW_0 (set_row r k) = ALLOW_ROW_0 k"
  "BUFFER_HELD (set_row r k) = BUFFER_HELD k" "vga.more (set_row r k) = vga.more k"
  "io_log (set_row r k) = io_log k" "ALT (set_row r k) = ALT k"
  "buffer_connected (set_row r k) = buffer_connected k" "machine_flags (set_row r k) = machine_flags k"
  by (simp_all add: set_row_def)

lemma set_col_frame [simp]:
  "BUFFER (set_col r k) = BUFFER k" "ALLOW_ROW_0 (set_col r k) = ALLOW_ROW_0 k"
  "BUFFER_HELD (set_col r k) = BUFFER_HELD k" "vga.more (set_col r k) = vga.more k"
  "io_log (set_col r k) = io_log k" "ALT (set_col r k) = ALT k"
  "buffer_connected (set_col r k) = buffer_connected k" "machine_flags (set_col r k) = machine_flags k"
  by (simp_all add: set_col_def)

lemma set_row_below: "\<not> ALLOW_ROW_0 k \<Longrightarrow> below_topbar (set_row r k)"
  using clamp_bounds(3) [of "k\<lparr>CURSOR_row := r\<rparr>"] by (simp add: set_row_def below_topbar_def)

lemma set_col_below: "\<not> ALLOW_ROW_0 k \<Longrightarrow> below_topbar (set_col c k)"
  using clamp_bounds(3) [of "k\<lparr>CURSOR_column := c\<rparr>"] by (simp add: set_col_def below_topbar_def)

lemma set_col_in_range:
  "CURSOR_row k < 25 \<Longrightarrow> c < 80 \<Longrightarrow> ALLOW_ROW_0 k \<or> 0 < CURSOR_row k \<Longrightarrow> set_col c k = k\<lparr>CURSOR_column := c\<rparr>"
  by (simp add: set_col_def clamp_id)

lemma set_row_in_range:
  "CURSOR_column k < 80 \<Longrightarrow> r < 25 \<Longrightarrow> ALLOW_ROW_0 k \<or> 0 < r \<Longrightarrow> set_row r k = k\<lparr>CURSOR_row := r\<rparr>"
  by (simp add: set_row_def clamp_id)

subsection \<open>Scrolling\<close>

lemma shift_rows_nth:
  assumes "n < length b"
  shows "length (fold (\<lambda>row buf. buf[row := buf ! (row + 1)]) [t..<n] b) = length b
    \<and> (\<forall>i < length b. fold (\<lambda>row buf. buf[row := buf ! (row + 1)]) [t..<n] b ! i
          = (if t \<le> i \<and> i < n then b ! (i + 1) else b ! i))"
  using assms
proof (induction n)
  case (Suc n)
  show ?case
  proof (cases "t \<le> n")
    case True
    then show ?thesis using Suc by (auto simp: nth_list_update less_Suc_eq)
  qed (use Suc in auto)
qed simp

lemma blank_row:
  "h < length b \<Longrightarrow> m \<le> length (b ! h) \<Longrightarrow>
   fold (\<lambda>col buf. buf[h := (buf ! h)[col := x]]) [0..<m] b = b[h := replicate m x @ drop m (b ! h)]"
proof (induction m)
  case (Suc m)
  have "(replicate m x @ drop m (b ! h))[m := x] = replicate (Suc m) x @ drop (Suc m) (b ! h)"
    using Suc.prems(2)
    by (simp add: list_update_append Cons_nth_drop_Suc [symmetric] replicate_append_same)
  with Suc show ?case by simp
qed simp

lemma scroll_eq:
  assumes "buf_ok b" and "tr \<le> 24"
  shows "scroll tr b = take tr b @ drop (Suc tr) b @ [replicate 80 SPACE]"
proof -
  let ?s = "fold (\<lambda>row buf. buf[row := buf ! (row + 1)]) [tr..<24] b"
  have len: "length b = 25" using assms(1) by (simp add: buf_ok_def)
  note s = shift_rows_nth [of 24 b tr, unfolded len, simplified]
  have "length (?s ! 24) = 80" using s buf_ok_row [OF assms(1), of 24] by simp
  then have "scroll tr b = ?s[24 := replicate 80 SPACE]"
    using s blank_row [of 24 ?s 80 SPACE] by (simp add: scroll_def dim_defs)
  also have "\<dots> = take tr b @ drop (Suc tr) b @ [replicate 80 SPACE]"
  proof (rule nth_equalityI)
    show "length (?s[24 := replicate 80 SPACE]) = length (take tr b @ drop (Suc tr) b @ [replicate 80 SPACE])"
      using s len assms(2) by auto
    fix i assume "i < length (?s[24 := replicate 80 SPACE])"
    then have "i < 25" using s by simp
    then show "?s[24 := replicate 80 SPACE] ! i = (take tr b @ drop (Suc tr) b @ [replicate 80 SPACE]) ! i"
      using s len assms(2) by (auto simp: nth_list_update nth_append min_def)
  qed
  finally show ?thesis .
qed

lemma scroll_ok: "buf_ok b \<Longrightarrow> tr \<le> 24 \<Longrightarrow> buf_ok (scroll tr b)"
  by (auto simp: scroll_eq buf_ok_def dest: in_set_takeD in_set_dropD)

lemma scroll_row_0: "buf_ok b \<Longrightarrow> scroll 1 b ! 0 = b ! 0"
  by (simp add: scroll_eq nth_append buf_ok_def)

subsection \<open>Printing keeps the invariant\<close>

text \<open>What printing one more character may do to the state.\<close>

definition print_step :: "'a vga_scheme \<Rightarrow> 'a vga_scheme \<Rightarrow> bool" where
  "print_step k k' \<longleftrightarrow> vga_ok k' \<and> BUFFER_HELD k' = BUFFER_HELD k \<and> ALLOW_ROW_0 k' = ALLOW_ROW_0 k
     \<and> vga.more k' = vga.more k \<and> io_log k' = io_log k \<and> ALT k' = ALT k
     \<and> buffer_connected k' = buffer_connected k \<and> machine_flags k' = machine_flags k
     \<and> (below_topbar k \<longrightarrow> below_topbar k' \<and> BUFFER k' ! 0 = BUFFER k ! 0)"

lemma print_step_refl: "vga_ok k \<Longrightarrow> print_step k k"
  by (simp add: print_step_def)

lemma print_step_trans: "print_step a b \<Longrightarrow> print_step b c \<Longrightarrow> print_step a c"
  by (auto simp: print_step_def)

lemma print_step_ok: "print_step a b \<Longrightarrow> vga_ok b"
  by (simp add: print_step_def)

lemma newline_step:
  assumes "vga_ok k" shows "print_step k (newline k)"
proof (cases "BUFFER_HELD k")
  case True
  then show ?thesis using assms by (simp add: newline_def try_yoink_def print_step_refl)
next
  case False
  let ?k1 = "set_col 0 (k\<lparr>BUFFER_HELD := True\<rparr>)"
  have b: "bufs_ok (k\<lparr>BUFFER_HELD := True\<rparr>)" using assms by (simp add: vga_ok_def bufs_ok_def)
  then have k1: "vga_ok ?k1" by (rule vga_ok_set_col)
  have B: "buf_ok (BUFFER k)" using assms by (rule buf_ok_BUFFER)
  have below: "below_topbar ?k1" if "below_topbar k"
    using that by (intro set_col_below) (simp add: below_topbar_def)
  show ?thesis
  proof (cases "BUFFER_HEIGHT - 1 \<le> CURSOR_row k")
    case True
    let ?k2 = "set_BUFFER (scroll (if ALLOW_ROW_0 k then 0 else 1) (BUFFER k)) ?k1"
    have "newline k = drop_yoinked ?k2"
      using False True by (simp add: newline_def try_yoink_def row_col_def)
    moreover have "vga_ok ?k2" using k1 B by (auto intro!: vga_ok_set_BUFFER scroll_ok)
    ultimately show ?thesis
      using False below B scroll_row_0 [OF B]
      by (auto simp: print_step_def drop_yoinked_def vga_ok_def below_topbar_def)
  next
    case r: False
    let ?k2 = "set_row (CURSOR_row k + 1) ?k1"
    have "newline k = drop_yoinked ?k2"
      using False r by (simp add: newline_def try_yoink_def row_col_def)
    moreover have "vga_ok ?k2" using vga_ok_bufs [OF k1] by (rule vga_ok_set_row)
    moreover have "below_topbar ?k2" if "below_topbar k"
      using that by (intro set_row_below) (simp add: below_topbar_def)
    ultimately show ?thesis
      using False by (auto simp: print_step_def drop_yoinked_def vga_ok_def below_topbar_def)
  qed
qed

lemma buffer_store_done:
  assumes "vga_ok k" and "r < 25" and "c < 80"
  shows "buffer_store r c v k = Done (set_BUFFER ((BUFFER k)[r := (BUFFER k ! r)[c := v]]) k)"
  using buf_ok_BUFFER [OF assms(1)] buf_ok_row [of "BUFFER k" r] assms(2,3)
  by (simp add: buffer_store_def buf_ok_def Let_def)

lemma vga_ok_held [simp]: "vga_ok (k\<lparr>BUFFER_HELD := h\<rparr>) = vga_ok k"
  by (simp add: vga_ok_def)

lemma vga_ok_store:
  assumes "vga_ok k" and "r < 25"
  shows "vga_ok (set_BUFFER ((BUFFER k)[r := (BUFFER k ! r)[c := v]]) k)"
  using assms buf_ok_BUFFER [OF assms(1)]
  by (intro vga_ok_set_BUFFER buf_ok_update) (auto simp: buf_ok_row)

lemma cursor_nat: "vga_ok k \<Longrightarrow> unat (CURSOR_row k) < 25 \<and> unat (CURSOR_column k) < 80"
  by (simp add: vga_ok_def word_less_nat_alt)

lemma put_char_step:
  assumes "vga_ok k"
  shows "\<exists>k'. (case try_yoink k of
        Some k \<Rightarrow> andThen (buffer_store (unat (CURSOR_row k)) (unat (CURSOR_column k)) v k) (\<lambda>k. Done (drop_yoinked k))
      | None \<Rightarrow> Done k) = Done k' \<and> print_step k k'"
proof (cases "BUFFER_HELD k")
  case True
  then show ?thesis using assms by (simp add: try_yoink_def print_step_refl)
next
  case False
  let ?k = "k\<lparr>BUFFER_HELD := True\<rparr>"
  let ?k2 = "set_BUFFER ((BUFFER k)[unat (CURSOR_row k) := (BUFFER k ! unat (CURSOR_row k))[unat (CURSOR_column k) := v]]) ?k"
  have r: "unat (CURSOR_row k) < 25" "unat (CURSOR_column k) < 80" using cursor_nat [OF assms] by auto
  have st: "buffer_store (unat (CURSOR_row ?k)) (unat (CURSOR_column ?k)) v ?k = Done ?k2"
    using buffer_store_done [of ?k "unat (CURSOR_row k)" "unat (CURSOR_column k)" v] assms r by simp
  have "vga_ok ?k2" using vga_ok_store [of ?k "unat (CURSOR_row k)" "unat (CURSOR_column k)" v] assms r by simp
  then have "print_step k (drop_yoinked ?k2)"
    using False by (auto simp: print_step_def drop_yoinked_def vga_ok_def below_topbar_def unat_eq_zero nth_list_update)
  then show ?thesis using False st by (auto simp: try_yoink_def)
qed

lemma write_char_step:
  assumes "vga_ok k"
  shows "\<exists>k'. write_char b fg bg k = Done k' \<and> print_step k k'"
proof (cases "b = 10")
  case True
  then show ?thesis using newline_step [OF assms] by (simp add: write_char_def)
next
  case False
  obtain k1 where k1: "(case try_yoink k of
        Some k \<Rightarrow> andThen (buffer_store (unat (CURSOR_row k)) (unat (CURSOR_column k)) (vga_char_new b fg bg) k)
                    (\<lambda>k. Done (drop_yoinked k))
      | None \<Rightarrow> Done k) = Done k1" "print_step k k1"
    using put_char_step [OF assms] by blast
  have yo: "try_yoink k = Some k2 \<Longrightarrow> CURSOR_row k2 = CURSOR_row k \<and> CURSOR_column k2 = CURSOR_column k" for k2
    by (auto simp: try_yoink_def split: if_splits)
  have run: "write_char b fg bg k
      = Done (if BUFFER_WIDTH - 1 \<le> CURSOR_column k then newline k1 else set_col (CURSOR_column k + 1) k1)"
    using False k1(1) yo by (auto simp: write_char_def row_col_def split: option.splits)
  have "print_step k1 (set_col c k1)" for c
    using vga_ok_set_col [OF vga_ok_bufs [OF print_step_ok [OF k1(2)]], of c] set_col_below [of k1 c]
    by (auto simp: print_step_def below_topbar_def)
  with run newline_step [OF print_step_ok [OF k1(2)]] k1(2) show ?thesis
    by (auto intro: print_step_trans)
qed

lemma print_bytes_step:
  "vga_ok k \<Longrightarrow> \<exists>k'. print_bytes bs fg bg k = Done k' \<and> print_step k k'"
proof (induction bs arbitrary: k)
  case (Cons b bs)
  obtain k1 where k1: "write_char b fg bg k = Done k1" "print_step k k1"
    using write_char_step [OF Cons.prems] by blast
  with Cons.IH [OF print_step_ok [OF k1(2)]] show ?case by (auto intro: print_step_trans)
qed (simp add: print_step_refl)

lemma print_args_step:
  "vga_ok k \<Longrightarrow> \<exists>k'. print_args s fg bg k = Done k' \<and> print_step k k'"
  by (simp add: print_args_def print_bytes_step)

text \<open>
  C19: printing any text never panics and keeps the buffers' dimensions and the cursor inside the
  screen; it releases the buffer if it was free, keeps everything outside the VGA driver, and as long
  as row 0 is not allowed and the cursor is below it, neither the text printed nor the
  scrolling it causes changes the top bar.
\<close>

theorem print_is_safe:
  assumes "vga_ok k"
  shows "\<exists>k'. print_args s fg bg k = Done k' \<and> vga_ok k' \<and> BUFFER_HELD k' = BUFFER_HELD k
    \<and> io_log k' = io_log k \<and> machine_flags k' = machine_flags k \<and> vga.more k' = vga.more k
    \<and> (below_topbar k \<longrightarrow> below_topbar k' \<and> BUFFER k' ! 0 = BUFFER k ! 0)"
proof -
  obtain k' where "print_args s fg bg k = Done k'" "print_step k k'"
    using print_args_step [OF assms] by blast
  then show ?thesis by (auto simp: print_step_def)
qed

definition cleared_vga :: vga where
  "cleared_vga = \<lparr>io_log = [], ints_on = False, INTERRUPT_DEPTH = 0, GDT_INIT = False, PIC_INIT = False,
     PIT_INIT = False, KBD_INIT = False, FLOPPY_INIT = False, RTC_IRQ_INIT = False,
     vga_memory = empty_buffer, boot_buffer = empty_buffer, buffer_connected = True,
     BUFFER_HELD = False, ALT = empty_buffer, TMP = empty_buffer, CURSOR_row = 1, CURSOR_column = 0,
     ALLOW_ROW_0 = False\<rparr>"

lemma cleared_vga_ok [simp]: "vga_ok cleared_vga" "below_topbar cleared_vga" "\<not> BUFFER_HELD cleared_vga"
  by (simp_all add: cleared_vga_def vga_ok_def below_topbar_def)

theorem print_is_safe_witness:
  "\<exists>k'. print_args ''Hello'' White Black cleared_vga = Done k' \<and> vga_ok k' \<and> BUFFER k' ! 0 = BUFFER cleared_vga ! 0"
  using print_is_safe [OF cleared_vga_ok(1), of "''Hello''" White Black] cleared_vga_ok(2) by blast

subsection \<open>What is printed\<close>

lemma set_BUFFER_upd [simp]:
  "(set_BUFFER b k)\<lparr>BUFFER_HELD := h\<rparr> = set_BUFFER b (k\<lparr>BUFFER_HELD := h\<rparr>)"
  "(set_BUFFER b k)\<lparr>CURSOR_column := c\<rparr> = set_BUFFER b (k\<lparr>CURSOR_column := c\<rparr>)"
  "(set_BUFFER b k)\<lparr>CURSOR_row := r\<rparr> = set_BUFFER b (k\<lparr>CURSOR_row := r\<rparr>)"
  "(set_BUFFER b k)\<lparr>ALLOW_ROW_0 := a\<rparr> = set_BUFFER b (k\<lparr>ALLOW_ROW_0 := a\<rparr>)"
  by (simp_all add: set_BUFFER_def)

text \<open>The cursor's row may be printed on.\<close>

definition row_usable :: "'a vga_scheme \<Rightarrow> bool" where
  "row_usable k \<longleftrightarrow> vga_ok k \<and> \<not> BUFFER_HELD k \<and> (ALLOW_ROW_0 k \<or> 0 < CURSOR_row k)"

abbreviation put_at :: "'a vga_scheme \<Rightarrow> nat \<Rightarrow> nat \<Rightarrow> vga_char \<Rightarrow> raw_buffer" where
  "put_at k r c v \<equiv> (BUFFER k)[r := (BUFFER k ! r)[c := v]]"

lemma held_same: "\<not> BUFFER_HELD k \<Longrightarrow> k\<lparr>BUFFER_HELD := False\<rparr> = k"
  by (cases k) simp

lemma col_succ: "c < 79 \<Longrightarrow> unat (c + 1 :: u8) = Suc (unat c)"
  by (simp add: unat_word_ariths word_less_nat_alt)

lemma vga_ok_column: "vga_ok k \<Longrightarrow> c < 80 \<Longrightarrow> vga_ok (k\<lparr>CURSOR_column := c\<rparr>)"
  by (simp add: vga_ok_def)

lemma write_char_eq:
  assumes "row_usable k" and "b \<noteq> 10"
  shows "write_char b fg bg k =
    (let k' = set_BUFFER (put_at k (unat (CURSOR_row k)) (unat (CURSOR_column k)) (vga_char_new b fg bg)) k
     in Done (if CURSOR_column k < 79 then k'\<lparr>CURSOR_column := CURSOR_column k + 1\<rparr> else newline k'))"
proof -
  have ok: "vga_ok (k\<lparr>BUFFER_HELD := True\<rparr>)" and free: "\<not> BUFFER_HELD k"
    using assms(1) by (simp_all add: row_usable_def)
  have r: "unat (CURSOR_row k) < 25" "unat (CURSOR_column k) < 80"
    using cursor_nat assms(1) by (auto simp: row_usable_def)
  let ?k' = "set_BUFFER (put_at k (unat (CURSOR_row k)) (unat (CURSOR_column k)) (vga_char_new b fg bg)) k"
  have st: "buffer_store (unat (CURSOR_row k)) (unat (CURSOR_column k)) (vga_char_new b fg bg) (k\<lparr>BUFFER_HELD := True\<rparr>)
      = Done (?k'\<lparr>BUFFER_HELD := True\<rparr>)"
    using buffer_store_done [OF ok r] by simp
  have col: "set_col (CURSOR_column k + 1) ?k' = ?k'\<lparr>CURSOR_column := CURSOR_column k + 1\<rparr>" if "CURSOR_column k < 79"
  proof (rule set_col_in_range)
    show "CURSOR_row ?k' < 25" using assms(1) by (simp add: row_usable_def vga_ok_def)
    show "CURSOR_column k + 1 < 80"
      using that col_succ [OF that] by (simp add: word_less_nat_alt)
    show "ALLOW_ROW_0 ?k' \<or> 0 < CURSOR_row ?k'" using assms(1) by (simp add: row_usable_def)
  qed
  have nl: "79 \<le> CURSOR_column k \<longleftrightarrow> \<not> CURSOR_column k < 79" by auto
  show ?thesis
    using assms(2) free st col
    by (simp add: write_char_def row_col_def try_yoink_def drop_yoinked_def held_same dim_defs nl Let_def)
qed

lemma put_chars_Cons:
  assumes "c + length cs < length row"
  shows "(row[c := x])[c := y] = row[c := y]"
    and "take (Suc c) (row[c := x]) @ cs @ drop (Suc c + length cs) (row[c := x])
         = take c row @ (x # cs) @ drop (c + length (x # cs)) row"
  using assms by (simp_all add: take_Suc_conv_app_nth)

lemma set_BUFFER_cong: "b = c \<Longrightarrow> set_BUFFER b k = set_BUFFER c k"
  by simp

lemma print_in_row:
  assumes "row_usable k" and "10 \<notin> set bs" and "unat (CURSOR_column k) + length bs < 80"
  shows "print_bytes bs fg bg k = Done (set_BUFFER
     ((BUFFER k)[unat (CURSOR_row k) :=
        (let row = BUFFER k ! unat (CURSOR_row k); c = unat (CURSOR_column k)
         in take c row @ map (\<lambda>b. vga_char_new b fg bg) bs @ drop (c + length bs) row)])
     (k\<lparr>CURSOR_column := CURSOR_column k + of_nat (length bs)\<rparr>))"
  using assms
proof (induction bs arbitrary: k)
  case Nil
  then show ?case by (simp add: set_BUFFER_same)
next
  case (Cons b bs)
  let ?r = "unat (CURSOR_row k)" and ?c = "unat (CURSOR_column k)" and ?x = "vga_char_new b fg bg"
  let ?k' = "set_BUFFER (put_at k ?r ?c ?x) (k\<lparr>CURSOR_column := CURSOR_column k + 1\<rparr>)"
  have ok: "vga_ok k" using Cons.prems(1) by (simp add: row_usable_def)
  have r: "?r < 25" "?c < 80" using cursor_nat [OF ok] by auto
  have c79: "CURSOR_column k < 79" using Cons.prems(3) by (simp add: word_less_nat_alt)
  then have c1: "unat (CURSOR_column k + 1) = Suc ?c" by (rule col_succ)
  have w: "write_char b fg bg k = Done ?k'"
    using write_char_eq [OF Cons.prems(1), of b fg bg] Cons.prems(2) c79 by (simp add: Let_def)
  have u: "row_usable ?k'"
    using Cons.prems(1) c79 c1 vga_ok_store [OF vga_ok_column [OF ok] r(1), of "CURSOR_column k + 1" ?c ?x]
    by (simp add: row_usable_def word_less_nat_alt)
  have len: "length (BUFFER k ! ?r) = 80" "length (BUFFER k) = 25"
    using buf_ok_BUFFER [OF ok] r buf_ok_row by (auto simp: buf_ok_def)
  note IH = Cons.IH [OF u]
  show ?case
    using IH w Cons.prems(2,3) c1 len r put_chars_Cons(2) [of ?c "map (\<lambda>b. vga_char_new b fg bg) bs" "BUFFER k ! ?r" ?x]
    by (simp add: Let_def algebra_simps)
qed

lemma newline_next_row:
  assumes "row_usable k" and "CURSOR_row k < 24"
  shows "newline k = k\<lparr>CURSOR_row := CURSOR_row k + 1, CURSOR_column := 0\<rparr>"
proof -
  have r1: "unat (CURSOR_row k + 1) = Suc (unat (CURSOR_row k))"
    using assms(2) by (simp add: unat_word_ariths word_less_nat_alt)
  let ?k = "k\<lparr>BUFFER_HELD := True\<rparr>"
  have ok: "CURSOR_row k < 25" "ALLOW_ROW_0 k \<or> 0 < CURSOR_row k" "\<not> BUFFER_HELD k"
    using assms(1) by (auto simp: row_usable_def vga_ok_def)
  have 1: "set_col 0 ?k = ?k\<lparr>CURSOR_column := 0\<rparr>" using ok by (intro set_col_in_range) simp_all
  have 2: "set_row (CURSOR_row k + 1) (?k\<lparr>CURSOR_column := 0\<rparr>) = ?k\<lparr>CURSOR_column := 0, CURSOR_row := CURSOR_row k + 1\<rparr>"
    using ok r1 assms(2) by (intro set_row_in_range) (simp_all add: word_less_nat_alt)
  have "\<not> 24 \<le> CURSOR_row k" using assms(2) by simp
  then show ?thesis
    using ok 1 2 by (cases k) (simp add: newline_def try_yoink_def row_col_def drop_yoinked_def dim_defs)
qed

lemma print_bytes_append:
  fixes k :: "'a vga_scheme"
  shows "print_bytes (as @ bs) fg bg k = andThen (print_bytes as fg bg k) (print_bytes bs fg bg)"
proof (induction as arbitrary: k)
  case (Cons a as)
  then have "print_bytes (as @ bs) fg bg = (\<lambda>k :: 'a vga_scheme. andThen (print_bytes as fg bg k) (print_bytes bs fg bg))"
    by (simp add: fun_eq_iff)
  then show ?case by (simp add: andThen_assoc)
qed simp

text \<open>Filling a row to its end moves the cursor to the start of the next one.\<close>

lemma print_full_row:
  assumes "row_usable k" and "10 \<notin> set bs" and "CURSOR_column k = 0" and "length bs = 80" and "CURSOR_row k < 24"
  shows "print_bytes bs fg bg k =
    Done (set_BUFFER ((BUFFER k)[unat (CURSOR_row k) := map (\<lambda>b. vga_char_new b fg bg) bs])
            (k\<lparr>CURSOR_row := CURSOR_row k + 1\<rparr>))"
proof -
  let ?r = "unat (CURSOR_row k)" and ?f = "\<lambda>b. vga_char_new b fg bg"
  define as where "as = butlast bs"
  define b where "b = last bs"
  have bs: "bs = as @ [b]" "length as = 79"
    using assms(4) append_butlast_last_id [of bs] by (fastforce simp: as_def b_def)+
  have ok: "vga_ok k" using assms(1) by (simp add: row_usable_def)
  have r: "?r < 25" using cursor_nat [OF ok] by simp
  have len: "length (BUFFER k ! ?r) = 80" "length (BUFFER k) = 25"
    using buf_ok_BUFFER [OF ok] r buf_ok_row by (auto simp: buf_ok_def)
  let ?k1 = "set_BUFFER ((BUFFER k)[?r := map ?f as @ drop 79 (BUFFER k ! ?r)]) (k\<lparr>CURSOR_column := 79\<rparr>)"
  have p1: "print_bytes as fg bg k = Done ?k1"
    using print_in_row [OF assms(1), of as fg bg] assms(2,3) bs by (simp add: Let_def)
  let ?row = "map ?f as @ drop 79 (BUFFER k ! ?r)"
  have "buf_ok ((BUFFER k)[?r := ?row])"
    using buf_ok_BUFFER [OF ok] len bs by (intro buf_ok_update) simp_all
  then have u1: "row_usable ?k1"
    using assms(1) vga_ok_set_BUFFER [of "k\<lparr>CURSOR_column := 79\<rparr>"] vga_ok_column [OF ok, of 79]
    by (simp add: row_usable_def)
  have "drop 79 (BUFFER k ! ?r) = [BUFFER k ! ?r ! 79]"
    using len Cons_nth_drop_Suc [of 79 "BUFFER k ! ?r"] by simp
  then have row: "?row[79 := ?f b] = map ?f bs" using bs by (simp add: list_update_append)
  let ?k2 = "set_BUFFER ((BUFFER k)[?r := map ?f bs]) (k\<lparr>CURSOR_column := 79\<rparr>)"
  have "write_char b fg bg ?k1 = Done (newline ?k2)"
    using write_char_eq [OF u1, of b fg bg] assms(2) bs row len r by (simp add: Let_def)
  moreover have "row_usable ?k2"
  proof -
    have "buf_ok ((BUFFER k)[?r := map ?f bs])"
      using buf_ok_BUFFER [OF ok] assms(4) by (intro buf_ok_update) simp_all
    then show ?thesis
      using assms(1) vga_ok_set_BUFFER [of "k\<lparr>CURSOR_column := 79\<rparr>"] vga_ok_column [OF ok, of 79]
      by (simp add: row_usable_def)
  qed
  moreover have "k\<lparr>CURSOR_row := x, CURSOR_column := 0\<rparr> = k\<lparr>CURSOR_row := x\<rparr>" for x
    using assms(3) by (cases k) simp
  ultimately show ?thesis
    using p1 newline_next_row [of ?k2] assms(5) by (simp add: bs(1) print_bytes_append)
qed

lemma length_pad_right: "length (pad_right w s) = max w (length s)"
  by (simp add: pad_right_def)

lemma set_pad_right: "CHR 0x0A \<in> set (pad_right w s) \<longleftrightarrow> CHR 0x0A \<in> set s"
  by (auto simp: pad_right_def)

lemma newline_byte: "10 \<in> set (str_bytes s) \<longleftrightarrow> CHR 0x0A \<in> set s"
proof -
  have "(of_nat (of_char c) :: u8) = 10 \<longleftrightarrow> c = CHR 0x0A" for c :: char
  proof
    assume "(of_nat (of_char c) :: u8) = 10"
    then have "(of_char c :: nat) mod 256 = 10" by (simp add: word_unat_eq_iff unat_of_nat)
    moreover have "(of_char c :: nat) < 256" by simp
    ultimately have "(of_char c :: nat) = 10" by simp
    then show "c = CHR 0x0A" using char_of_char [of c, where 'a = nat] by (auto simp: char_of_def bit_0)
  qed simp
  then show ?thesis by (force simp: str_bytes_def image_iff)
qed

text \<open>
  with a version of at most six and a quote of at most fourteen characters the top bar is
  exactly one row wide: drawing it replaces row 0 by its text, black on light grey, and leaves
  every other row, the cursor and all other state as they were.
\<close>

theorem draw_topbar_fills_row_0:
  assumes "vga_ok k" and "\<not> BUFFER_HELD k" and "below_topbar k"
    and "length (sfk_version E) \<le> 6" and "length (patch_quote E) \<le> 14"
    and "CHR 0x0A \<notin> set (sfk_version E @ patch_quote E)"
  shows "draw_topbar E k = Done (set_BUFFER
     ((BUFFER k)[0 := map (\<lambda>b. vga_char_new b Black LightGrey) (str_bytes (topbar_text E))]) k)"
proof -
  let ?k0 = "k\<lparr>ALLOW_ROW_0 := True, CURSOR_row := 0, CURSOR_column := 0\<rparr>"
  have c: "CURSOR_row k < 25" "CURSOR_column k < 80" using assms(1) by (simp_all add: vga_ok_def)
  have 1: "set_row 0 (k\<lparr>ALLOW_ROW_0 := True\<rparr>) = k\<lparr>ALLOW_ROW_0 := True, CURSOR_row := 0\<rparr>"
    using c by (intro set_row_in_range) simp_all
  have 2: "set_col 0 (k\<lparr>ALLOW_ROW_0 := True, CURSOR_row := 0\<rparr>) = ?k0" by (intro set_col_in_range) simp_all
  have u: "row_usable ?k0" using assms(1,2) by (simp add: row_usable_def vga_ok_def)
  have len: "length (str_bytes (topbar_text E)) = 80"
    using assms(4,5) by (simp add: str_bytes_def topbar_text_def length_pad_right)
  have nl: "10 \<notin> set (str_bytes (topbar_text E))"
    using assms(6) by (simp add: newline_byte topbar_text_def set_pad_right)
  let ?b = "(BUFFER k)[0 := map (\<lambda>b. vga_char_new b Black LightGrey) (str_bytes (topbar_text E))]"
  have p: "print_args (topbar_text E) Black LightGrey ?k0 = Done (set_BUFFER ?b (?k0\<lparr>CURSOR_row := 1\<rparr>))"
    using print_full_row [OF u nl _ len] by (simp add: print_args_def)
  let ?k1 = "(set_BUFFER ?b (?k0\<lparr>CURSOR_row := 1\<rparr>))\<lparr>ALLOW_ROW_0 := False\<rparr>"
  have nz: "0 < CURSOR_row k" using assms(3) by (simp add: below_topbar_def)
  have 3: "set_row (CURSOR_row k) ?k1 = ?k1\<lparr>CURSOR_row := CURSOR_row k\<rparr>"
    using c nz by (intro set_row_in_range) simp_all
  have 4: "set_col (CURSOR_column k) (?k1\<lparr>CURSOR_row := CURSOR_row k\<rparr>)
      = ?k1\<lparr>CURSOR_row := CURSOR_row k, CURSOR_column := CURSOR_column k\<rparr>"
    using c nz by (intro set_col_in_range) simp_all
  have "?k1\<lparr>CURSOR_row := CURSOR_row k, CURSOR_column := CURSOR_column k\<rparr> = set_BUFFER ?b k"
    using assms(3) by (cases k) (simp add: below_topbar_def)
  then show ?thesis
    using p 1 2 3 4 by (simp add: draw_topbar_def row_col_def Let_def del: set_BUFFER_upd)
qed

definition sample_env :: env where
  "sample_env = \<lparr>port_in = (\<lambda>_ _. 0), irqs = (\<lambda>_. [TimerIrq]), fuel = 100, sfk_version = ''0.2'',
     patch_quote = ''quote'', century = 20, floppyfs_year = 2026, floppyfs_day = 1, disable_enter = False,
     handler_addr = (\<lambda>n. of_nat n), static_addr = (\<lambda>_. 0)\<rparr>"

theorem draw_topbar_fills_row_0_witness:
  "draw_topbar sample_env cleared_vga = Done (set_BUFFER
     ((BUFFER cleared_vga)[0 := map (\<lambda>b. vga_char_new b Black LightGrey) (str_bytes (topbar_text sample_env))]) cleared_vga)"
  by (rule draw_topbar_fills_row_0) (simp_all add: sample_env_def)

subsection \<open>Buffers\<close>

text \<open>
  swapping exchanges the visible buffer and the alternative one and touches nothing that can be
  seen besides; swapping twice restores both. While the buffer is held it does nothing.
\<close>

theorem swap_exchanges_buffers:
  "if BUFFER_HELD k then swap k = k
   else BUFFER (swap k) = ALT k \<and> ALT (swap k) = BUFFER k \<and> \<not> BUFFER_HELD (swap k)
      \<and> row_col (swap k) = row_col k \<and> BUFFER (swap (swap k)) = BUFFER k \<and> ALT (swap (swap k)) = ALT k"
  by (simp add: swap_def try_yoink_def drop_yoinked_def row_col_def BUFFER_def set_BUFFER_def Let_def)

text \<open>
  clearing blanks the buffer (when it is free), moves the cursor to the first cell below the
  top bar's row and tells the hardware cursor so: two selector and two data writes, the offset 80
  split in its high and low byte.
\<close>

theorem clear_blanks_screen:
  assumes "vga_ok k"
  shows "vga_ok (clear k) \<and> row_col (clear k) = (1, 0) \<and> BUFFER_HELD (clear k) = BUFFER_HELD k
    \<and> BUFFER (clear k) = (if BUFFER_HELD k then BUFFER k else empty_buffer)
    \<and> io_log (clear k) = delayed_outs
         [(0x3D4, 0x0E), (0x3D5, 0), (0x3D4, 0x0F), (0x3D5, 80)] @ io_log k"
proof -
  have c: "CURSOR_row k < 25" "CURSOR_column k < 80" using assms by (simp_all add: vga_ok_def)
  define k1 where "k1 = set_row 1 (set_col 0 k)"
  have col: "CURSOR_column (set_col 0 k) = 0"
    by (simp add: set_col_def clamp_row_col_def row_col_def Let_def)
  then have "k1 = (set_col 0 k)\<lparr>CURSOR_row := 1\<rparr>" unfolding k1_def by (intro set_row_in_range) simp_all
  then have k1: "CURSOR_row k1 = 1" "CURSOR_column k1 = 0" "io_log k1 = io_log k" "BUFFER k1 = BUFFER k"
    "BUFFER_HELD k1 = BUFFER_HELD k"
    using col by simp_all
  have ok: "vga_ok k1" unfolding k1_def by (intro vga_ok_set_row vga_ok_bufs vga_ok_set_col) (rule assms)
  have "clamp_row_col k1 = k1" using k1 by (intro clamp_id) simp_all
  then have u: "update_visual_pos k1 = k1\<lparr>io_log := delayed_outs
         [(0x3D4, 0x0E), (0x3D5, 0), (0x3D4, 0x0F), (0x3D5, 80)] @ io_log k\<rparr>"
    using k1 by (simp add: update_visual_pos_def row_col_def writeb_eq dim_defs Let_def)
  have "vga_ok (set_BUFFER empty_buffer k1)" using ok by (intro vga_ok_set_BUFFER) simp_all
  then show ?thesis
    using k1 ok u unfolding clear_def k1_def [symmetric]
    by (auto simp: try_yoink_def drop_yoinked_def row_col_def Let_def vga_ok_def BUFFER_def set_BUFFER_def)
qed

theorem clear_blanks_screen_witness:
  "row_col (clear cleared_vga) = (1, 0) \<and> BUFFER (clear cleared_vga) = empty_buffer"
  using clear_blanks_screen [OF cleared_vga_ok(1)] by simp

text \<open>
  a backspace blanks the cell before the cursor. At the start of the first row below the top bar that cell
  is the last one of the top bar, which is erased, and the cursor jumps to the end of the last row of
  the screen.
\<close>

theorem backspace_erases_topbar:
  assumes "vga_ok k" and "\<not> BUFFER_HELD k" and "row_col k = (1, 0)" and "\<not> ALLOW_ROW_0 k"
  shows "delete_prev_char k = Done (set_BUFFER
     ((BUFFER k)[0 := (BUFFER k ! 0)[79 := SPACE]]) (k\<lparr>CURSOR_column := 79, CURSOR_row := 24\<rparr>))"
proof -
  let ?k = "k\<lparr>BUFFER_HELD := True\<rparr>"
  have rc: "CURSOR_row k = 1" "CURSOR_column k = 0" using assms(3) by (simp_all add: row_col_def)
  let ?k1 = "set_BUFFER ((BUFFER k)[0 := (BUFFER k ! 0)[79 := SPACE]]) k"
  have st: "buffer_store 0 79 SPACE ?k = Done (?k1\<lparr>BUFFER_HELD := True\<rparr>)"
    using buffer_store_done [of ?k 0 79 SPACE] assms(1) by simp
  have 1: "set_col 79 ?k1 = ?k1\<lparr>CURSOR_column := 79\<rparr>" using rc by (intro set_col_in_range) simp_all
  have 2: "set_row 24 (?k1\<lparr>CURSOR_column := 79\<rparr>) = ?k1\<lparr>CURSOR_column := 79, CURSOR_row := 24\<rparr>"
    by (intro set_row_in_range) simp_all
  show ?thesis
    using assms(2) st rc 1 2
    by (simp add: delete_prev_char_def try_yoink_def drop_yoinked_def row_col_def held_same dim_defs)
qed

theorem backspace_erases_topbar_witness:
  "\<exists>k'. delete_prev_char cleared_vga = Done k' \<and> row_col k' = (24, 79) \<and> BUFFER k' ! 0 ! 79 = SPACE"
proof -
  have "row_col cleared_vga = (1, 0)" "\<not> ALLOW_ROW_0 cleared_vga" by (simp_all add: cleared_vga_def row_col_def)
  from backspace_erases_topbar [OF cleared_vga_ok(1) cleared_vga_ok(3) this] show ?thesis
    using buf_ok_BUFFER [OF cleared_vga_ok(1)] buf_ok_row [of "BUFFER cleared_vga" 0]
    by (simp add: row_col_def buf_ok_def)
qed

text \<open>
  the character, the foreground and the background can be read back from a packed
  character, at bits 0-7, 8-11 and 12-15.
\<close>

theorem vga_char_layout:
  "ucast (vga_char_new c fg bg) = c
   \<and> drop_bit 8 (vga_char_new c fg bg) AND 0xF = color_code fg
   \<and> drop_bit 12 (vga_char_new c fg bg) = color_code bg"
proof -
  have "color_code x < 2 ^ 4" for x by (cases x) simp_all
  then have hi: "4 \<le> n \<Longrightarrow> \<not> bit (color_code x) n" for x n
    using bit_lessD [of "color_code x" 4 n] by auto
  have 1: "ucast (vga_char_new c fg bg) = c"
    by (rule u8_eqI) (simp_all add: vga_char_new_def bit_simps)
  have 2: "drop_bit 8 (vga_char_new c fg bg) AND 0xF = color_code fg"
    by (rule u16_eqI) (use hi in \<open>auto simp: vga_char_new_def bit_simps\<close>)
  have 3: "drop_bit 12 (vga_char_new c fg bg) = color_code bg"
    by (rule u16_eqI) (use hi in \<open>auto simp: vga_char_new_def bit_simps\<close>)
  show ?thesis using 1 2 3 by blast
qed

end
