(* ===== verification/Rtc.thy ===== *)
theory Rtc
  imports Vga Sync
begin

text \<open>
  kernel/src/time.rs, the parts that do not wait: programming the timer, the waiting character, and
  reading the real time clock into \<^verbatim>\<open>LAUNCH_TIME\<close>. The loops that wait for an interrupt are in
  the theory of the clock, after the interrupt handlers.
\<close>

section \<open>State\<close>

record rtime =
  t_year :: u16
  t_month :: u8
  t_day :: u8
  t_hour :: u8
  t_min :: u8
  t_sec :: u8

record clock = vga +
  TIME :: u64
  LAUNCH_TIME :: "rtime init_later"
  RTC_SYNC_DONE :: bool
  RTC_UPDATE_ENDED :: u8
  WAITING_CHAR :: bool
  WAITING_PREV :: u16

definition PIT_BASE_FREQ :: u64 where "PIT_BASE_FREQ = 1193180"
definition CMOS_REG_B :: u8 where "CMOS_REG_B = 0x8B"

definition time_display :: "rtime \<Rightarrow> string" where
  "time_display t =
     dec_str (unat (t_hour t)) @ '':'' @ dec_str (unat (t_min t)) @ '':'' @ dec_str (unat (t_sec t)) @ '' ''
     @ dec_str (unat (t_day t)) @ ''/'' @ dec_str (unat (t_month t)) @ ''/'' @ dec_str (unat (t_year t))"

section \<open>The timer\<close>

definition TICK_INTERVAL :: u16 where
  "TICK_INTERVAL = (let KERNEL_TICKS_HZ = 100 in ucast ((PIT_BASE_FREQ + KERNEL_TICKS_HZ div 2) div KERNEL_TICKS_HZ))"

definition PIT_COMMAND :: u8 where "PIT_COMMAND = 0b01111100"

definition set_timer_interval :: "'a clock_scheme \<Rightarrow> string exit_code \<times> 'a clock_scheme" where
  "set_timer_interval k =
     (if \<not> PIC_INIT k then (ExError ''The PIC isn't init!'', k)
      else let k = sti k;
               k = writeb (port_addr PITCmd) PIT_COMMAND k;
               k = writeb (port_addr PITChannel0) (ucast TICK_INTERVAL) k;
               k = writeb (port_addr PITChannel0) (ucast (drop_bit 8 TICK_INTERVAL)) k
           in (ExInfallible, k\<lparr>PIT_INIT := True\<rparr>))"

section \<open>The waiting character\<close>

text \<open>A character of the text buffer's memory, by its address.\<close>

definition vga_cell :: "nat \<Rightarrow> nat \<times> nat" where
  "vga_cell addr = (let n = (addr - 0xb8000) div 2 in (n div 80, n mod 80))"

definition read_volatile :: "nat \<Rightarrow> 'a clock_scheme \<Rightarrow> u16" where
  "read_volatile addr k = (let (r, c) = vga_cell addr in vga_memory k ! r ! c)"

definition write_volatile :: "nat \<Rightarrow> u16 \<Rightarrow> 'a clock_scheme \<Rightarrow> 'a clock_scheme" where
  "write_volatile addr v k =
     (let (r, c) = vga_cell addr in k\<lparr>vga_memory := (vga_memory k)[r := (vga_memory k ! r)[c := v]]\<rparr>)"

definition CORNER_TOP_RIGHT :: nat where "CORNER_TOP_RIGHT = 0xb809e"

definition set_waiting_char :: "bool \<Rightarrow> 'a clock_scheme \<Rightarrow> 'a clock_scheme" where
  "set_waiting_char sh k =
     (if \<not> WAITING_CHAR k then k
      else if sh
      then let prev = read_volatile CORNER_TOP_RIGHT k;
               k = k\<lparr>WAITING_PREV := prev\<rparr>
           in write_volatile CORNER_TOP_RIGHT (vga_char_new 1 Black LightGrey) k
      else write_volatile CORNER_TOP_RIGHT (WAITING_PREV k) k)"

section \<open>The real time clock\<close>

definition read_cmos_reg :: "env \<Rightarrow> u8 \<Rightarrow> 'a machine_scheme \<Rightarrow> u8 \<times> 'a machine_scheme" where
  "read_cmos_reg E reg k = readb E (port_addr CMOSData) (writeb (port_addr CMOSIndex) reg k)"

definition time_now :: "env \<Rightarrow> 'a clock_scheme \<Rightarrow> rtime \<times> 'a clock_scheme" where
  "time_now E k =
     (let (year, k) = read_cmos_reg E 0x9 k;
          (month, k) = read_cmos_reg E 0x8 k;
          (day, k) = read_cmos_reg E 0x7 k;
          (hour, k) = read_cmos_reg E 0x4 k;
          (min, k) = read_cmos_reg E 0x2 k;
          (sec, k) = read_cmos_reg E 0x0 k
      in (\<lparr>t_year = ucast year, t_month = month, t_day = day, t_hour = hour, t_min = min, t_sec = sec\<rparr>, k))"

definition setup_rtc_int :: "env \<Rightarrow> 'a clock_scheme \<Rightarrow> string exit_code \<times> 'a clock_scheme" where
  "setup_rtc_int E k =
     (if \<not> PIC_INIT k then (ExError ''The PIC isn't init!'', k)
      else let k = cli k;
               (prev, k) = read_cmos_reg E CMOS_REG_B k;
               k = writeb (port_addr CMOSIndex) CMOS_REG_B k;
               k = writeb (port_addr CMOSData) (prev OR 0b1000000) k;
               k = k\<lparr>RTC_IRQ_INIT := True\<rparr>
           in (ExInfallible, sti k))"

definition bcd_to_bin :: "u8 \<Rightarrow> u8" where
  "bcd_to_bin bcd = ((bcd div 16) * 10) + (bcd AND 0xF)"

text \<open>The conversion of what the clock's registers hold, given status register B.\<close>

definition convert_time :: "u16 \<Rightarrow> u8 \<Rightarrow> rtime \<Rightarrow> rtime" where
  "convert_time cent reg_b time =
     (let FLAG_24_HR = 0b10000000;
          hour = t_hour time;
          (time, hour) =
            (if reg_b \<noteq> reg_b OR 0b100
             then (time\<lparr>t_sec := bcd_to_bin (t_sec time), t_min := bcd_to_bin (t_min time),
                        t_day := bcd_to_bin (t_day time), t_month := bcd_to_bin (t_month time),
                        t_year := ucast (bcd_to_bin (ucast (t_year time)))\<rparr>,
                   ((hour AND 0x0F) + (((hour AND 0x70) div 16) * 10)) OR (hour AND FLAG_24_HR))
             else (time, hour));
          time = (if reg_b \<noteq> reg_b OR 0b10 \<and> hour = hour AND FLAG_24_HR
                  then time\<lparr>t_hour := ((hour AND 0b1111111) + 12) mod 24\<rparr> else time)
      in time\<lparr>t_year := t_year time + cent * 100\<rparr>)"

definition sync_time_to_rtc :: "env \<Rightarrow> 'a clock_scheme \<Rightarrow> 'a clock_scheme" where
  "sync_time_to_rtc E k =
     (let (time, k) = time_now E k;
          (reg_b, k) = read_cmos_reg E CMOS_REG_B k;
          time = convert_time (century E) reg_b time;
          k = k\<lparr>LAUNCH_TIME := snd (init_later_init time (LAUNCH_TIME k))\<rparr>
      in k\<lparr>RTC_SYNC_DONE := True\<rparr>)"

section \<open>Properties\<close>

lemma read_cmos_reg_eq [frame_simps]:
  "read_cmos_reg E reg k =
     (let v = port_in E (Out 0x80 0 # Out 0x70 reg # Out 0x80 0 # io_log k) 0x71
      in (v, k\<lparr>io_log := [Inp 0x71 v, Out 0x80 0, Out 0x70 reg, Out 0x80 0] @ io_log k\<rparr>))"
  by (simp add: read_cmos_reg_def readb_eq writeb_eq)

lemma or_bit_neq: "(b :: u8) \<noteq> b OR 0b100 \<longleftrightarrow> \<not> bit b 2" "b \<noteq> b OR 0b10 \<longleftrightarrow> \<not> bit b 1"
  using or_exp_same [of 2 b] or_exp_same [of 1 b] by simp_all

text \<open>
  the two decimal digits of a valid BCD byte are decoded to the number they denote, and the
  result always fits a byte without wrapping.
\<close>

theorem bcd_to_bin_decodes:
  assumes "tens < 10" and "ones < 10"
  shows "unat (bcd_to_bin (of_nat (16 * tens + ones))) = 10 * tens + ones"
proof -
  define b where "b = (of_nat (16 * tens + ones) :: u8)"
  have u: "unat b = 16 * tens + ones" using assms unfolding b_def by (simp only: unat_of_nat) simp
  have "(0xF :: u8) = mask 4" by (simp add: mask_eq_exp_minus_1)
  then have "b AND 0xF = take_bit 4 b" by (simp only: take_bit_eq_mask)
  then have "b AND 0xF = b mod 16" by (simp add: take_bit_eq_mod)
  then have "unat (b AND 0xF) = ones" using assms u by (simp add: unat_mod)
  moreover have "unat (b div 16) = tens" using assms u by (simp add: unat_div)
  ultimately show ?thesis using assms unfolding b_def [symmetric] by (simp add: bcd_to_bin_def unat_word_ariths)
qed

theorem bcd_to_bin_decodes_witness: "unat (bcd_to_bin 0x59) = 59"
  using bcd_to_bin_decodes [of 5 9] by simp

text \<open>The low seven bits of the decoded hour vanish exactly when those of the raw register do.\<close>

lemma decoded_hour_zero:
  fixes h :: u8
  defines "h' \<equiv> ((h AND 0x0F) + (((h AND 0x70) div 16) * 10)) OR (h AND 0b10000000)"
  shows "(h' = h' AND 0b10000000) = (h AND 0x7F = 0) \<and> (h AND 0x7F = 0 \<longrightarrow> h' AND 0b1111111 = 0)"
  unfolding h'_def by (rule u8_exhaustive [of _ h]) code_simp

lemma decoded_hour_flag:
  fixes h :: u8
  shows "(h = h AND 0b10000000) = (h AND 0x7F = 0)"
  by (rule u8_exhaustive [of _ h]) code_simp

text \<open>A clock whose registers hold \<open>regs\<close> while it is read.\<close>

definition cmos_holds :: "env \<Rightarrow> (u8 \<Rightarrow> u8) \<Rightarrow> bool" where
  "cmos_holds E regs \<longleftrightarrow> (\<forall>log reg. port_in E (Out 0x80 0 # Out 0x70 reg # log) 0x71 = regs reg)"

lemma time_now_holds:
  assumes "cmos_holds E regs"
  shows "\<exists>log. time_now E k =
    (\<lparr>t_year = ucast (regs 0x9), t_month = regs 0x8, t_day = regs 0x7, t_hour = regs 0x4,
      t_min = regs 0x2, t_sec = regs 0x0\<rparr>, k\<lparr>io_log := log\<rparr>)"
  using assms by (auto simp: time_now_def read_cmos_reg_eq cmos_holds_def Let_def)

lemma convert_hour:
  "t_hour (convert_time cent b t) = (if \<not> bit b 1 \<and> t_hour t AND 0x7F = 0 then 12 else t_hour t)"
proof -
  define h where "h = t_hour t"
  define h' where "h' = ((h AND 0x0F) + (((h AND 0x70) div 16) * 10)) OR (h AND 0b10000000)"
  have "(h' = h' AND 0b10000000) = (h AND 0x7F = 0)" "h AND 0x7F = 0 \<longrightarrow> h' AND 0b1111111 = 0"
    using decoded_hour_zero [of h] unfolding h'_def by blast+
  moreover have "(h = h AND 0b10000000) = (h AND 0x7F = 0)" by (rule decoded_hour_flag)
  ultimately show ?thesis
    unfolding convert_time_def Let_def or_bit_neq h_def [symmetric] h'_def [symmetric]
    by (auto simp: h_def [symmetric])
qed

text \<open>What a clock interrupt reads and stores.\<close>

definition registers :: "(u8 \<Rightarrow> u8) \<Rightarrow> rtime" where
  "registers regs = \<lparr>t_year = ucast (regs 0x9), t_month = regs 0x8, t_day = regs 0x7, t_hour = regs 0x4,
      t_min = regs 0x2, t_sec = regs 0x0\<rparr>"

lemma sync_stores_converted:
  assumes "cmos_holds E regs" and "il_state (LAUNCH_TIME k) = UNINIT"
  shows "init_later_read (LAUNCH_TIME (sync_time_to_rtc E k)) = Ok (convert_time (century E) (regs CMOS_REG_B) (registers regs))
    \<and> RTC_SYNC_DONE (sync_time_to_rtc E k)"
proof -
  obtain log where now: "time_now E k = (registers regs, k\<lparr>io_log := log\<rparr>)" using time_now_holds [OF assms(1)] by (auto simp: registers_def)
  have reg: "fst (read_cmos_reg E CMOS_REG_B k) = regs CMOS_REG_B" for k :: "'a clock_scheme"
    using assms(1) by (simp add: read_cmos_reg_eq cmos_holds_def Let_def)
  have keep: "LAUNCH_TIME (snd (read_cmos_reg E CMOS_REG_B k)) = LAUNCH_TIME k" for k :: "'a clock_scheme"
    by (simp add: read_cmos_reg_eq Let_def)
  show ?thesis
    using now reg keep assms(2)
    by (simp add: sync_time_to_rtc_def Let_def split_beta init_later_init_uninit init_later_read_def)
qed

text \<open>
  The time stored for every mode of the clock. The hour is stored as it was read, without decoding and without clearing the
  PM flag, unless the clock is in 12-hour mode and its hour is zero, when 12 is stored.
\<close>

lemma sync_fields:
  assumes "cmos_holds E regs" and "il_state (LAUNCH_TIME k) = UNINIT"
  shows "\<exists>t. init_later_read (LAUNCH_TIME (sync_time_to_rtc E k)) = Ok t \<and> RTC_SYNC_DONE (sync_time_to_rtc E k)
    \<and> (let dec = (if bit (regs CMOS_REG_B) 2 then id else bcd_to_bin)
       in t_year t = ucast (dec (regs 9)) + century E * 100 \<and> t_month t = dec (regs 8) \<and> t_day t = dec (regs 7)
        \<and> t_min t = dec (regs 2) \<and> t_sec t = dec (regs 0)
        \<and> t_hour t = (if \<not> bit (regs CMOS_REG_B) 1 \<and> regs 4 AND 0x7F = 0 then 12 else regs 4))"
proof -
  let ?t = "convert_time (century E) (regs CMOS_REG_B) (registers regs)"
  note read = sync_stores_converted [OF assms]
  have "ucast (ucast (b :: u8) :: u16) = b" for b
    by (rule u8_eqI) (simp_all add: bit_simps)
  then have "t_year ?t = ucast ((if bit (regs CMOS_REG_B) 2 then id else bcd_to_bin) (regs 9)) + century E * 100"
    by (simp add: convert_time_def registers_def or_bit_neq Let_def)
  moreover have "t_month ?t = (if bit (regs CMOS_REG_B) 2 then id else bcd_to_bin) (regs 8)"
    "t_day ?t = (if bit (regs CMOS_REG_B) 2 then id else bcd_to_bin) (regs 7)"
    "t_min ?t = (if bit (regs CMOS_REG_B) 2 then id else bcd_to_bin) (regs 2)"
    "t_sec ?t = (if bit (regs CMOS_REG_B) 2 then id else bcd_to_bin) (regs 0)"
    by (simp_all add: convert_time_def registers_def or_bit_neq Let_def)
  ultimately show ?thesis
    using read convert_hour [of "century E" "regs CMOS_REG_B" "registers regs"] by (auto simp: registers_def Let_def)
qed

text \<open>
  C38: the time stored by the clock interrupt. With binary registers (bit 2 of status register B) the minutes, seconds, day, month
  and the year of the century are the registers, with BCD registers their decoded values, and the century of the build is
  added to the year; the hour is the register when the clock counts 24 hours in binary (bits 1 and 2 set; the other modes are the
  subject of \<open>sync_fields\<close>). So such a clock with its registers in their ranges gives a time in its documented ranges.
\<close>

theorem rtc_sync_result:
  assumes "cmos_holds E regs" and "il_state (LAUNCH_TIME k) = UNINIT"
  shows "\<exists>t. init_later_read (LAUNCH_TIME (sync_time_to_rtc E k)) = Ok t \<and> RTC_SYNC_DONE (sync_time_to_rtc E k)
    \<and> (let dec = (if bit (regs CMOS_REG_B) 2 then id else bcd_to_bin)
       in t_year t = ucast (dec (regs 9)) + century E * 100 \<and> t_month t = dec (regs 8) \<and> t_day t = dec (regs 7)
        \<and> t_min t = dec (regs 2) \<and> t_sec t = dec (regs 0))
    \<and> (bit (regs CMOS_REG_B) 1 \<and> bit (regs CMOS_REG_B) 2 \<longrightarrow> t_hour t = regs 4
        \<and> (regs 9 < 100 \<and> regs 8 \<in> {1..12} \<and> regs 7 \<in> {1..31} \<and> regs 4 < 24 \<and> regs 2 < 60 \<and> regs 0 < 60
           \<longrightarrow> t_year t - century E * 100 < 100 \<and> t_month t \<in> {1..12} \<and> t_day t \<in> {1..31} \<and> t_hour t < 24 \<and> t_min t < 60 \<and> t_sec t < 60))"
proof -
  obtain t where t: "init_later_read (LAUNCH_TIME (sync_time_to_rtc E k)) = Ok t" "RTC_SYNC_DONE (sync_time_to_rtc E k)"
    and f: "let dec = (if bit (regs CMOS_REG_B) 2 then id else bcd_to_bin)
       in t_year t = ucast (dec (regs 9)) + century E * 100 \<and> t_month t = dec (regs 8) \<and> t_day t = dec (regs 7)
        \<and> t_min t = dec (regs 2) \<and> t_sec t = dec (regs 0)
        \<and> t_hour t = (if \<not> bit (regs CMOS_REG_B) 1 \<and> regs 4 AND 0x7F = 0 then 12 else regs 4)"
    using sync_fields [OF assms] by blast
  have "(ucast (regs 9) :: u16) < 100" if "regs 9 < 100"
    using that by (simp add: word_less_nat_alt unsigned_ucast_eq take_bit_nat_eq_self)
  then show ?thesis using t f by (intro exI [of _ t]) (simp add: Let_def)
qed

definition initial_clock :: clock where
  "initial_clock = vga.extend cleared_vga \<lparr>TIME = 0, LAUNCH_TIME = init_later_uninit \<lparr>t_year = 0, t_month = 0,
     t_day = 0, t_hour = 0, t_min = 0, t_sec = 0\<rparr>, RTC_SYNC_DONE = False, RTC_UPDATE_ENDED = 0,
     WAITING_CHAR = True, WAITING_PREV = 0\<rparr>"

text \<open>A clock in 24-hour binary mode on 31/12/26 at 23:59:58.\<close>

definition binary_regs :: "u8 \<Rightarrow> u8" where
  "binary_regs r = (if r = 9 then 26 else if r = 8 then 12 else if r = 7 then 31 else if r = 4 then 23 else if r = 2 then 59
     else if r = 0 then 58 else 0b110)"

definition binary_env :: env where
  "binary_env = sample_env\<lparr>century := 20, port_in := (\<lambda>log p. case log of (_ # Out a r # _) \<Rightarrow> binary_regs r | _ \<Rightarrow> 0)\<rparr>"

lemma initial_clock_unset: "il_state (LAUNCH_TIME initial_clock) = UNINIT"
  by (simp add: initial_clock_def vga.extend_def init_later_uninit_def)

theorem rtc_sync_result_witness:
  "init_later_read (LAUNCH_TIME (sync_time_to_rtc binary_env initial_clock)) =
     Ok \<lparr>t_year = 2026, t_month = 12, t_day = 31, t_hour = 23, t_min = 59, t_sec = 58\<rparr>"
proof -
  have 1: "cmos_holds binary_env binary_regs" by (simp add: cmos_holds_def binary_env_def)
  have 2: "bit (binary_regs CMOS_REG_B) 2" "bit (binary_regs CMOS_REG_B) 1" "century binary_env = 20"
    by (simp_all add: binary_regs_def binary_env_def CMOS_REG_B_def bit_simps)
  obtain t where t: "init_later_read (LAUNCH_TIME (sync_time_to_rtc binary_env initial_clock)) = Ok t"
    "t_year t = 2026" "t_month t = 12" "t_day t = 31" "t_hour t = 23" "t_min t = 59" "t_sec t = 58"
    using rtc_sync_result [OF 1 initial_clock_unset] 2 by (auto simp: Let_def binary_regs_def)
  then show ?thesis by simp
qed

text \<open>A clock in 24-hour BCD mode at 23:59, whose hour is not decoded.\<close>

definition late_regs :: "u8 \<Rightarrow> u8" where
  "late_regs r = (if r = 4 then 0x23 else if r = 2 then 0x59 else if r = CMOS_REG_B then 0b10 else 0x11)"

definition late_env :: env where
  "late_env = sample_env\<lparr>port_in := (\<lambda>log p. case log of (_ # Out a r # _) \<Rightarrow> late_regs r | _ \<Rightarrow> 0)\<rparr>"

lemma late_hour_not_decoded:
  "\<exists>t. init_later_read (LAUNCH_TIME (sync_time_to_rtc late_env initial_clock)) = Ok t
     \<and> t_min t = 59 \<and> t_hour t = 0x23"
proof -
  have 1: "cmos_holds late_env late_regs" by (simp add: cmos_holds_def late_env_def)
  have 3: "\<not> bit (late_regs CMOS_REG_B) 2" "bit (late_regs CMOS_REG_B) 1" "late_regs 4 = 0x23" "late_regs 2 = 0x59"
    by (simp_all add: late_regs_def CMOS_REG_B_def bit_simps)
  have 4: "bcd_to_bin 0x59 = 59" by (simp add: bcd_to_bin_def)
  from sync_fields [OF 1 initial_clock_unset] 3 4 show ?thesis by (auto simp: Let_def)
qed

section \<open>Programming the timer\<close>

text \<open>
  the timer's reload value is the base frequency divided by 100 to the nearest integer, written low
  byte first to channel 0; but the command byte written before selects channel 1 (bits 6-7) in operating mode
  6, read from the fields in the controller's order, where the comment asks for a square wave on
  channel 0. Without an initialised PIC nothing is written.
\<close>

theorem set_timer_interval_writes:
  "if PIC_INIT k
   then fst (set_timer_interval k) = ExInfallible \<and> PIT_INIT (snd (set_timer_interval k))
     \<and> ints_on (snd (set_timer_interval k))
     \<and> io_log (snd (set_timer_interval k)) = delayed_outs [(0x43, PIT_COMMAND), (0x40, 0x9C), (0x40, 0x2E)] @ io_log k
     \<and> unat (0x2E9C :: u16) = (unat PIT_BASE_FREQ + 50) div 100
     \<and> drop_bit 6 PIT_COMMAND = 1 \<and> drop_bit 1 PIT_COMMAND AND 0b111 = 6
   else set_timer_interval k = (ExError ''The PIC isn't init!'', k)"
proof -
  have t: "TICK_INTERVAL = 0x2E9C" by (simp add: TICK_INTERVAL_def PIT_BASE_FREQ_def)
  show ?thesis
    unfolding set_timer_interval_def t
    by (simp add: set_timer_interval_def writeb_eq Let_def sti_def PIT_COMMAND_def PIT_BASE_FREQ_def)
qed

text \<open>
  showing and then hiding the waiting character restores the screen; only the cell in the top right corner is ever
  written.
\<close>

theorem waiting_char_restores_screen:
  assumes "vga_ok k" and "WAITING_CHAR k"
  shows "vga_memory (set_waiting_char False (set_waiting_char True k)) = vga_memory k
    \<and> vga_memory (set_waiting_char True k)
        = (vga_memory k)[0 := (vga_memory k ! 0)[79 := vga_char_new 1 Black LightGrey]]
    \<and> vga_ok (set_waiting_char True k)"
proof -
  have "length (vga_memory k) = 25" "length (vga_memory k ! 0) = 80"
    using assms(1) buf_ok_row [of "vga_memory k" 0] by (simp_all add: vga_ok_def buf_ok_def)
  moreover have "vga_cell CORNER_TOP_RIGHT = (0, 79)" by (simp add: vga_cell_def CORNER_TOP_RIGHT_def)
  ultimately show ?thesis
    using assms buf_ok_update [of "vga_memory k" "(vga_memory k ! 0)[79 := vga_char_new 1 Black LightGrey]" 0]
    by (simp add: set_waiting_char_def read_volatile_def write_volatile_def vga_ok_def Let_def)
qed

lemma initial_clock_ok: "vga_ok initial_clock" "WAITING_CHAR initial_clock"
  using cleared_vga_ok(1) by (simp_all add: initial_clock_def vga.extend_def vga_ok_def)

theorem waiting_char_restores_screen_witness:
  "vga_memory (set_waiting_char False (set_waiting_char True initial_clock)) = vga_memory initial_clock"
  using waiting_char_restores_screen [OF initial_clock_ok] by blast

end
