(* ===== verification/Motor.thy ===== *)
theory Motor
  imports Rtc
begin

text \<open>
  The statics and ports of kernel/src/floppy.rs, and kernel/src/floppy/motor.rs except
  \<^verbatim>\<open>enable_motor\<close>, which waits for the timer and is defined after it. The timer interrupt calls
  \<^verbatim>\<open>decrease_motor_time\<close>.
\<close>

section \<open>State\<close>

record fdc = clock +
  BASE_OFFSET :: "u16 init_later"
  FLOPPY_SPACE :: "u16 init_later"
  DRIVE_ONE :: unsafe_flag
  MOTOR_TIME_LEFT :: u16
  MOTOR_STATE :: u8
  READ_BYTES :: u64
  WRITTEN_BYTES :: u64

definition MOTOR_ON :: u8 where "MOTOR_ON = 0"
definition MOTOR_DISABLING :: u8 where "MOTOR_DISABLING = 1"
definition MOTOR_OFF :: u8 where "MOTOR_OFF = 2"

lemmas motor_defs = MOTOR_ON_def MOTOR_DISABLING_def MOTOR_OFF_def

section \<open>Ports\<close>

datatype floppy_port = DigitalOutputRegister | MainStatusRegister | Fifo | ConfigCtrlRegister

fun floppy_port_num :: "floppy_port \<Rightarrow> u16" where
  "floppy_port_num DigitalOutputRegister = 2"
| "floppy_port_num MainStatusRegister = 4"
| "floppy_port_num Fifo = 5"
| "floppy_port_num ConfigCtrlRegister = 7"

definition add_offset :: "floppy_port \<Rightarrow> 'a fdc_scheme \<Rightarrow> init_error + u16" where
  "add_offset p k =
     (case init_later_read (BASE_OFFSET k) of
        Inl e \<Rightarrow> Err e
      | Inr base \<Rightarrow> Ok (floppy_port_num p + base))"

definition msr :: "env \<Rightarrow> ('a fdc_scheme, init_error, u8) fallible" where
  "msr E k =
     (case add_offset MainStatusRegister k of
        Inl e \<Rightarrow> throw e k
      | Inr port \<Rightarrow> (let (v, k) = readb E port k in ok v k))"

section \<open>Turning the motor off\<close>

definition send_disable_cmd :: "u16 \<Rightarrow> 'a fdc_scheme \<Rightarrow> 'a fdc_scheme" where
  "send_disable_cmd dor k =
     (let DRIVE0_COMMAND = 0b000100; DRIVE1_COMMAND = 0b000101;
          k = (if DRIVE_ONE k then writeb dor DRIVE1_COMMAND k else writeb dor DRIVE0_COMMAND k)
      in k\<lparr>MOTOR_STATE := MOTOR_OFF\<rparr>)"

definition decrease_motor_time :: "'a fdc_scheme \<Rightarrow> 'a fdc_scheme" where
  "decrease_motor_time k =
     (if MOTOR_STATE k = MOTOR_DISABLING
      then let old = MOTOR_TIME_LEFT k;
               k = k\<lparr>MOTOR_TIME_LEFT := MOTOR_TIME_LEFT k - 1\<rparr>
           in if old = 0
              then (case add_offset DigitalOutputRegister k of
                      Inr dor \<Rightarrow> send_disable_cmd dor k
                    | Inl _ \<Rightarrow> k)
              else k
      else k)"

definition disable_motor :: "'a fdc_scheme \<Rightarrow> 'a fdc_scheme" where
  "disable_motor k =
     (let TIMEOUT = 50;
          k = k\<lparr>MOTOR_TIME_LEFT := TIMEOUT\<rparr>
      in k\<lparr>MOTOR_STATE := MOTOR_DISABLING\<rparr>)"

definition force_disable :: "'a fdc_scheme \<Rightarrow> 'a fdc_scheme" where
  "force_disable k =
     (let k = k\<lparr>MOTOR_STATE := MOTOR_DISABLING\<rparr>;
          k = k\<lparr>MOTOR_TIME_LEFT := 0\<rparr>
      in decrease_motor_time k)"

section \<open>Timing\<close>

definition base_known :: "u16 \<Rightarrow> 'a fdc_scheme \<Rightarrow> bool" where
  "base_known base k \<longleftrightarrow> init_later_read (BASE_OFFSET k) = Ok base"

lemma add_offset_known: "base_known base k \<Longrightarrow> add_offset p k = Ok (floppy_port_num p + base)"
  by (simp add: base_known_def add_offset_def)

text \<open>The command that stops the motor of the selected drive.\<close>

definition off_command :: "'a fdc_scheme \<Rightarrow> u8" where
  "off_command k = (if DRIVE_ONE k then 0b000101 else 0b000100)"

lemma decrease_running:
  "MOTOR_STATE k = MOTOR_DISABLING \<Longrightarrow> MOTOR_TIME_LEFT k \<noteq> 0 \<Longrightarrow>
   decrease_motor_time k = k\<lparr>MOTOR_TIME_LEFT := MOTOR_TIME_LEFT k - 1\<rparr>"
  by (simp add: decrease_motor_time_def Let_def)

lemma decrease_expired:
  assumes "MOTOR_STATE k = MOTOR_DISABLING" and "MOTOR_TIME_LEFT k = 0" and "base_known base k"
  shows "decrease_motor_time k = k\<lparr>MOTOR_TIME_LEFT := - 1, MOTOR_STATE := MOTOR_OFF,
     io_log := Out (2 + base) (off_command k) # Out 0x80 0 # io_log k\<rparr>"
  using assms
  by (simp add: decrease_motor_time_def add_offset_def base_known_def send_disable_cmd_def writeb_eq
      off_command_def Let_def)

lemma decrease_idle: "MOTOR_STATE k \<noteq> MOTOR_DISABLING \<Longrightarrow> decrease_motor_time k = k"
  by (simp add: decrease_motor_time_def)

lemma decrease_many:
  "MOTOR_STATE k = MOTOR_DISABLING \<Longrightarrow> n \<le> unat (MOTOR_TIME_LEFT k) \<Longrightarrow>
   (decrease_motor_time ^^ n) k = k\<lparr>MOTOR_TIME_LEFT := MOTOR_TIME_LEFT k - of_nat n\<rparr>"
proof (induction n)
  case (Suc n)
  have "MOTOR_TIME_LEFT k - of_nat n \<noteq> 0"
  proof
    assume "MOTOR_TIME_LEFT k - of_nat n = 0"
    then have "unat (MOTOR_TIME_LEFT k) = unat (of_nat n :: u16)" by simp
    moreover have "n < 65536"
      using Suc.prems(2) unsigned_less [of "MOTOR_TIME_LEFT k", where 'a = nat] by simp
    ultimately show False using Suc.prems(2) by (simp add: unat_of_nat)
  qed
  with Suc show ?case by (simp add: decrease_running algebra_simps)
qed (cases k, simp)

text \<open>
  C32: after \<^verbatim>\<open>disable_motor\<close> the motor keeps running for fifty timer ticks and the next one
  sends the stop command of the selected drive to the digital output register, once: further
  ticks change nothing.
\<close>

theorem motor_stops_after_51_ticks:
  assumes "base_known base k"
  shows "(n \<le> 50 \<longrightarrow> MOTOR_STATE ((decrease_motor_time ^^ n) (disable_motor k)) = MOTOR_DISABLING
            \<and> io_log ((decrease_motor_time ^^ n) (disable_motor k)) = io_log k)
    \<and> (50 < n \<longrightarrow> MOTOR_STATE ((decrease_motor_time ^^ n) (disable_motor k)) = MOTOR_OFF
            \<and> io_log ((decrease_motor_time ^^ n) (disable_motor k))
                = Out (2 + base) (off_command k) # Out 0x80 0 # io_log k)"
proof -
  let ?d = "disable_motor k"
  have d: "MOTOR_STATE ?d = MOTOR_DISABLING" "MOTOR_TIME_LEFT ?d = 50" "base_known base ?d"
    "io_log ?d = io_log k" "off_command ?d = off_command k"
    using assms by (simp_all add: disable_motor_def base_known_def off_command_def Let_def)
  have run: "(decrease_motor_time ^^ m) ?d = ?d\<lparr>MOTOR_TIME_LEFT := 50 - of_nat m\<rparr>" if "m \<le> 50" for m
    using decrease_many [OF d(1), of m] d(2) that by simp
  define k50 where "k50 = ?d\<lparr>MOTOR_TIME_LEFT := 0\<rparr>"
  have "(decrease_motor_time ^^ 50) ?d = k50" using run [of 50] by (simp add: k50_def)
  then have 51: "(decrease_motor_time ^^ 51) ?d = decrease_motor_time k50"
    by (metis comp_apply funpow.simps(2) eval_nat_numeral(3) semiring_norm(26,27))
  have off: "MOTOR_STATE (decrease_motor_time k50) = MOTOR_OFF"
    "io_log (decrease_motor_time k50) = Out (2 + base) (off_command k) # Out 0x80 0 # io_log k"
    using decrease_expired [of k50 base] d by (simp_all add: k50_def base_known_def off_command_def)
  then have idle: "(decrease_motor_time ^^ m) (decrease_motor_time k50) = decrease_motor_time k50" for m
    by (induction m) (simp_all add: decrease_idle motor_defs)
  have "(decrease_motor_time ^^ n) ?d = decrease_motor_time k50" if "50 < n"
  proof -
    have "n = (n - 51) + 51" using that by simp
    then show ?thesis using idle 51 by (metis funpow_add comp_apply)
  qed
  then show ?thesis using run off d by simp
qed

definition initial_fdc :: fdc where
  "initial_fdc = clock.extend initial_clock \<lparr>BASE_OFFSET = init_later_uninit 0, FLOPPY_SPACE = init_later_uninit 0,
     DRIVE_ONE = False, MOTOR_TIME_LEFT = 0, MOTOR_STATE = MOTOR_OFF, READ_BYTES = 0, WRITTEN_BYTES = 0\<rparr>"

definition based_fdc :: fdc where
  "based_fdc = initial_fdc\<lparr>BASE_OFFSET := snd (init_later_init 0x3F0 (init_later_uninit 0))\<rparr>"

lemma based_fdc_known [simp]: "base_known 0x3F0 based_fdc"
  by (simp add: based_fdc_def base_known_def init_later_init_def init_later_uninit_def init_later_read_def Let_def)

theorem motor_stops_after_51_ticks_witness:
  "MOTOR_STATE ((decrease_motor_time ^^ 50) (disable_motor based_fdc)) = MOTOR_DISABLING
   \<and> MOTOR_STATE ((decrease_motor_time ^^ 51) (disable_motor based_fdc)) = MOTOR_OFF"
  using motor_stops_after_51_ticks [OF based_fdc_known, of 50] motor_stops_after_51_ticks [OF based_fdc_known, of 51]
  by simp

text \<open>
  forcing the motor off takes effect at once when the controller's base is known, whatever the
  motor's state was.
\<close>

theorem force_disable_stops_motor:
  assumes "base_known base k"
  shows "MOTOR_STATE (force_disable k) = MOTOR_OFF
    \<and> io_log (force_disable k) = Out (2 + base) (off_command k) # Out 0x80 0 # io_log k"
  using decrease_expired [of "k\<lparr>MOTOR_STATE := MOTOR_DISABLING, MOTOR_TIME_LEFT := 0\<rparr>" base] assms
  by (simp add: force_disable_def base_known_def off_command_def Let_def)

theorem force_disable_stops_motor_witness: "MOTOR_STATE (force_disable based_fdc) = MOTOR_OFF"
  using force_disable_stops_motor [OF based_fdc_known] by blast

end
