(* ===== verification/Pic.thy ===== *)
theory Pic
  imports Machine
begin

text \<open>
  kernel/src/interrupts/pic.rs: initialising the two interrupt controllers and acknowledging
  interrupts. What the controllers make of the bytes they receive is described by a small
  interpreter of the 8259A's initialisation words, against which the sequence is checked.
\<close>

section \<open>Operations\<close>

definition IRQ_START :: nat where "IRQ_START = 32"
definition SECONDARY_OFFSET :: u8 where "SECONDARY_OFFSET = 8"
definition EOI_COMMAND :: u8 where "EOI_COMMAND = 0b100000"

definition eoi :: "u8 \<Rightarrow> 'a machine_scheme \<Rightarrow> 'a machine_scheme" where
  "eoi irq k =
     (if 15 < irq then k
      else let k = (if SECONDARY_OFFSET \<le> irq then writeb (port_addr SecondaryPicCmd) EOI_COMMAND k else k)
           in writeb (port_addr MainPicCmd) EOI_COMMAND k)"

definition pic_init :: "'a machine_scheme \<Rightarrow> 'e exit_code \<times> 'a machine_scheme" where
  "pic_init k =
     (let INIT_CMD = 0b10001; MODE_8086 = 0x01; FORWARD_IRQ = 2;
          k = writeb (port_addr MainPicCmd) INIT_CMD k;
          k = writeb (port_addr SecondaryPicCmd) INIT_CMD k;
          k = writeb (port_addr MainPicData) (of_nat IRQ_START) k;
          k = writeb (port_addr SecondaryPicData) (of_nat IRQ_START + SECONDARY_OFFSET) k;
          k = writeb (port_addr MainPicData) (push_bit FORWARD_IRQ 1) k;
          k = writeb (port_addr SecondaryPicData) (of_nat FORWARD_IRQ) k;
          k = writeb (port_addr MainPicData) MODE_8086 k;
          k = writeb (port_addr SecondaryPicData) MODE_8086 k;
          k = writeb (port_addr MainPicData) 0 k;
          k = writeb (port_addr SecondaryPicData) 0 k
      in (ExInfallible, k\<lparr>PIC_INIT := True\<rparr>))"

section \<open>The controller's side\<close>

text \<open>
  A controller that receives an initialisation command expects three more words on its data
  port (vector offset, cascade wiring, mode); afterwards a data write sets the mask.
\<close>

record i8259 =
  pic_expect :: nat
  pic_vector :: u8
  pic_cascade :: u8
  pic_mode :: u8
  pic_mask :: u8
  pic_eois :: nat

definition i8259_command :: "u8 \<Rightarrow> i8259 \<Rightarrow> i8259" where
  "i8259_command v p =
     (if bit v 4 then p\<lparr>pic_expect := 3, pic_mask := 0\<rparr>
      else if v = EOI_COMMAND then p\<lparr>pic_eois := pic_eois p + 1\<rparr> else p)"

definition i8259_data :: "u8 \<Rightarrow> i8259 \<Rightarrow> i8259" where
  "i8259_data v p =
     (if pic_expect p = 3 then p\<lparr>pic_vector := v, pic_expect := 2\<rparr>
      else if pic_expect p = 2 then p\<lparr>pic_cascade := v, pic_expect := 1\<rparr>
      else if pic_expect p = 1 then p\<lparr>pic_mode := v, pic_expect := 0\<rparr>
      else p\<lparr>pic_mask := v\<rparr>)"

text \<open>The controller wired to a command and a data port, after the events of a log.\<close>

fun i8259_after :: "u16 \<Rightarrow> u16 \<Rightarrow> io list \<Rightarrow> i8259 \<Rightarrow> i8259" where
  "i8259_after c d [] p = p"
| "i8259_after c d (e # log) p =
     (let p = i8259_after c d log p
      in case e of
           Out a v \<Rightarrow> if a = c then i8259_command v p else if a = d then i8259_data v p else p
         | _ \<Rightarrow> p)"

abbreviation main_pic :: "io list \<Rightarrow> i8259 \<Rightarrow> i8259" where "main_pic \<equiv> i8259_after 0x20 0x21"
abbreviation secondary_pic :: "io list \<Rightarrow> i8259 \<Rightarrow> i8259" where "secondary_pic \<equiv> i8259_after 0xA0 0xA1"

text \<open>
  C33: whatever state the two controllers were in, initialising them leaves the main one with
  vectors from 32 and the secondary one with vectors from 40, the secondary wired to line 2, both in 8086 mode with no
  line masked and no initialisation pending, and sets \<^verbatim>\<open>PIC_INIT\<close>.
\<close>

theorem pic_init_configures_both:
  "let k' = snd (pic_init k);
       m = main_pic (io_log k') p; s = secondary_pic (io_log k') q
   in PIC_INIT k' \<and> fst (pic_init k) = ExInfallible
    \<and> pic_vector m = 32 \<and> pic_cascade m = 0b100 \<and> pic_mode m = 1 \<and> pic_mask m = 0 \<and> pic_expect m = 0
    \<and> pic_vector s = 40 \<and> pic_cascade s = 2 \<and> pic_mode s = 1 \<and> pic_mask s = 0 \<and> pic_expect s = 0"
  by (simp add: pic_init_def writeb_eq Let_def IRQ_START_def SECONDARY_OFFSET_def i8259_command_def i8259_data_def)

text \<open>
  acknowledging an interrupt request sends exactly one end-of-interrupt to the main controller, and one
  to the secondary controller as well exactly when the line is one of its eight; for a line above 15
  neither receives anything.
\<close>

theorem eoi_acknowledges:
  "let k' = eoi irq k
   in pic_eois (main_pic (io_log k') p) = pic_eois (main_pic (io_log k) p) + (if irq \<le> 15 then 1 else 0)
    \<and> pic_eois (secondary_pic (io_log k') p)
        = pic_eois (secondary_pic (io_log k) p) + (if 8 \<le> irq \<and> irq \<le> 15 then 1 else 0)
    \<and> k'\<lparr>io_log := io_log k\<rparr> = k"
  by (simp add: eoi_def writeb_eq Let_def SECONDARY_OFFSET_def i8259_command_def EOI_COMMAND_def bit_simps
      not_less [symmetric])

end
