(* ===== verification/Irq.thy ===== *)
theory Irq
  imports Motor Pic
begin

text \<open>
  The interrupt handlers of kernel/src/interrupts/idt.rs with what they call, and when they run.
  Handlers run one after the other at the points the machine marks; with the interrupt flag clear
  none runs.
\<close>

section \<open>Keyboard buffer\<close>

record kbd = fdc +
  KBD_BUF :: bytes
  KBD_RPTR :: u8
  KBD_WPTR :: u8
  PREV_RESPONSE :: u8
  SHIFT :: u8
  SYSRQ :: bool

definition kbd_handler :: "env \<Rightarrow> 'a kbd_scheme \<Rightarrow> 'a kbd_scheme" where
  "kbd_handler E k =
     (if \<not> KBD_INIT k then k
      else let k = cli k;
               (scancode, k) = readb_nodummy E (port_addr PS2Data) k;
               ptr = unat (KBD_WPTR k);
               k = k\<lparr>KBD_WPTR := KBD_WPTR k + 1\<rparr>;
               k = k\<lparr>KBD_BUF := (KBD_BUF k)[ptr := scancode]\<rparr>;
               k = k\<lparr>PREV_RESPONSE := scancode\<rparr>
           in sti k)"

section \<open>Handlers\<close>

definition savestate :: "'a machine_scheme \<Rightarrow> 'a machine_scheme" where
  "savestate k = k\<lparr>INTERRUPT_DEPTH := INTERRUPT_DEPTH k + 1\<rparr>"

definition restore_state :: "'a machine_scheme \<Rightarrow> 'a machine_scheme" where
  "restore_state k = k\<lparr>INTERRUPT_DEPTH := INTERRUPT_DEPTH k - 1\<rparr>"

definition timer_handler :: "'a kbd_scheme \<Rightarrow> 'a kbd_scheme" where
  "timer_handler k =
     (let k = savestate k;
          k = k\<lparr>TIME := TIME k + 1\<rparr>;
          k = decrease_motor_time k;
          k = eoi 0 k
      in restore_state k)"

definition kbd_wrapper :: "env \<Rightarrow> 'a kbd_scheme \<Rightarrow> 'a kbd_scheme" where
  "kbd_wrapper E k = restore_state (eoi 1 (kbd_handler E (savestate k)))"

definition floppy_handler :: "'a kbd_scheme \<Rightarrow> 'a kbd_scheme" where
  "floppy_handler k = restore_state (eoi 6 (savestate k))"

definition rtc_handler :: "env \<Rightarrow> 'a kbd_scheme \<Rightarrow> 'a kbd_scheme" where
  "rtc_handler E k =
     (let k = savestate k;
          k = (if RTC_UPDATE_ENDED k = 1 then k
               else let k = writeb_nodummy 0x70 0x8C k;
                        (al, k) = readb_nodummy E 0x71 k
                    in if al \<noteq> al OR 16 then k
                       else sync_time_to_rtc E (k\<lparr>RTC_UPDATE_ENDED := 1\<rparr>));
          k = eoi 8 k
      in restore_state k)"

definition dummy_handler :: "'a kbd_scheme \<Rightarrow> 'a kbd_scheme" where
  "dummy_handler k = k"

fun take_irq :: "env \<Rightarrow> irq \<Rightarrow> 'a kbd_scheme \<Rightarrow> 'a kbd_scheme" where
  "take_irq E TimerIrq k = timer_handler k"
| "take_irq E KbdIrq k = kbd_wrapper E k"
| "take_irq E FloppyIrq k = floppy_handler k"
| "take_irq E RtcIrq k = rtc_handler E k"
| "take_irq E SpuriousIrq k = dummy_handler k"

text \<open>A point at which interrupts are taken, recorded as the event \<open>ev\<close>.\<close>

definition poll :: "env \<Rightarrow> io \<Rightarrow> 'a kbd_scheme \<Rightarrow> 'a kbd_scheme" where
  "poll E ev k =
     (let k = k\<lparr>io_log := ev # io_log k\<rparr>
      in if ints_on k then fold (take_irq E) (irqs E (io_log k)) k else k)"

definition hlt :: "env \<Rightarrow> 'a kbd_scheme \<Rightarrow> 'a kbd_scheme run" where
  "hlt E k = (if ints_on k then Done (poll E Halt k) else Hang)"

section \<open>What interrupts leave alone\<close>

text \<open>
  What keyboard interrupts do to the scancode buffer and its write pointer: each stores one byte and advances the pointer.
\<close>

inductive received :: "bytes \<times> u8 \<Rightarrow> bytes \<times> u8 \<Rightarrow> bool" for q where
  received_none: "received q q"
| received_byte: "received q (b, w) \<Longrightarrow> received q (b[unat w := sc], w + 1)"

lemma received_simps [simp]: "received q q" "received (b, w) (b[unat w := sc], w + 1)"
  by (rule received_none, rule received_byte [OF received_none])

lemma received_trans: "received q q2 \<Longrightarrow> received p q \<Longrightarrow> received p q2"
  by (induction rule: received.induct) (auto intro: received_byte)

text \<open>A text buffer without the cell in its top right corner, where the waiting character is shown.\<close>

definition off_corner :: "u16 list list \<Rightarrow> u16 list \<times> u16 list \<times> u16 list list" where
  "off_corner b = (take 79 (b ! 0), drop 80 (b ! 0), tl b)"

lemma off_corner_update [simp]: "off_corner (b[0 := (b ! 0)[79 := v]]) = off_corner b"
  by (cases b) (simp_all add: off_corner_def)

text \<open>
  The state the interrupted code relies on. Handlers may change the clock, the motor, the log, to which they only add, the
  time read from the real time clock and the last scancode, and scancodes may arrive in the buffer. A wait may also change the cell in the top right corner.
\<close>

definition undisturbed :: "'a kbd_scheme \<Rightarrow> 'a kbd_scheme \<Rightarrow> bool" where
  "undisturbed k k' \<longleftrightarrow>
     (ints_on k \<longrightarrow> ints_on k') \<and> INTERRUPT_DEPTH k' = INTERRUPT_DEPTH k \<and> GDT_INIT k' = GDT_INIT k
     \<and> PIC_INIT k' = PIC_INIT k \<and> PIT_INIT k' = PIT_INIT k \<and> KBD_INIT k' = KBD_INIT k
     \<and> FLOPPY_INIT k' = FLOPPY_INIT k \<and> RTC_IRQ_INIT k' = RTC_IRQ_INIT k
     \<and> BASE_OFFSET k' = BASE_OFFSET k \<and> FLOPPY_SPACE k' = FLOPPY_SPACE k \<and> DRIVE_ONE k' = DRIVE_ONE k
     \<and> READ_BYTES k' = READ_BYTES k \<and> WRITTEN_BYTES k' = WRITTEN_BYTES k \<and> kbd.more k' = kbd.more k
     \<and> WAITING_CHAR k' = WAITING_CHAR k \<and> CURSOR_row k' = CURSOR_row k \<and> ALLOW_ROW_0 k' = ALLOW_ROW_0 k
     \<and> length (KBD_BUF k') = length (KBD_BUF k)
     \<and> received (KBD_BUF k, KBD_WPTR k) (KBD_BUF k', KBD_WPTR k')
     \<and> (\<not> KBD_INIT k \<longrightarrow> KBD_BUF k' = KBD_BUF k \<and> KBD_WPTR k' = KBD_WPTR k \<and> PREV_RESPONSE k' = PREV_RESPONSE k)
     \<and> KBD_RPTR k' = KBD_RPTR k \<and> SHIFT k' = SHIFT k \<and> SYSRQ k' = SYSRQ k
     \<and> off_corner (vga_memory k') = off_corner (vga_memory k) \<and> boot_buffer k' = boot_buffer k
     \<and> buffer_connected k' = buffer_connected k \<and> BUFFER_HELD k' = BUFFER_HELD k \<and> ALT k' = ALT k \<and> TMP k' = TMP k
     \<and> CURSOR_column k' = CURSOR_column k"

lemma undisturbed_refl [simp]: "undisturbed k k"
  by (simp add: undisturbed_def)

lemma undisturbed_trans [trans]: "undisturbed a b \<Longrightarrow> undisturbed b c \<Longrightarrow> undisturbed a c"
  using received_trans [of "(KBD_BUF b, KBD_WPTR b)" "(KBD_BUF c, KBD_WPTR c)" "(KBD_BUF a, KBD_WPTR a)"] by (simp add: undisturbed_def)

text \<open>The screen, as an interrupt sees it: no handler prints.\<close>

definition same_screen :: "'a kbd_scheme \<Rightarrow> 'a kbd_scheme \<Rightarrow> bool" where
  "same_screen k k' \<longleftrightarrow>
     vga_memory k' = vga_memory k \<and> boot_buffer k' = boot_buffer k \<and> buffer_connected k' = buffer_connected k
     \<and> BUFFER_HELD k' = BUFFER_HELD k \<and> ALT k' = ALT k \<and> TMP k' = TMP k \<and> CURSOR_row k' = CURSOR_row k
     \<and> CURSOR_column k' = CURSOR_column k \<and> ALLOW_ROW_0 k' = ALLOW_ROW_0 k \<and> WAITING_PREV k' = WAITING_PREV k"

lemma same_screen_refl [simp]: "same_screen k k"
  by (simp add: same_screen_def)

lemma same_screen_trans: "same_screen a b \<Longrightarrow> same_screen b c \<Longrightarrow> same_screen a c"
  by (simp add: same_screen_def)

lemma same_screen_vga_ok: "same_screen a b \<Longrightarrow> vga_ok b = vga_ok a"
  by (simp add: same_screen_def vga_ok_def)

lemmas handler_defs = timer_handler_def kbd_wrapper_def floppy_handler_def rtc_handler_def dummy_handler_def
  savestate_def restore_state_def eoi_def SECONDARY_OFFSET_def

lemma decrease_frame:
  fixes k :: "'a kbd_scheme"
  shows "undisturbed k (decrease_motor_time k)" "same_screen k (decrease_motor_time k)"
    "TIME (decrease_motor_time k) = TIME k"
  by (auto simp: undisturbed_def same_screen_def decrease_motor_time_def send_disable_cmd_def writeb_eq Let_def
      split: sum.splits)

lemma decrease_depth:
  fixes k :: "'a kbd_scheme"
  shows "decrease_motor_time (k\<lparr>INTERRUPT_DEPTH := d, TIME := t\<rparr>) = (decrease_motor_time k)\<lparr>INTERRUPT_DEPTH := d, TIME := t\<rparr>"
  by (auto simp: decrease_motor_time_def send_disable_cmd_def add_offset_def writeb_eq Let_def split: sum.splits)

lemma timer_handler_eq:
  fixes k :: "'a kbd_scheme"
  shows "timer_handler k = (decrease_motor_time k)
     \<lparr>TIME := TIME k + 1, io_log := Out 0x20 EOI_COMMAND # Out 0x80 0 # io_log (decrease_motor_time k)\<rparr>"
proof -
  have d: "INTERRUPT_DEPTH (decrease_motor_time k) = INTERRUPT_DEPTH k"
    using decrease_frame(1) [of k] by (simp add: undisturbed_def)
  have "timer_handler k = (decrease_motor_time k)
     \<lparr>INTERRUPT_DEPTH := INTERRUPT_DEPTH k, TIME := TIME k + 1,
      io_log := Out 0x20 EOI_COMMAND # Out 0x80 0 # io_log (decrease_motor_time k)\<rparr>"
    by (simp add: handler_defs decrease_depth writeb_eq Let_def)
  then show ?thesis using d [symmetric] by simp
qed

lemma take_irq_frame:
  fixes k :: "'a kbd_scheme"
  shows "undisturbed k (take_irq E i k) \<and> same_screen k (take_irq E i k)
    \<and> TIME (take_irq E i k) = TIME k + (if i = TimerIrq then 1 else 0)"
proof (cases i)
  case TimerIrq
  then show ?thesis using decrease_frame [of k] by (simp add: timer_handler_eq undisturbed_def same_screen_def)
next
  case KbdIrq
  then show ?thesis
    by (simp add: handler_defs kbd_handler_def readb_nodummy_def undisturbed_def same_screen_def writeb_eq
        Let_def sti_def cli_def)
next
  case FloppyIrq
  then show ?thesis by (simp add: handler_defs undisturbed_def same_screen_def writeb_eq Let_def)
next
  case RtcIrq
  then show ?thesis
    by (simp add: handler_defs undisturbed_def same_screen_def writeb_eq writeb_nodummy_def readb_nodummy_def
        sync_time_to_rtc_def time_now_def read_cmos_reg_eq Let_def)
next
  case SpuriousIrq
  then show ?thesis by (simp add: handler_defs)
qed

lemma fold_irq_frame:
  fixes k :: "'a kbd_scheme"
  shows "undisturbed k (fold (take_irq E) is k) \<and> same_screen k (fold (take_irq E) is k)
    \<and> TIME (fold (take_irq E) is k) = TIME k + of_nat (count_list is TimerIrq)"
proof (induction "is" arbitrary: k)
  case (Cons i "is")
  from take_irq_frame [of k E i] Cons [of "take_irq E i k"] show ?case
    by (auto intro: undisturbed_trans same_screen_trans)
qed simp

lemma poll_frame:
  fixes k :: "'a kbd_scheme"
  shows "undisturbed k (poll E ev k)" "same_screen k (poll E ev k)"
    "ints_on k \<Longrightarrow> TIME (poll E ev k) = TIME k + of_nat (count_list (irqs E (ev # io_log k)) TimerIrq)"
    "\<not> ints_on k \<Longrightarrow> poll E ev k = k\<lparr>io_log := ev # io_log k\<rparr>"
proof -
  let ?k = "k\<lparr>io_log := ev # io_log k\<rparr>"
  have "undisturbed k ?k" "same_screen k ?k" "TIME ?k = TIME k"
    by (simp_all add: undisturbed_def same_screen_def)
  with fold_irq_frame [of ?k E "irqs E (io_log ?k)"]
  show "undisturbed k (poll E ev k)" "same_screen k (poll E ev k)"
    "ints_on k \<Longrightarrow> TIME (poll E ev k) = TIME k + of_nat (count_list (irqs E (ev # io_log k)) TimerIrq)"
    by (auto simp: poll_def Let_def intro: undisturbed_trans same_screen_trans)
  show "\<not> ints_on k \<Longrightarrow> poll E ev k = k\<lparr>io_log := ev # io_log k\<rparr>" by (simp add: poll_def Let_def)
qed

text \<open>
  C17: whatever interrupts arrive while the kernel polls, the interrupted code finds its drivers'
  flags, the interrupt depth, the floppy driver's configuration and the screen unchanged, the
  interrupt flag still set and its place in the scancode buffer kept, to which scancodes are only added; the clock advances by the number of timer interrupts taken.
\<close>

theorem interrupts_do_not_disturb:
  fixes k :: "'a kbd_scheme"
  assumes "ints_on k"
  shows "undisturbed k (poll E ev k) \<and> same_screen k (poll E ev k) \<and> ints_on (poll E ev k)
    \<and> TIME (poll E ev k) = TIME k + of_nat (count_list (irqs E (ev # io_log k)) TimerIrq)"
  using assms poll_frame [of k E ev] by (auto simp: undisturbed_def)

definition initial_kbd :: kbd where
  "initial_kbd = fdc.extend based_fdc \<lparr>KBD_BUF = replicate 256 0, KBD_RPTR = 0, KBD_WPTR = 0, PREV_RESPONSE = 0,
     SHIFT = 0, SYSRQ = False\<rparr>"

theorem interrupts_do_not_disturb_witness:
  "TIME (poll sample_env Halt (sti initial_kbd)) = TIME initial_kbd + 1"
  using interrupts_do_not_disturb [of "sti initial_kbd" sample_env Halt] by (simp add: sti_def sample_env_def)

end
