(* ===== verification/Clock.thy ===== *)
theory Clock
  imports Irq
begin

text \<open>
  kernel/src/time.rs, the parts that wait for interrupts: reading the tick counter, waiting for a
  number of ticks and waiting for the real time clock.
\<close>

section \<open>Operations\<close>

definition get_time :: "env \<Rightarrow> 'a kbd_scheme \<Rightarrow> u64 \<times> 'a kbd_scheme" where
  "get_time E k = (let k = poll E ClockRead k in (TIME k, k))"

fun wait_loop :: "env \<Rightarrow> nat \<Rightarrow> u64 \<Rightarrow> 'a kbd_scheme \<Rightarrow> 'a kbd_scheme run" where
  "wait_loop E 0 target_time k = Hang"
| "wait_loop E (Suc n) target_time k =
     (let (t, k) = get_time E k
      in if t < target_time then andThen (hlt E k) (wait_loop E n target_time) else Done k)"

definition wait :: "env \<Rightarrow> u64 \<Rightarrow> 'a kbd_scheme \<Rightarrow> 'a kbd_scheme run" where
  "wait E ticks k =
     (if \<not> PIT_INIT k then Done k
      else let k = set_waiting_char True k;
               (now, k) = get_time E k;
               target_time = now + ticks + 1
           in andThen (wait_loop E (fuel E) target_time k) (\<lambda>k. Done (set_waiting_char False k)))"

datatype rtc_sync_wait_error = NoIrq | NoStatic u8

definition rtc_sync_wait_error_display :: "rtc_sync_wait_error \<Rightarrow> string" where
  "rtc_sync_wait_error_display e =
     (case e of
        NoIrq \<Rightarrow> ''The RTC IRQ isn't enabled!''
      | NoStatic s \<Rightarrow> ''RTC handler failed setting launch time, static's init state is '' @ dec_str (unat s))"

fun rtc_spin :: "env \<Rightarrow> nat \<Rightarrow> 'a kbd_scheme \<Rightarrow> 'a kbd_scheme run" where
  "rtc_spin E 0 k = Hang"
| "rtc_spin E (Suc n) k = (if RTC_SYNC_DONE k then Done k else rtc_spin E n (poll E Spin k))"

definition wait_for_rtc_sync :: "env \<Rightarrow> 'a kbd_scheme \<Rightarrow> (rtc_sync_wait_error exit_code \<times> 'a kbd_scheme) run" where
  "wait_for_rtc_sync E k =
     (if \<not> RTC_IRQ_INIT k then Done (ExError NoIrq, k)
      else andThen (rtc_spin E (fuel E) k)
             (\<lambda>k. case init_later_read (LAUNCH_TIME k) of
                    Inl e \<Rightarrow> Done (ExError (NoStatic (ie_state e)), k)
                  | Inr _ \<Rightarrow> Done (ExOk, k)))"

section \<open>Frames\<close>

text \<open>What a wait may do to the screen: nothing that is left when it returns.\<close>

lemma set_waiting_frame:
  fixes k :: "'a kbd_scheme"
  shows "undisturbed k (set_waiting_char b k)" "TIME (set_waiting_char b k) = TIME k"
    "io_log (set_waiting_char b k) = io_log k" "ints_on (set_waiting_char b k) = ints_on k"
    "MOTOR_STATE (set_waiting_char b k) = MOTOR_STATE k"
  by (simp_all add: undisturbed_def set_waiting_char_def write_volatile_def vga_cell_def CORNER_TOP_RIGHT_def Let_def)

lemma wait_loop_frame:
  fixes k :: "'a kbd_scheme"
  shows "wait_loop E n target k = Done k' \<Longrightarrow> undisturbed k k' \<and> same_screen k k'"
proof (induction n arbitrary: k)
  case (Suc n)
  let ?k1 = "poll E ClockRead k" and ?k2 = "poll E Halt (poll E ClockRead k)"
  have 1: "undisturbed k ?k1" "same_screen k ?k1" "undisturbed ?k1 ?k2" "same_screen ?k1 ?k2"
    by (simp_all add: poll_frame)
  show ?case
  proof (cases "TIME ?k1 < target")
    case True
    with Suc.prems have "wait_loop E n target ?k2 = Done k'"
      by (simp add: get_time_def hlt_def Let_def split: if_splits)
    from Suc.IH [OF this] 1 show ?thesis
      by (meson undisturbed_trans same_screen_trans)
  next
    case False
    with Suc.prems 1 show ?thesis by (auto simp: get_time_def Let_def)
  qed
qed simp

text \<open>Waiting leaves the drivers' state alone, and the invariant of the screen.\<close>

lemma vga_ok_waiting:
  assumes "vga_ok k" shows "vga_ok (set_waiting_char b k)"
proof -
  have c: "vga_cell CORNER_TOP_RIGHT = (0, 79)" by (simp add: vga_cell_def CORNER_TOP_RIGHT_def)
  have "buf_ok (vga_memory k)" using assms by (simp add: vga_ok_def)
  then have "buf_ok ((vga_memory k)[0 := (vga_memory k ! 0)[79 := v]])" for v
    by (intro buf_ok_update) (simp_all add: buf_ok_row)
  then show ?thesis
    using assms by (simp add: set_waiting_char_def read_volatile_def write_volatile_def c vga_ok_def Let_def)
qed

lemma wait_frame:
  fixes k :: "'a kbd_scheme"
  assumes "wait E ticks k = Done k'"
  shows "undisturbed k k'" and "vga_ok k \<Longrightarrow> vga_ok k'"
proof -
  have "undisturbed k k' \<and> (vga_ok k \<longrightarrow> vga_ok k')"
  proof (cases "PIT_INIT k")
    case True
    let ?w = "set_waiting_char True k"
    let ?k1 = "poll E ClockRead ?w"
    from True assms obtain k2 where k2: "wait_loop E (fuel E) (TIME ?k1 + ticks + 1) ?k1 = Done k2"
      "k' = set_waiting_char False k2"
      by (auto simp: wait_def get_time_def Let_def andThen_eq_Done)
    note f = wait_loop_frame [OF k2(1)]
    have "undisturbed k k'"
      using set_waiting_frame(1) poll_frame(1) f k2(2) by (metis undisturbed_trans)
    moreover have "vga_ok k'" if "vga_ok k"
    proof -
      have "vga_ok ?k1" using vga_ok_waiting [OF that] same_screen_vga_ok poll_frame(2) by metis
      then have "vga_ok k2" using same_screen_vga_ok f by metis
      then show ?thesis using k2(2) vga_ok_waiting by simp
    qed
    ultimately show ?thesis by blast
  qed (use assms in \<open>simp add: wait_def\<close>)
  then show "undisturbed k k'" and "vga_ok k \<Longrightarrow> vga_ok k'" by blast+
qed

section \<open>How long a wait takes\<close>

text \<open>
  The interrupt controller latches at most one request per line; a halted processor is woken by the
  timer.
\<close>

definition timer_latched :: "env \<Rightarrow> bool" where
  "timer_latched E \<longleftrightarrow> (\<forall>log. count_list (irqs E log) TimerIrq \<le> 1)"

definition timer_wakes :: "env \<Rightarrow> bool" where
  "timer_wakes E \<longleftrightarrow> (\<forall>log. TimerIrq \<in> set (irqs E (Halt # log)))"

lemma poll_time:
  fixes k :: "'a kbd_scheme"
  assumes "timer_latched E" and "ints_on k" and "unat (TIME k) < 2 ^ 64 - 1"
  shows "unat (TIME (poll E ev k)) = unat (TIME k) + count_list (irqs E (ev # io_log k)) TimerIrq"
proof -
  have "count_list (irqs E (ev # io_log k)) TimerIrq \<le> 1" using assms(1) by (simp add: timer_latched_def)
  then have "count_list (irqs E (ev # io_log k)) TimerIrq = 0 \<or> count_list (irqs E (ev # io_log k)) TimerIrq = 1"
    by linarith
  then show ?thesis
    using poll_frame(3) [OF assms(2), of E ev] assms(3) by (auto simp: unat_word_ariths)
qed

lemma wait_loop_time:
  fixes k :: "'a kbd_scheme"
  assumes "timer_latched E" and "timer_wakes E"
  shows "ints_on k \<Longrightarrow> unat target < 2 ^ 64 - 3 \<Longrightarrow> unat (TIME k) \<le> unat target \<Longrightarrow>
    unat target < unat (TIME k) + n \<Longrightarrow>
    \<exists>k'. wait_loop E n target k = Done k' \<and> unat target \<le> unat (TIME k') \<and> unat (TIME k') \<le> unat target + 1"
proof (induction n arbitrary: k)
  case (Suc n)
  let ?k1 = "poll E ClockRead k"
  let ?k2 = "poll E Halt ?k1"
  have t1: "unat (TIME ?k1) = unat (TIME k) + count_list (irqs E (ClockRead # io_log k)) TimerIrq"
    using poll_time [OF assms(1) Suc.prems(1)] Suc.prems(2,3) by simp
  moreover have "count_list (irqs E (ClockRead # io_log k)) TimerIrq \<le> 1"
    using assms(1) by (simp add: timer_latched_def)
  ultimately have b1: "unat (TIME k) \<le> unat (TIME ?k1)" "unat (TIME ?k1) \<le> unat (TIME k) + 1" by simp_all
  have i1: "ints_on ?k1" using Suc.prems(1) poll_frame(1) [of k E ClockRead] by (simp add: undisturbed_def)
  show ?case
  proof (cases "TIME ?k1 < target")
    case True
    then have lt: "unat (TIME ?k1) < unat target" by (simp add: word_less_nat_alt)
    have "count_list (irqs E (Halt # io_log ?k1)) TimerIrq = 1"
    proof -
      have "TimerIrq \<in> set (irqs E (Halt # io_log ?k1))" using assms(2) by (simp add: timer_wakes_def)
      then have "count_list (irqs E (Halt # io_log ?k1)) TimerIrq \<noteq> 0" by (simp add: count_list_0_iff)
      moreover have "count_list (irqs E (Halt # io_log ?k1)) TimerIrq \<le> 1"
        using assms(1) by (simp add: timer_latched_def)
      ultimately show ?thesis by linarith
    qed
    then have t2: "unat (TIME ?k2) = unat (TIME ?k1) + 1"
      using poll_time [OF assms(1) i1, of Halt] lt Suc.prems(2) by simp
    have i2: "ints_on ?k2" using i1 poll_frame(1) [of ?k1 E Halt] by (simp add: undisturbed_def)
    have "unat (TIME ?k2) \<le> unat target" "unat target < unat (TIME ?k2) + n"
      using t2 lt b1 Suc.prems(4) by simp_all
    from Suc.IH [OF i2 Suc.prems(2) this] show ?thesis
      using True i1 by (simp add: get_time_def hlt_def Let_def)
  next
    case False
    then have "unat target \<le> unat (TIME ?k1)" by (simp add: word_less_nat_alt)
    then show ?thesis using False b1 Suc.prems(3) by (simp add: get_time_def Let_def)
  qed
qed simp

lemma wait_time:
  fixes k :: "'a kbd_scheme"
  assumes "timer_latched E" and "timer_wakes E" and "ints_on k" and "unat ticks + 1 < fuel E"
    and "unat (TIME k) + unat ticks + 5 < 2 ^ 64"
  shows "if PIT_INIT k
    then \<exists>k'. wait E ticks k = Done k' \<and> undisturbed k k'
          \<and> unat (TIME k) + unat ticks + 1 \<le> unat (TIME k') \<and> unat (TIME k') \<le> unat (TIME k) + unat ticks + 3
    else wait E ticks k = Done k"
proof (cases "PIT_INIT k")
  case True
  let ?w = "set_waiting_char True k"
  let ?k1 = "poll E ClockRead ?w"
  let ?target = "TIME ?k1 + ticks + 1"
  note w = set_waiting_frame [where b = True and k = k]
  have iw: "ints_on ?w" using assms(3) w by simp
  have "count_list (irqs E (ClockRead # io_log ?w)) TimerIrq \<le> 1" using assms(1) by (simp add: timer_latched_def)
  then have t1: "unat (TIME k) \<le> unat (TIME ?k1)" "unat (TIME ?k1) \<le> unat (TIME k) + 1"
    using poll_time [OF assms(1) iw, of ClockRead] assms(5) w(2) by simp_all
  have tgt: "unat ?target = unat (TIME ?k1) + unat ticks + 1"
    using t1 assms(5) by (simp add: unat_word_ariths)
  have i1: "ints_on ?k1" using iw poll_frame(1) [of ?w E ClockRead] by (simp add: undisturbed_def)
  obtain k2 where k2: "wait_loop E (fuel E) ?target ?k1 = Done k2" "unat ?target \<le> unat (TIME k2)"
    "unat (TIME k2) \<le> unat ?target + 1"
    using wait_loop_time [OF assms(1,2) i1, of ?target "fuel E"] tgt t1 assms(4,5) by auto
  then have run: "wait E ticks k = Done (set_waiting_char False k2)"
    using True by (simp add: wait_def get_time_def Let_def)
  from wait_frame(1) [OF this] run k2 tgt t1 True show ?thesis by (auto simp: set_waiting_frame)
qed (simp add: wait_def)

text \<open>
  C18: with the timer running and interrupts enabled a wait of \<open>ticks\<close> ticks returns, with any bound on
  its loop above \<open>ticks + 1\<close> iterations, at least \<open>ticks + 1\<close> and at most \<open>ticks + 3\<close> ticks after it was called,
  and leaves the other drivers' state as it was; without a timer it returns at once.
\<close>

theorem wait_duration:
  fixes k :: "'a kbd_scheme"
  assumes "timer_latched E" and "timer_wakes E" and "ints_on k" and "unat ticks + 1 < fuel E"
    and "unat (TIME k) + unat ticks + 5 < 2 ^ 64"
  shows "if PIT_INIT k
    then \<exists>k'. wait E ticks k = Done k' \<and> undisturbed k k'
          \<and> unat (TIME k) + unat ticks + 1 \<le> unat (TIME k') \<and> unat (TIME k') \<le> unat (TIME k) + unat ticks + 3
    else wait E ticks k = Done k"
  using assms by (rule wait_time)

lemma sample_env_timer: "timer_latched sample_env" "timer_wakes sample_env"
  by (simp_all add: timer_latched_def timer_wakes_def sample_env_def)

definition running_kbd :: kbd where
  "running_kbd = initial_kbd\<lparr>ints_on := True, PIT_INIT := True\<rparr>"

theorem wait_duration_witness:
  "\<exists>k'. wait sample_env 15 running_kbd = Done k' \<and> 16 \<le> unat (TIME k') \<and> unat (TIME k') \<le> 18"
proof -
  have "TIME running_kbd = 0" "PIT_INIT running_kbd" "ints_on running_kbd" "fuel sample_env = 100"
    by (simp_all add: running_kbd_def initial_kbd_def based_fdc_def initial_fdc_def initial_clock_def
        fdc.extend_def clock.extend_def vga.extend_def sample_env_def)
  with wait_duration [OF sample_env_timer, of running_kbd 15] show ?thesis by auto
qed

text \<open>
  a halt with interrupts disabled never returns, so a wait in that state does not return for any
  bound on its loop (unless the timer is missing).
\<close>

theorem wait_needs_interrupts:
  fixes k :: "'a kbd_scheme"
  assumes "\<not> ints_on k" and "PIT_INIT k" and "unat (TIME k) + unat ticks + 1 < 2 ^ 64"
  shows "wait E ticks k = Hang"
proof -
  let ?w = "set_waiting_char True k"
  have iw: "\<not> ints_on ?w" "TIME ?w = TIME k" using assms(1) by (simp_all add: set_waiting_frame)
  have p: "TIME (poll E ClockRead k) = TIME k" "\<not> ints_on (poll E ClockRead k)" if "\<not> ints_on k" for k :: "'a kbd_scheme"
    using that by (simp_all add: poll_frame(4))
  have "TIME k < TIME k + ticks + 1"
    using assms(3) by (simp add: word_less_nat_alt unat_word_ariths)
  then have "wait_loop E n (TIME k + ticks + 1) (poll E ClockRead ?w) = Hang" for n
    using p iw by (cases n) (simp_all add: get_time_def hlt_def Let_def)
  then show ?thesis using assms(2) p iw by (simp add: wait_def get_time_def Let_def)
qed

theorem wait_needs_interrupts_witness: "wait sample_env 1 (cli running_kbd) = Hang"
  by (rule wait_needs_interrupts) (simp_all add: cli_def running_kbd_def initial_kbd_def based_fdc_def
      initial_fdc_def initial_clock_def fdc.extend_def clock.extend_def vga.extend_def)

end
