(* ===== verification/Fifo.thy ===== *)
theory Fifo
  imports Clock
begin

text \<open>
  kernel/src/floppy/fifo.rs and kernel/src/floppy/reset.rs, with \<^verbatim>\<open>enable_motor\<close> of motor.rs and
  the error type of floppy.rs. Sending a command may reset the controller, and a reset sends commands: the
  functions are written with the reset as a parameter and tied together by \<open>init_fdc\<close>, whose depth
  of nesting is bounded by the fuel.
\<close>

section \<open>Errors and commands\<close>

datatype fifo_io_error = FifoRead | FifoWrite u8

datatype send_cmd_error = BadCommand u8 | BadParameter u8 nat | ResetError u8

datatype sense_int_error = ResendCommand | ControllerLockup | CommandFailed | UnknownError

datatype disk_error =
    BadBufLen u64 | ControllerUninit | SendCommandTimeout | IoTimeout | DiskFifoTimeout
  | BadSectOrHead u8 u8 | NotWritable | EndOfDrive | BadSt0Bits | DriveNotReady | NoDataFound
  | ControllerTimeout | EndOfCylinder | CRCError | BadCylinder | DifferingCylinder | NoAddressMark

datatype floppy_error =
    InitStatic init_error | SendCommand send_cmd_error | SenseInterrupt sense_int_error
  | ReadOrWrite disk_error | FifoTimeout fifo_io_error | OtherError string

definition TIMEOUT :: u64 where "TIMEOUT = 30"
definition RETRIES :: nat where "RETRIES = 5"
definition ST0_ERR_OR_RESET :: u8 where "ST0_ERR_OR_RESET = 0xC0"

datatype floppy_command =
    Specify | WriteDataWithFlags | ReadDataWithFlags | Recalibrate | CmdSenseInterrupt | CmdSeek | Version | Configure

definition MFM_BIT :: u8 where "MFM_BIT = 0x40"

fun command_code :: "floppy_command \<Rightarrow> u8" where
  "command_code Specify = 3"
| "command_code WriteDataWithFlags = 5 OR MFM_BIT"
| "command_code ReadDataWithFlags = 6 OR MFM_BIT"
| "command_code Recalibrate = 7"
| "command_code CmdSenseInterrupt = 8"
| "command_code CmdSeek = 15"
| "command_code Version = 16"
| "command_code Configure = 19"

datatype sense_int_state = SeekOrRecal | FirstReset | OtherReset

section \<open>The motor\<close>

definition send_enable_cmd :: "env \<Rightarrow> ('a kbd_scheme, init_error, unit) fallible" where
  "send_enable_cmd E k =
     (case add_offset DigitalOutputRegister k of
        Inl e \<Rightarrow> throw e k
      | Inr dor_port \<Rightarrow>
          let DRIVE0_COMMAND = 0b010100; DRIVE1_COMMAND = 0b100101;
              k = (if DRIVE_ONE k then writeb dor_port DRIVE1_COMMAND k else writeb dor_port DRIVE0_COMMAND k);
              k = k\<lparr>MOTOR_STATE := MOTOR_ON\<rparr>
          in run_then (wait E 50) (ok ()) k)"

definition enable_motor :: "env \<Rightarrow> ('a kbd_scheme, init_error, unit) fallible" where
  "enable_motor E k =
     (if MOTOR_STATE k = MOTOR_OFF then send_enable_cmd E k
      else if MOTOR_STATE k = MOTOR_DISABLING then ok () (k\<lparr>MOTOR_STATE := MOTOR_ON\<rparr>)
      else ok () k)"

section \<open>Bytes\<close>

definition rqm_dio :: "u8 \<Rightarrow> u8" where
  "rqm_dio m = drop_bit 6 m AND 0b11"

fun send_byte_loop :: "env \<Rightarrow> nat \<Rightarrow> u64 \<Rightarrow> u8 \<Rightarrow> ('a kbd_scheme, floppy_error, unit) fallible" where
  "send_byte_loop E 0 start_time byte k = Hang"
| "send_byte_loop E (Suc n) start_time byte k =
     (let (t, k) = get_time E k
      in if t < start_time + TIMEOUT
         then try_then (map_err InitStatic (enable_motor E))
                (\<lambda>_. try_then (map_err InitStatic (msr E))
                (\<lambda>m. if rqm_dio m = 0b10
                     then (\<lambda>k. case add_offset Fifo k of
                                 Inl e \<Rightarrow> throw (InitStatic e) k
                               | Inr p \<Rightarrow> ok () (disable_motor (writeb p byte k)))
                     else send_byte_loop E n start_time byte)) k
         else throw (FifoTimeout (FifoWrite byte)) (disable_motor k))"

definition send_byte :: "env \<Rightarrow> u8 \<Rightarrow> ('a kbd_scheme, floppy_error, unit) fallible" where
  "send_byte E byte k =
     (let (start_time, k) = get_time E k in send_byte_loop E (fuel E) start_time byte k)"

fun read_byte_loop :: "env \<Rightarrow> nat \<Rightarrow> u64 \<Rightarrow> ('a kbd_scheme, floppy_error, u8) fallible" where
  "read_byte_loop E 0 start_time k = Hang"
| "read_byte_loop E (Suc n) start_time k =
     (let (t, k) = get_time E k
      in if t < start_time + TIMEOUT
         then try_then (map_err InitStatic (enable_motor E))
                (\<lambda>_. try_then (map_err InitStatic (msr E))
                (\<lambda>m. if rqm_dio m = 0b11
                     then (\<lambda>k. let k = disable_motor k
                               in case add_offset Fifo k of
                                    Inl e \<Rightarrow> throw (InitStatic e) k
                                  | Inr p \<Rightarrow> (let (v, k) = readb E p k in ok v k))
                     else read_byte_loop E n start_time)) k
         else throw (FifoTimeout FifoRead) (disable_motor k))"

definition read_byte :: "env \<Rightarrow> ('a kbd_scheme, floppy_error, u8) fallible" where
  "read_byte E k =
     (let (start_time, k) = get_time E k in read_byte_loop E (fuel E) start_time k)"

section \<open>Commands\<close>

text \<open>The parameters in order; on failure the index of the one that was not accepted.\<close>

fun send_params :: "env \<Rightarrow> nat \<Rightarrow> bytes \<Rightarrow> ('a kbd_scheme, nat, unit) fallible" where
  "send_params E idx [] k = ok () k"
| "send_params E idx (param # params) k =
     match_res (send_byte E param) (\<lambda>_. throw idx) (\<lambda>_. send_params E (idx + 1) params) k"

text \<open>\<open>rst\<close> stands for \<^verbatim>\<open>reset::init_fdc\<close>.\<close>

fun send_command_loop ::
  "env \<Rightarrow> ('a kbd_scheme, floppy_error, unit) fallible \<Rightarrow> nat \<Rightarrow> send_cmd_error + unit \<Rightarrow> u8 \<Rightarrow> bytes
   \<Rightarrow> ('a kbd_scheme, send_cmd_error, unit) fallible" where
  "send_command_loop E rst 0 err cmd params k = Done (err, k)"
| "send_command_loop E rst (Suc n) err cmd params k =
     match_res (send_byte E cmd)
       (\<lambda>_. match_res rst (\<lambda>_. throw (ResetError cmd))
              (\<lambda>_. send_command_loop E rst n (Err (BadCommand cmd)) cmd params))
       (\<lambda>_. match_res (send_params E 0 params)
              (\<lambda>idx. match_res rst (\<lambda>_. throw (ResetError cmd))
                 (\<lambda>_. send_command_loop E rst n (Err (BadParameter cmd idx)) cmd params))
              (\<lambda>_. ok ())) k"

definition send_command_with ::
  "env \<Rightarrow> ('a kbd_scheme, floppy_error, unit) fallible \<Rightarrow> floppy_command \<Rightarrow> bytes
   \<Rightarrow> ('a kbd_scheme, send_cmd_error, unit) fallible" where
  "send_command_with E rst cmd params = send_command_loop E rst RETRIES (Ok ()) (command_code cmd) params"

definition all_fail_msg :: string where
  "all_fail_msg = ''All following floppy operations will fail''"

definition controller_lockup ::
  "('a kbd_scheme, floppy_error, unit) fallible \<Rightarrow> bool \<Rightarrow> ('a kbd_scheme, floppy_error, unit) fallible" where
  "controller_lockup rst in_reset =
     (if in_reset
      then run_then (print ''FDC reset caused a controller lockup!'')
            (run_then (println LightRed all_fail_msg) (\<lambda>k. ok () (k\<lparr>FLOPPY_INIT := False\<rparr>)))
      else try_then rst (\<lambda>_. ok ()))"

definition sense_int_with ::
  "env \<Rightarrow> ('a kbd_scheme, floppy_error, unit) fallible \<Rightarrow> sense_int_state
   \<Rightarrow> ('a kbd_scheme, floppy_error, unit) fallible" where
  "sense_int_with E rst state =
     try_then (send_byte E (command_code CmdSenseInterrupt)) (\<lambda>_.
     try_then (read_byte E) (\<lambda>st0.
     try_then (read_byte E) (\<lambda>_. \<lambda>k.
       let drive_num = (if DRIVE_ONE k then 1 else 0);
           seek_recal_ok = (st0 = (0x20 OR drive_num));
           reset_or_err = (st0 = (ST0_ERR_OR_RESET OR drive_num))
       in if (reset_or_err \<and> state = FirstReset) \<or> (seek_recal_ok \<and> state = SeekOrRecal) then ok () k
          else if st0 = 0x80
          then try_then (controller_lockup rst (state \<noteq> SeekOrRecal))
                 (\<lambda>_. throw (SenseInterrupt ControllerLockup)) k
          else if \<not> seek_recal_ok \<and> state = SeekOrRecal then throw (SenseInterrupt ResendCommand) k
          else if reset_or_err \<and> state = SeekOrRecal then throw (SenseInterrupt CommandFailed) k
          else if state = OtherReset then ok () k
          else throw (SenseInterrupt UnknownError) k)))"

section \<open>Reset\<close>

definition send_configure_with ::
  "env \<Rightarrow> ('a kbd_scheme, floppy_error, unit) fallible \<Rightarrow> ('a kbd_scheme, floppy_error, unit) fallible" where
  "send_configure_with E rst =
     (let PARAMS = [0, push_bit 6 1 OR push_bit 5 0 OR push_bit 4 1 OR 7, 0]
      in try_then (map_err SendCommand (send_command_with E rst Configure PARAMS)) (\<lambda>_. ok ()))"

text \<open>The data rate register's value and the data rate for a drive's capacity in KB.\<close>

definition ccr_datarate :: "u16 \<Rightarrow> (u8 \<times> u64) option" where
  "ccr_datarate kb =
     (if kb = 1200 \<or> kb = 1440 then Some (0, 500000) else if kb = 2880 then Some (3, 1000000) else None)"

definition specify_params :: "u64 \<Rightarrow> bytes" where
  "specify_params datarate =
     (let srt = ucast (16 - (8 * datarate div 500000)) :: u8;
          hlt = ucast (10 * datarate div 1000000) :: u8;
          HUT = 0; NDMA = 1
      in [push_bit 4 srt OR HUT, push_bit 1 hlt OR NDMA])"

definition reset_pulse :: "env \<Rightarrow> u16 \<Rightarrow> 'a kbd_scheme \<Rightarrow> 'a kbd_scheme run" where
  "reset_pulse E dor k =
     (let (prev, k) = readb E dor k;
          k = writeb dor 0 k
      in andThen (wait E 1 k) (\<lambda>k. Done (writeb dor prev k)))"

definition init_fdc_with ::
  "env \<Rightarrow> ('a kbd_scheme, floppy_error, unit) fallible \<Rightarrow> ('a kbd_scheme, floppy_error, unit) fallible" where
  "init_fdc_with E rst =
     try_then (map_err InitStatic (enable_motor E)) (\<lambda>_.
     try_then (\<lambda>k. case add_offset DigitalOutputRegister k of Inl e \<Rightarrow> throw (InitStatic e) k | Inr dor \<Rightarrow> ok dor k) (\<lambda>dor.
     run_then (reset_pulse E dor) (
     try_then (sense_int_with E rst FirstReset) (\<lambda>_.
     try_then (sense_int_with E rst OtherReset) (\<lambda>_.
     try_then (sense_int_with E rst OtherReset) (\<lambda>_.
     try_then (sense_int_with E rst OtherReset) (\<lambda>_.
     try_then (send_configure_with E rst) (\<lambda>_.
     try_then (\<lambda>k. case init_later_read (FLOPPY_SPACE k) of Inl e \<Rightarrow> throw (InitStatic e) k | Inr kb \<Rightarrow> ok kb k) (\<lambda>kb.
       case ccr_datarate kb of
         None \<Rightarrow> throw (OtherError ''Unsupported storage capacity: {_kb} KB'')
       | Some (ccr, datarate) \<Rightarrow>
           try_then (\<lambda>k. case add_offset ConfigCtrlRegister k of
                           Inl e \<Rightarrow> throw (InitStatic e) k
                         | Inr p \<Rightarrow> ok () (writeb p ccr k)) (\<lambda>_.
           try_then (map_err SendCommand (send_command_with E rst Specify (specify_params datarate))) (\<lambda>_.
           \<lambda>k. ok () (disable_motor k))))))))))))"

fun init_fdc_depth :: "env \<Rightarrow> nat \<Rightarrow> ('a kbd_scheme, floppy_error, unit) fallible" where
  "init_fdc_depth E 0 k = Hang"
| "init_fdc_depth E (Suc d) k = init_fdc_with E (init_fdc_depth E d) k"

definition init_fdc :: "env \<Rightarrow> ('a kbd_scheme, floppy_error, unit) fallible" where
  "init_fdc E = init_fdc_depth E (fuel E)"

definition send_command :: "env \<Rightarrow> floppy_command \<Rightarrow> bytes \<Rightarrow> ('a kbd_scheme, send_cmd_error, unit) fallible" where
  "send_command E = send_command_with E (init_fdc E)"

definition sense_int :: "env \<Rightarrow> sense_int_state \<Rightarrow> ('a kbd_scheme, floppy_error, unit) fallible" where
  "sense_int E = sense_int_with E (init_fdc E)"

definition send_configure :: "env \<Rightarrow> ('a kbd_scheme, floppy_error, unit) fallible" where
  "send_configure E = send_configure_with E (init_fdc E)"

section \<open>Seeking\<close>

fun seek_loop :: "env \<Rightarrow> nat \<Rightarrow> floppy_error + unit \<Rightarrow> u8 option \<Rightarrow> ('a kbd_scheme, floppy_error, unit) fallible" where
  "seek_loop E 0 ret cyl k = Done (ret, k)"
| "seek_loop E (Suc n) ret cyl k =
     try_then
       (\<lambda>k. let drive = (if DRIVE_ONE k then 1 else 0)
            in map_err SendCommand
                 (case cyl of
                    Some c \<Rightarrow> send_command E CmdSeek [drive, c]
                  | None \<Rightarrow> send_command E Recalibrate [drive]) k)
       (\<lambda>_. match_res (sense_int E SeekOrRecal)
              (\<lambda>e. seek_loop E n (Err e) cyl) (\<lambda>_. ok ())) k"

definition seek :: "env \<Rightarrow> u8 option \<Rightarrow> ('a kbd_scheme, floppy_error, unit) fallible" where
  "seek E cyl = seek_loop E RETRIES (Ok ()) cyl"

section \<open>What the driver's operations leave alone\<close>

text \<open>
  The state that sending commands keeps: the configuration and the counters of the driver and
  the flags of the others; the driver may be switched off, never on.
\<close>

definition fdc_inv :: "'a kbd_scheme \<Rightarrow> 'a kbd_scheme \<Rightarrow> bool" where
  "fdc_inv k0 k \<longleftrightarrow> vga_ok k \<and> (ints_on k0 \<longrightarrow> ints_on k) \<and> INTERRUPT_DEPTH k = INTERRUPT_DEPTH k0
     \<and> PIC_INIT k = PIC_INIT k0 \<and> PIT_INIT k = PIT_INIT k0 \<and> KBD_INIT k = KBD_INIT k0
     \<and> (FLOPPY_INIT k \<longrightarrow> FLOPPY_INIT k0) \<and> BASE_OFFSET k = BASE_OFFSET k0 \<and> FLOPPY_SPACE k = FLOPPY_SPACE k0
     \<and> DRIVE_ONE k = DRIVE_ONE k0 \<and> READ_BYTES k = READ_BYTES k0 \<and> WRITTEN_BYTES k = WRITTEN_BYTES k0
     \<and> kbd.more k = kbd.more k0 \<and> (below_topbar k0 \<longrightarrow> below_topbar k) \<and> length (KBD_BUF k) = length (KBD_BUF k0)"

lemma fdc_inv_refl: "vga_ok k \<Longrightarrow> fdc_inv k k"
  by (simp add: fdc_inv_def)

lemma fdc_inv_undisturbed:
  "fdc_inv k0 k \<Longrightarrow> undisturbed k k' \<Longrightarrow> vga_ok k' \<Longrightarrow> fdc_inv k0 k'"
  by (auto simp: fdc_inv_def undisturbed_def below_topbar_def)

lemma fdc_inv_upd [simp]:
  "fdc_inv k0 (k\<lparr>io_log := log\<rparr>) = fdc_inv k0 k" "fdc_inv k0 (k\<lparr>MOTOR_STATE := s\<rparr>) = fdc_inv k0 k"
  "fdc_inv k0 (k\<lparr>MOTOR_TIME_LEFT := t\<rparr>) = fdc_inv k0 k"
  by (simp_all add: fdc_inv_def vga_ok_def below_topbar_def)

lemma fdc_inv_vga_ok: "fdc_inv k0 k \<Longrightarrow> vga_ok k"
  by (simp add: fdc_inv_def)

lemma fdc_inv_poll: "fdc_inv k0 k \<Longrightarrow> fdc_inv k0 (poll E ev k)"
  using fdc_inv_undisturbed [OF _ poll_frame(1)] same_screen_vga_ok [OF poll_frame(2)] fdc_inv_vga_ok by blast

lemma fdc_inv_get_time: "fdc_inv k0 k \<Longrightarrow> fdc_inv k0 (snd (get_time E k))"
  by (simp add: get_time_def Let_def fdc_inv_poll)

lemma fdc_inv_disable [simp]: "fdc_inv k0 (disable_motor k) = fdc_inv k0 k"
  by (simp add: disable_motor_def Let_def)

lemma wait_loop_no_panic: "wait_loop E n target k \<noteq> Panic"
proof (induction n arbitrary: k)
  case (Suc n)
  then show ?case by (cases "ints_on (snd (get_time E k))") (simp_all add: split_beta hlt_def Let_def)
qed simp

lemma wait_no_panic: "wait E ticks k \<noteq> Panic"
  using wait_loop_no_panic [of E "fuel E"]
  by (auto simp: wait_def Let_def split_beta andThen_eq_Panic)

lemma fdc_inv_wait: "fdc_inv k0 k \<Longrightarrow> wait E ticks k = Done k' \<Longrightarrow> fdc_inv k0 k'"
  by (rule fdc_inv_undisturbed [OF _ wait_frame(1)]) (auto intro: wait_frame(2) fdc_inv_vga_ok)

text \<open>The kernel's state besides the screen, of which printing changes nothing.\<close>

lemma more_fields:
  fixes k k' :: "'a kbd_scheme"
  assumes "vga.more k' = vga.more k"
  shows "TIME k' = TIME k \<and> BASE_OFFSET k' = BASE_OFFSET k \<and> FLOPPY_SPACE k' = FLOPPY_SPACE k
    \<and> DRIVE_ONE k' = DRIVE_ONE k \<and> READ_BYTES k' = READ_BYTES k \<and> WRITTEN_BYTES k' = WRITTEN_BYTES k
    \<and> MOTOR_STATE k' = MOTOR_STATE k \<and> kbd.more k' = kbd.more k \<and> KBD_BUF k' = KBD_BUF k"
  using assms by (cases k; cases k') simp

lemma fdc_inv_print:
  assumes "fdc_inv k0 k" and "print_args s fg bg k = Done k'"
  shows "fdc_inv k0 k'"
proof -
  obtain k'' where "print_args s fg bg k = Done k''" "print_step k k''"
    using print_args_step assms(1) unfolding fdc_inv_def by blast
  then have "print_step k k'" using assms(2) by simp
  then show ?thesis
    using assms(1) more_fields [of k' k] by (auto simp: fdc_inv_def print_step_def machine_flags_def)
qed

lemma print_no_panic: "fdc_inv k0 k \<Longrightarrow> print_args s fg bg k \<noteq> Panic"
  using print_args_step [of k s fg bg] by (auto simp: fdc_inv_def)

subsection \<open>No operation panics\<close>

lemma safe_send_enable_cmd: "safe (fdc_inv k0) (send_enable_cmd E)"
proof (rule safeI)
  fix k assume "fdc_inv k0 k"
  then show "send_enable_cmd E k \<noteq> Panic"
    by (auto simp: send_enable_cmd_def throw_def run_then_def andThen_eq_Panic wait_no_panic ok_def Let_def
        split: sum.splits)
next
  fix k r k' assume "fdc_inv k0 k" and "send_enable_cmd E k = Done (r, k')"
  then show "fdc_inv k0 k'"
    by (auto simp: send_enable_cmd_def throw_def run_then_def andThen_eq_Done ok_def Let_def writeb_eq
        split: sum.splits if_splits intro: fdc_inv_wait [rotated])
qed

lemma safe_enable_motor [intro]: "safe (fdc_inv k0) (enable_motor E)"
  using safe_send_enable_cmd [of k0 E] by (auto simp: safe_def enable_motor_def ok_def)

lemma safe_msr [intro]: "safe (fdc_inv k0) (msr E)"
  by (auto simp: safe_def msr_def throw_def ok_def readb_eq Let_def split: sum.splits)

lemma safe_poll_first:
  assumes "\<And>t. safe (fdc_inv k0) (m t)"
  shows "safe (fdc_inv k0) (\<lambda>k. let (t, k) = get_time E k in m t k)"
  using assms fdc_inv_get_time [of k0 _ E] by (auto simp: safe_def split_beta)

lemma safe_if:
  "safe P m \<Longrightarrow> safe P n \<Longrightarrow> safe P (\<lambda>k. if c k then m k else n k)"
  "safe P m \<Longrightarrow> safe P n \<Longrightarrow> safe P (if b then m else n)"
  by (rule safeI; auto dest: safe_Panic safe_Done split: if_splits)+

lemma safe_give_up: "safe (fdc_inv k0) (\<lambda>k. throw e (disable_motor k))"
  by (simp add: safe_def throw_def)

lemma safe_add_offset:
  assumes "\<And>p. safe P (m p)"
  shows "safe P (\<lambda>k. case add_offset q k of Inl e \<Rightarrow> throw (f e) k | Inr p \<Rightarrow> m p k)"
  using assms by (auto simp: safe_def throw_def split: sum.splits)

lemma safe_writeb_disable: "safe (fdc_inv k0) (\<lambda>k. ok () (disable_motor (writeb p byte k)))"
  by (simp add: safe_def ok_def writeb_eq)

lemma safe_readb: "safe (fdc_inv k0) (\<lambda>k. let (v, k) = readb E p k in ok v k)"
  by (simp add: safe_def ok_def readb_eq Let_def)

lemma safe_after_disable: "safe (fdc_inv k0) m \<Longrightarrow> safe (fdc_inv k0) (\<lambda>k. let k = disable_motor k in m k)"
  by (rule safeI) (simp_all add: Let_def safe_Panic safe_Done [where s = "disable_motor _"])

lemma safe_send_byte_loop: "safe (fdc_inv k0) (send_byte_loop E n start byte)"
proof (induction n)
  case (Suc n)
  then show ?case
    unfolding ext [where f = "send_byte_loop E (Suc n) start byte", OF send_byte_loop.simps(2)]
    by (intro safe_poll_first safe_if safe_try_then safe_map_err safe_enable_motor safe_msr safe_add_offset
        safe_writeb_disable safe_give_up)
qed (simp add: safe_def)

lemma safe_send_byte [intro]: "safe (fdc_inv k0) (send_byte E byte)"
  unfolding send_byte_def by (intro safe_poll_first safe_send_byte_loop)

lemma safe_read_byte_loop: "safe (fdc_inv k0) (read_byte_loop E n start)"
proof (induction n)
  case (Suc n)
  then show ?case
    unfolding ext [where f = "read_byte_loop E (Suc n) start", OF read_byte_loop.simps(2)]
    by (intro safe_poll_first safe_if safe_try_then safe_map_err safe_enable_motor safe_msr safe_after_disable
        safe_add_offset safe_readb safe_give_up)
qed (simp add: safe_def)

lemma safe_read_byte [intro]: "safe (fdc_inv k0) (read_byte E)"
  unfolding read_byte_def by (intro safe_poll_first safe_read_byte_loop)

lemma safe_send_params [intro]: "safe (fdc_inv k0) (send_params E idx params)"
proof (induction params arbitrary: idx)
  case Nil
  then show ?case unfolding ext [where f = "send_params E idx []", OF send_params.simps(1)] by (rule safe_ok)
next
  case (Cons p ps)
  then show ?case
    unfolding ext [where f = "send_params E idx (p # ps)", OF send_params.simps(2)]
    by (intro safe_match_res safe_send_byte safe_throw)
qed

lemma safe_send_command_loop:
  assumes "safe (fdc_inv k0) rst"
  shows "safe (fdc_inv k0) (send_command_loop E rst n err cmd params)"
proof (induction n arbitrary: err)
  case 0
  then show ?case by (simp add: safe_def)
next
  case (Suc n)
  then show ?case
    unfolding ext [where f = "send_command_loop E rst (Suc n) err cmd params", OF send_command_loop.simps(2)]
    by (intro safe_match_res safe_send_byte safe_send_params safe_throw safe_ok assms)
qed

lemma safe_send_command_with:
  "safe (fdc_inv k0) rst \<Longrightarrow> safe (fdc_inv k0) (send_command_with E rst cmd params)"
  unfolding send_command_with_def by (rule safe_send_command_loop)

lemma safe_send_configure_with:
  "safe (fdc_inv k0) rst \<Longrightarrow> safe (fdc_inv k0) (send_configure_with E rst)"
  unfolding send_configure_with_def Let_def by (intro safe_try_then safe_map_err safe_send_command_with safe_ok)

lemma fdc_inv_off [simp]: "fdc_inv k0 k \<Longrightarrow> fdc_inv k0 (k\<lparr>FLOPPY_INIT := False\<rparr>)"
  by (simp add: fdc_inv_def vga_ok_def below_topbar_def)

lemma safe_controller_lockup:
  assumes "safe (fdc_inv k0) rst"
  shows "safe (fdc_inv k0) (controller_lockup rst in_reset)"
proof -
  have off: "safe (fdc_inv k0) (\<lambda>k. ok () (k\<lparr>FLOPPY_INIT := False\<rparr>))" by (simp add: safe_def ok_def)
  show ?thesis
    unfolding controller_lockup_def print_def println_def
    by (intro safe_if safe_run_then safe_try_then assms safe_ok off) (auto intro: fdc_inv_print dest: print_no_panic)
qed

lemma safe_sense_int_with:
  assumes "safe (fdc_inv k0) rst"
  shows "safe (fdc_inv k0) (sense_int_with E rst state)"
  unfolding sense_int_with_def Let_def
  by (intro safe_try_then safe_send_byte safe_read_byte safe_if safe_ok safe_throw safe_controller_lockup assms)

lemma safe_reset_pulse:
  shows "fdc_inv k0 k \<Longrightarrow> reset_pulse E dor k \<noteq> Panic"
    and "fdc_inv k0 k \<Longrightarrow> reset_pulse E dor k = Done k' \<Longrightarrow> fdc_inv k0 k'"
  by (auto simp: reset_pulse_def readb_eq writeb_eq Let_def andThen_eq_Panic wait_no_panic andThen_eq_Done
      dest!: fdc_inv_wait [where ?k0.0 = k0, rotated])

lemma safe_read_space:
  "safe P (\<lambda>k. case init_later_read (FLOPPY_SPACE k) of Inl e \<Rightarrow> throw (InitStatic e) k | Inr kb \<Rightarrow> ok kb k)"
  by (auto simp: safe_def throw_def ok_def split: sum.splits)

lemma safe_writeb_ok: "safe (fdc_inv k0) (\<lambda>k. ok () (writeb p v k))"
  by (simp add: safe_def ok_def writeb_eq)

lemma safe_ok_disable: "safe (fdc_inv k0) (\<lambda>k. ok () (disable_motor k))"
  by (simp add: safe_def ok_def)

lemma safe_init_fdc_with:
  assumes "safe (fdc_inv k0) rst"
  shows "safe (fdc_inv k0) (init_fdc_with E rst)"
proof -
  have tail: "safe (fdc_inv k0) (case ccr_datarate kb of
         None \<Rightarrow> throw (OtherError ''Unsupported storage capacity: {_kb} KB'')
       | Some (ccr, datarate) \<Rightarrow>
           try_then (\<lambda>k. case add_offset ConfigCtrlRegister k of
                           Inl e \<Rightarrow> throw (InitStatic e) k
                         | Inr p \<Rightarrow> ok () (writeb p ccr k)) (\<lambda>_.
           try_then (map_err SendCommand (send_command_with E rst Specify (specify_params datarate))) (\<lambda>_.
           \<lambda>k. ok () (disable_motor k))))" for kb
    by (auto split: option.splits intro!: safe_try_then safe_map_err safe_send_command_with safe_add_offset
        safe_writeb_ok safe_ok_disable safe_throw assms)
  show ?thesis
    unfolding init_fdc_with_def
    by (intro safe_try_then safe_map_err safe_enable_motor safe_add_offset safe_ok safe_run_then
        safe_reset_pulse(1) safe_sense_int_with safe_send_configure_with safe_read_space tail assms)
      (auto intro: safe_reset_pulse(2))
qed

lemma safe_init_fdc_depth: "safe (fdc_inv k0) (init_fdc_depth E d)"
proof (induction d)
  case (Suc d)
  then show ?case
    unfolding ext [where f = "init_fdc_depth E (Suc d)", OF init_fdc_depth.simps(2)]
    by (rule safe_init_fdc_with)
qed (simp add: safe_def)

lemma safe_init_fdc [intro]: "safe (fdc_inv k0) (init_fdc E)"
  unfolding init_fdc_def by (rule safe_init_fdc_depth)

lemma safe_send_command [intro]: "safe (fdc_inv k0) (send_command E cmd params)"
  unfolding send_command_def by (intro safe_send_command_with safe_init_fdc)

lemma safe_sense_int [intro]: "safe (fdc_inv k0) (sense_int E state)"
  unfolding sense_int_def by (intro safe_sense_int_with safe_init_fdc)

lemma safe_send_configure [intro]: "safe (fdc_inv k0) (send_configure E)"
  unfolding send_configure_def by (intro safe_send_configure_with safe_init_fdc)

lemma safe_seek_loop: "safe (fdc_inv k0) (seek_loop E n ret cyl)"
proof (induction n arbitrary: ret)
  case 0
  then show ?case by (simp add: safe_def)
next
  case (Suc n)
  have c: "safe (fdc_inv k0) (\<lambda>k. let drive = (if DRIVE_ONE k then 1 else 0)
            in map_err SendCommand (case cyl of
                    Some c \<Rightarrow> send_command E CmdSeek [drive, c]
                  | None \<Rightarrow> send_command E Recalibrate [drive]) k)"
    using safe_map_err [OF safe_send_command [of k0 E], of SendCommand]
    by (auto simp: safe_def Let_def split: option.splits)
  show ?case
    unfolding ext [where f = "seek_loop E (Suc n) ret cyl", OF seek_loop.simps(2)]
    by (intro safe_try_then c safe_match_res safe_sense_int Suc.IH safe_ok)
qed

lemma safe_seek [intro]: "safe (fdc_inv k0) (seek E cyl)"
  unfolding seek_def by (rule safe_seek_loop)

text \<open>
  C16: sending any command to the floppy controller, with all the resets and nested commands this may cause, and however the controller
  answers, never panics; if it returns, the driver's configuration, its transfer counters and the other drivers' flags are
  unchanged and the driver can have been switched off but not on.
\<close>

theorem floppy_command_safe:
  fixes k :: "'a kbd_scheme"
  assumes "vga_ok k"
  shows "send_command E cmd params k \<noteq> Panic
    \<and> (\<forall>r k'. send_command E cmd params k = Done (r, k') \<longrightarrow>
         vga_ok k' \<and> (FLOPPY_INIT k' \<longrightarrow> FLOPPY_INIT k) \<and> BASE_OFFSET k' = BASE_OFFSET k
         \<and> FLOPPY_SPACE k' = FLOPPY_SPACE k \<and> DRIVE_ONE k' = DRIVE_ONE k
         \<and> READ_BYTES k' = READ_BYTES k \<and> WRITTEN_BYTES k' = WRITTEN_BYTES k
         \<and> PIC_INIT k' = PIC_INIT k \<and> PIT_INIT k' = PIT_INIT k \<and> KBD_INIT k' = KBD_INIT k)"
proof -
  note safe = safe_send_command [of k E cmd params] and inv = fdc_inv_refl [OF assms]
  have "send_command E cmd params k \<noteq> Panic" by (rule safe_Panic [OF safe inv])
  moreover have "fdc_inv k k'" if "send_command E cmd params k = Done (r, k')" for r k'
    using that by (rule safe_Done [OF safe inv])
  ultimately show ?thesis unfolding fdc_inv_def by blast
qed

lemma running_kbd_time: "TIME running_kbd = 0"
  by (simp add: running_kbd_def initial_kbd_def based_fdc_def initial_fdc_def initial_clock_def
      fdc.extend_def clock.extend_def vga.extend_def)

lemma running_kbd_ok: "vga_ok running_kbd"
  using cleared_vga_ok(1)
  by (simp add: running_kbd_def initial_kbd_def based_fdc_def initial_fdc_def initial_clock_def
      fdc.extend_def clock.extend_def vga.extend_def vga_ok_def)

theorem floppy_command_safe_witness: "send_command sample_env Version [] running_kbd \<noteq> Panic"
  using floppy_command_safe [OF running_kbd_ok] by blast

section \<open>The handshake\<close>

lemma base_known_inv: "fdc_inv k0 k \<Longrightarrow> base_known base k0 \<Longrightarrow> base_known base k"
  by (simp add: fdc_inv_def base_known_def)

lemma msr_known:
  assumes "base_known base k"
  shows "msr E k = (let v = port_in E (Out 0x80 0 # io_log k) (4 + base)
     in Done (Ok v, k\<lparr>io_log := Inp (4 + base) v # Out 0x80 0 # io_log k\<rparr>))"
  using assms by (simp add: msr_def add_offset_known readb_eq ok_def Let_def)

lemma base_known_log [simp]: "base_known base (k\<lparr>io_log := log\<rparr>) = base_known base k"
  by (simp add: base_known_def)

text \<open>
  One pass of the polling loops: the clock is read, the motor enabled and the status register
  read; the outcome depends on the two status bits.
\<close>

lemma fifo_pass:
  fixes k :: "'a kbd_scheme"
  assumes "vga_ok k" and "base_known base k"
    and "try_then (map_err InitStatic (enable_motor E)) (\<lambda>_. try_then (map_err InitStatic (msr E)) f) k = Done (r, k')"
  obtains e where "r = Err (InitStatic e)" "enable_motor E k = Done (Inl e, k')"
  | k2 m where "fdc_inv k k2" "f m (k2\<lparr>io_log := Inp (4 + base) m # io_log k2\<rparr>) = Done (r, k')"
proof -
  note inv = fdc_inv_refl [OF assms(1)]
  consider e where "enable_motor E k = Done (Inl e, k')" "r = Err (InitStatic e)"
    | a k1 where "enable_motor E k = Done (Inr a, k1)" "try_then (map_err InitStatic (msr E)) f k1 = Done (r, k')"
    using assms(3) by (auto simp: try_then_eq_Done map_err_eq_Done)
  then show ?thesis
  proof cases
    case (2 a k1)
    have i1: "fdc_inv k k1" by (rule safe_Done [OF safe_enable_motor inv 2(1)])
    then have b1: "base_known base k1" using assms(2) by (rule base_known_inv)
    let ?v = "port_in E (Out 0x80 0 # io_log k1) (4 + base)"
    have "f ?v (k1\<lparr>io_log := Inp (4 + base) ?v # Out 0x80 0 # io_log k1\<rparr>) = Done (r, k')"
      using 2(2) msr_known [OF b1] by (auto simp: try_then_eq_Done map_err_eq_Done Let_def)
    then show ?thesis using that(2) [of "k1\<lparr>io_log := Out 0x80 0 # io_log k1\<rparr>" ?v] i1 by simp
  qed (use that(1) in blast)
qed

definition motor_idling :: "'a fdc_scheme \<Rightarrow> bool" where
  "motor_idling k \<longleftrightarrow> MOTOR_STATE k = MOTOR_DISABLING \<and> MOTOR_TIME_LEFT k = 50"

lemma motor_idling_disable: "motor_idling (disable_motor k)"
  by (simp add: motor_idling_def disable_motor_def Let_def)

lemma get_time_inv: "vga_ok k \<Longrightarrow> fdc_inv k (snd (get_time E k))"
  by (intro fdc_inv_get_time fdc_inv_refl)

lemma fdc_inv_trans: "fdc_inv a b \<Longrightarrow> fdc_inv b c \<Longrightarrow> fdc_inv a c"
  by (auto simp: fdc_inv_def)

lemma send_byte_loop_handshake:
  fixes k :: "'a kbd_scheme"
  assumes "send_byte_loop E n start b k = Done (r, k')" and "vga_ok k" and "base_known base k"
  shows "(r = Ok () \<longrightarrow> motor_idling k' \<and> (\<exists>m log. rqm_dio m = 0b10
            \<and> io_log k' = Out (5 + base) b # Out 0x80 0 # Inp (4 + base) m # log))
    \<and> (\<forall>e. r = Err (FifoTimeout e) \<longrightarrow> e = FifoWrite b \<and> motor_idling k')"
  using assms
proof (induction n arbitrary: k)
  case (Suc n)
  obtain t k1 where g: "get_time E k = (t, k1)" by (cases "get_time E k")
  have i1: "fdc_inv k k1" using get_time_inv [OF Suc.prems(2), of E] g by simp
  have k1: "vga_ok k1" "base_known base k1"
    using fdc_inv_vga_ok [OF i1] base_known_inv [OF i1 Suc.prems(3)] by blast+
  show ?case
  proof (cases "t < start + TIMEOUT")
    case False
    then show ?thesis using Suc.prems(1) g by (auto simp: throw_def motor_idling_disable)
  next
    case True
    let ?f = "\<lambda>m. if rqm_dio m = 0b10
                     then (\<lambda>k. case add_offset Fifo k of
                                 Inl e \<Rightarrow> throw (InitStatic e) k
                               | Inr p \<Rightarrow> ok () (disable_motor (writeb p b k)))
                     else send_byte_loop E n start b"
    have "try_then (map_err InitStatic (enable_motor E)) (\<lambda>_. try_then (map_err InitStatic (msr E)) ?f) k1 = Done (r, k')"
      using Suc.prems(1) g True by simp
    with k1 show ?thesis
    proof (cases rule: fifo_pass)
      case (2 k2 m)
      let ?k3 = "k2\<lparr>io_log := Inp (4 + base) m # io_log k2\<rparr>"
      have i3: "fdc_inv k1 ?k3" using 2(1) by simp
      have k3: "vga_ok ?k3" "base_known base ?k3"
        using fdc_inv_vga_ok [OF i3] base_known_inv [OF i3 k1(2)] by blast+
      show ?thesis
      proof (cases "rqm_dio m = 0b10")
        case True
        have "k' = disable_motor (writeb (5 + base) b ?k3)" "r = Ok ()"
          using 2(2) True k3(2) by (simp_all add: add_offset_known ok_def)
        then show ?thesis
          using True by (auto simp: motor_idling_disable writeb_eq disable_motor_def Let_def motor_idling_def)
      next
        case False
        then show ?thesis using 2(2) Suc.IH [OF _ k3] by simp
      qed
    qed simp
  qed
qed simp

text \<open>
  a byte reaches the data port only in a completed handshake: if \<^verbatim>\<open>send_byte\<close> succeeds, the last three accesses were the
  status register with the controller ready for a byte from the processor (top two bits 10), the delay and the byte to the data port;
  if it times out the error names the byte. In both cases the motor is left to stop after its delay.
\<close>

theorem send_byte_handshake:
  fixes k :: "'a kbd_scheme"
  assumes "send_byte E b k = Done (r, k')" and "vga_ok k" and "base_known base k"
  shows "(r = Ok () \<longrightarrow> motor_idling k' \<and> (\<exists>m log. rqm_dio m = 0b10
            \<and> io_log k' = Out (5 + base) b # Out 0x80 0 # Inp (4 + base) m # log))
    \<and> (\<forall>e. r = Err (FifoTimeout e) \<longrightarrow> e = FifoWrite b \<and> motor_idling k')"
proof -
  obtain t k1 where g: "get_time E k = (t, k1)" by (cases "get_time E k")
  have i1: "fdc_inv k k1" using get_time_inv [OF assms(2), of E] g by simp
  have "send_byte_loop E (fuel E) t b k1 = Done (r, k')" using assms(1) g by (simp add: send_byte_def)
  from send_byte_loop_handshake [OF this fdc_inv_vga_ok [OF i1] base_known_inv [OF i1 assms(3)]] show ?thesis .
qed

text \<open>A controller that is always ready to receive, for concrete runs.\<close>

definition ready_env :: env where
  "ready_env = sample_env\<lparr>port_in := (\<lambda>log p. if p = 0x3F4 then 0x80 else 0), irqs := (\<lambda>_. [])\<rparr>"

definition motor_on_kbd :: kbd where
  "motor_on_kbd = running_kbd\<lparr>MOTOR_STATE := MOTOR_ON\<rparr>"

lemma motor_on_kbd_known: "base_known 0x3F0 motor_on_kbd" "vga_ok motor_on_kbd"
  using based_fdc_known running_kbd_ok
  by (simp_all add: motor_on_kbd_def running_kbd_def initial_kbd_def base_known_def fdc.extend_def vga_ok_def)

lemma ready_send: "\<exists>k'. send_byte ready_env 0x10 motor_on_kbd = Done (Ok (), k')"
proof -
  have p: "poll ready_env ev k = k\<lparr>io_log := ev # io_log k\<rparr>" for ev and k :: kbd
    by (simp add: poll_def ready_env_def Let_def)
  have "TIME motor_on_kbd = 0" "MOTOR_STATE motor_on_kbd = MOTOR_ON"
    using running_kbd_time by (simp_all add: motor_on_kbd_def)
  moreover obtain n where "fuel ready_env = Suc n"
    by (cases "fuel ready_env") (simp_all add: ready_env_def sample_env_def)
  moreover have "port_in ready_env log 0x3F4 = 0x80" for log by (simp add: ready_env_def)
  ultimately show ?thesis
    using motor_on_kbd_known(1)
    by (simp add: send_byte_def get_time_def p TIMEOUT_def enable_motor_def motor_defs ok_def try_then_def map_err_def
        msr_known Let_def rqm_dio_def add_offset_known)
qed

theorem send_byte_handshake_witness:
  "\<exists>k' m log. send_byte ready_env 0x10 motor_on_kbd = Done (Ok (), k') \<and> rqm_dio m = 0b10
     \<and> io_log k' = Out 0x3F5 0x10 # Out 0x80 0 # Inp 0x3F4 m # log"
proof -
  obtain k' where "send_byte ready_env 0x10 motor_on_kbd = Done (Ok (), k')" using ready_send by blast
  with send_byte_handshake [OF this motor_on_kbd_known(2,1)] show ?thesis by auto
qed

section \<open>Sense interrupt\<close>

lemma sense_int_bytes:
  assumes "send_byte E 8 k = Done (Ok (), k1)" and "read_byte E k1 = Done (Ok st0, k2)"
    and "read_byte E k2 = Done (Ok c, k3)"
  shows "sense_int_with E rst state k =
    (let drive = (if DRIVE_ONE k3 then 1 else 0)
     in if (st0 = (ST0_ERR_OR_RESET OR drive) \<and> state = FirstReset) \<or> (st0 = (0x20 OR drive) \<and> state = SeekOrRecal)
        then Done (Ok (), k3)
        else if st0 = 0x80
        then try_then (controller_lockup rst (state \<noteq> SeekOrRecal)) (\<lambda>_. throw (SenseInterrupt ControllerLockup)) k3
        else if state = SeekOrRecal then Done (Err (SenseInterrupt ResendCommand), k3)
        else if state = OtherReset then Done (Ok (), k3)
        else Done (Err (SenseInterrupt UnknownError), k3))"
  using assms
  by (cases state) (simp_all add: sense_int_with_def try_then_def ok_def throw_def Let_def)

text \<open>
  The result for every status byte. A seek that ended with any status but its completion and 80h is to be
  resent, so \<^verbatim>\<open>CommandFailed\<close> is never returned.
\<close>

lemma sense_int_exact:
  fixes k :: "'a kbd_scheme"
  assumes "send_byte E 8 k = Done (Ok (), k1)" and "read_byte E k1 = Done (Ok st0, k2)"
    and "read_byte E k2 = Done (Ok c, k3)" and "sense_int E state k = Done (r, k')"
  shows "let drive = (if DRIVE_ONE k3 then 1 else 0)
    in (st0 \<noteq> 0x80 \<longrightarrow> k' = k3 \<and> r =
          (case state of
             FirstReset \<Rightarrow> if st0 = (0xC0 OR drive) then Ok () else Err (SenseInterrupt UnknownError)
           | SeekOrRecal \<Rightarrow> if st0 = (0x20 OR drive) then Ok () else Err (SenseInterrupt ResendCommand)
           | OtherReset \<Rightarrow> Ok ()))
     \<and> (st0 = 0x80 \<longrightarrow>
          (if state = SeekOrRecal
           then (case init_fdc E k3 of
                   Done (q, k4) \<Rightarrow> k' = k4 \<and> r = (case q of Inl e \<Rightarrow> Err e | Inr _ \<Rightarrow> Err (SenseInterrupt ControllerLockup))
                 | _ \<Rightarrow> False)
           else r = Err (SenseInterrupt ControllerLockup) \<and> \<not> FLOPPY_INIT k'))"
proof -
  define drive :: u8 where "drive = (if DRIVE_ONE k3 then 1 else 0)"
  have d: "(0x80 :: u8) \<noteq> 0xC0 OR drive" "(0x80 :: u8) \<noteq> 0x20 OR drive" by (simp_all add: drive_def)
  note run = sense_int_bytes [OF assms(1-3), of "init_fdc E" state, folded sense_int_def, unfolded Let_def ST0_ERR_OR_RESET_def]
  have normal: "k' = k3 \<and> r =
          (case state of
             FirstReset \<Rightarrow> if st0 = (0xC0 OR drive) then Ok () else Err (SenseInterrupt UnknownError)
           | SeekOrRecal \<Rightarrow> if st0 = (0x20 OR drive) then Ok () else Err (SenseInterrupt ResendCommand)
           | OtherReset \<Rightarrow> Ok ())" if "st0 \<noteq> 0x80"
    using run that assms(4) by (cases state) (auto simp: drive_def split: if_splits)
  have lock: "try_then (controller_lockup (init_fdc E) (state \<noteq> SeekOrRecal))
      (\<lambda>_. throw (SenseInterrupt ControllerLockup)) k3 = Done (r, k')" if "st0 = 0x80"
    using run that assms(4) d by (simp add: drive_def [symmetric])
  have seek: "case init_fdc E k3 of
        Done (q, k4) \<Rightarrow> k' = k4 \<and> r = (case q of Inl e \<Rightarrow> Err e | Inr _ \<Rightarrow> Err (SenseInterrupt ControllerLockup))
      | _ \<Rightarrow> False" if "st0 = 0x80" "state = SeekOrRecal"
    using lock that
    by (cases "init_fdc E k3") (auto simp: controller_lockup_def try_then_def throw_def ok_def split: sum.splits)
  have reset: "r = Err (SenseInterrupt ControllerLockup) \<and> \<not> FLOPPY_INIT k'" if "st0 = 0x80" "state \<noteq> SeekOrRecal"
    using lock that
    by (auto simp: controller_lockup_def run_then_def try_then_def throw_def ok_def andThen_eq_Done)
  show ?thesis using normal seek reset unfolding drive_def [symmetric] by (simp add: Let_def drive_def)
qed

text \<open>
  C29: what the status byte of a sense interrupt means. A seek is taken to be complete exactly if the selected drive reports its
  completion, and the first interrupt after a reset is accepted exactly if it carries that drive's reset status; the three further
  reset interrupts are accepted. A seek that ended with neither status is to be resent. Status 80h is a lockup, never a success: after a
  seek the controller is reset before the lockup is reported, or the error of that reset instead; during a reset the driver is switched off. In the other cases
  nothing changes but the exchange of the bytes.
\<close>

theorem sense_int_verdict:
  fixes k :: "'a kbd_scheme"
  assumes "send_byte E 8 k = Done (Ok (), k1)" and "read_byte E k1 = Done (Ok st0, k2)"
    and "read_byte E k2 = Done (Ok c, k3)" and "sense_int E state k = Done (r, k')"
  shows "let drive = (if DRIVE_ONE k3 then 1 else 0)
    in (state = SeekOrRecal \<longrightarrow> (r = Ok () \<longleftrightarrow> st0 = (0x20 OR drive)))
     \<and> (state = FirstReset \<longrightarrow> (r = Ok () \<longleftrightarrow> st0 = (0xC0 OR drive)))
     \<and> (state = OtherReset \<longrightarrow> (r = Ok () \<longleftrightarrow> st0 \<noteq> 0x80))
     \<and> (state = SeekOrRecal \<and> st0 \<notin> {0x80, 0x20 OR drive, 0xC0 OR drive} \<longrightarrow> r = Err (SenseInterrupt ResendCommand))
     \<and> (st0 \<noteq> 0x80 \<longrightarrow> k' = k3)
     \<and> (st0 = 0x80 \<and> state = SeekOrRecal \<longrightarrow>
          (\<exists>q. init_fdc E k3 = Done (q, k') \<and> r = (case q of Inl e \<Rightarrow> Err e | Inr _ \<Rightarrow> Err (SenseInterrupt ControllerLockup))))
     \<and> (st0 = 0x80 \<and> state \<noteq> SeekOrRecal \<longrightarrow> r = Err (SenseInterrupt ControllerLockup) \<and> \<not> FLOPPY_INIT k')"
proof -
  define drive :: u8 where "drive = (if DRIVE_ONE k3 then 1 else 0)"
  have d: "(0x80 :: u8) \<noteq> 0xC0 OR drive" "(0x80 :: u8) \<noteq> 0x20 OR drive" by (simp_all add: drive_def)
  note v = sense_int_exact [OF assms, unfolded Let_def, folded drive_def]
  have normal: "k' = k3 \<and> r = (case state of
             FirstReset \<Rightarrow> if st0 = (0xC0 OR drive) then Ok () else Err (SenseInterrupt UnknownError)
           | SeekOrRecal \<Rightarrow> if st0 = (0x20 OR drive) then Ok () else Err (SenseInterrupt ResendCommand)
           | OtherReset \<Rightarrow> Ok ())" if "st0 \<noteq> 0x80"
    using v that by blast
  have seek: "\<exists>q. init_fdc E k3 = Done (q, k') \<and> r = (case q of Inl e \<Rightarrow> Err e | Inr _ \<Rightarrow> Err (SenseInterrupt ControllerLockup))"
    if "st0 = 0x80" "state = SeekOrRecal"
    using v that by (simp split: run.splits prod.splits)
  have bad: "r \<noteq> Ok ()" if "st0 = 0x80"
  proof (cases "state = SeekOrRecal")
    case True
    from seek [OF that this] obtain q :: "floppy_error + unit" where "r = (case q of Inl e \<Rightarrow> Err e | Inr _ \<Rightarrow> Err (SenseInterrupt ControllerLockup))" by blast
    then show ?thesis by (cases q) simp_all
  qed (use v that in simp)
  show ?thesis
    using normal seek bad d v unfolding Let_def drive_def [symmetric] by (cases "st0 = 0x80"; cases state; simp split: if_splits)
qed

text \<open>Concrete runs: a controller that accepts a command and then returns status 20h, no interrupts.\<close>

definition status_env :: env where
  "status_env = sample_env\<lparr>port_in := (\<lambda>log p.
     if p = 0x3F4 then (if Out 0x3F5 8 \<in> set log then 0xC0 else 0x80) else 0x20), irqs := (\<lambda>_. [])\<rparr>"

lemma status_poll: "poll status_env ev (k :: kbd) = k\<lparr>io_log := ev # io_log k\<rparr>"
  by (simp add: poll_def status_env_def Let_def)

lemma status_fuel: "\<exists>n. fuel status_env = Suc n"
  by (cases "fuel status_env") (simp_all add: status_env_def sample_env_def)

lemma status_ports:
  "Out 0x3F5 8 \<notin> set log \<Longrightarrow> port_in status_env log 0x3F4 = 0x80"
  "Out 0x3F5 8 \<in> set log \<Longrightarrow> port_in status_env log 0x3F4 = 0xC0"
  "port_in status_env log 0x3F5 = 0x20"
  by (simp_all add: status_env_def)

lemma status_send:
  assumes "base_known 0x3F0 k" and "TIME k = 0" and "MOTOR_STATE k = MOTOR_ON" and "Out 0x3F5 8 \<notin> set (io_log k)"
  shows "\<exists>k'. send_byte status_env 8 k = Done (Ok (), k') \<and> base_known 0x3F0 k' \<and> TIME k' = 0
    \<and> MOTOR_STATE k' = MOTOR_DISABLING \<and> Out 0x3F5 8 \<in> set (io_log k') \<and> DRIVE_ONE k' = DRIVE_ONE (k :: kbd)"
proof -
  obtain n where "fuel status_env = Suc n" using status_fuel by blast
  then show ?thesis
    using assms
    by (simp add: send_byte_def get_time_def status_poll TIMEOUT_def enable_motor_def motor_defs ok_def try_then_def
        map_err_def msr_known Let_def rqm_dio_def add_offset_known status_ports disable_motor_def writeb_eq base_known_def)
qed

lemma status_read:
  assumes "base_known 0x3F0 k" and "TIME k = 0" and "MOTOR_STATE k = MOTOR_DISABLING" and "Out 0x3F5 8 \<in> set (io_log k)"
  shows "\<exists>k'. read_byte status_env k = Done (Ok 0x20, k') \<and> base_known 0x3F0 k' \<and> TIME k' = 0
    \<and> MOTOR_STATE k' = MOTOR_DISABLING \<and> Out 0x3F5 8 \<in> set (io_log k') \<and> DRIVE_ONE k' = DRIVE_ONE (k :: kbd)"
proof -
  obtain n where "fuel status_env = Suc n" using status_fuel by blast
  then show ?thesis
    using assms
    by (simp add: read_byte_def get_time_def status_poll TIMEOUT_def enable_motor_def motor_defs ok_def try_then_def
        map_err_def msr_known Let_def rqm_dio_def add_offset_def status_ports disable_motor_def readb_eq base_known_def)
qed

theorem sense_int_verdict_witness:
  "\<exists>k'. sense_int status_env SeekOrRecal motor_on_kbd = Done (Ok (), k')"
proof -
  let ?k = motor_on_kbd
  have k: "TIME ?k = 0" "MOTOR_STATE ?k = MOTOR_ON" "Out 0x3F5 8 \<notin> set (io_log ?k)" "\<not> DRIVE_ONE ?k"
    by (simp_all add: motor_on_kbd_def running_kbd_def initial_kbd_def based_fdc_def initial_fdc_def initial_clock_def
        cleared_vga_def fdc.extend_def clock.extend_def vga.extend_def)
  obtain k1 where k1: "send_byte status_env 8 ?k = Done (Ok (), k1)" "base_known 0x3F0 k1" "TIME k1 = 0"
    "MOTOR_STATE k1 = MOTOR_DISABLING" "Out 0x3F5 8 \<in> set (io_log k1)" "\<not> DRIVE_ONE k1"
    using status_send [OF motor_on_kbd_known(1) k(1-3)] k(4) by auto
  obtain k2 where k2: "read_byte status_env k1 = Done (Ok 0x20, k2)" "base_known 0x3F0 k2" "TIME k2 = 0"
    "MOTOR_STATE k2 = MOTOR_DISABLING" "Out 0x3F5 8 \<in> set (io_log k2)" "\<not> DRIVE_ONE k2"
    using status_read [OF k1(2-5)] k1(6) by auto
  obtain k3 where k3: "read_byte status_env k2 = Done (Ok 0x20, k3)" "\<not> DRIVE_ONE k3"
    using status_read [OF k2(2-5)] k2(6) by auto
  obtain r k' where run: "sense_int status_env SeekOrRecal ?k = Done (r, k')"
    using sense_int_bytes [OF k1(1) k2(1) k3(1), of "init_fdc status_env" SeekOrRecal] k3(2) by (simp add: sense_int_def Let_def)
  have "r = Ok ()" using sense_int_verdict [OF k1(1) k2(1) k3(1) run] k3(2) by (simp add: Let_def)
  then show ?thesis using run by blast
qed

section \<open>Enabling the motor between interrupts\<close>

text \<open>
  \<^verbatim>\<open>enable_motor\<close> loads the motor's state and, if it is waiting to be turned off, stores that it is on. The timer
  interrupt may run between the two; a step is the load, the store, or a tick.
\<close>

datatype motor_pc = MotorIdle | MotorLoaded u8

inductive motor_step :: "'a fdc_scheme \<times> motor_pc \<Rightarrow> 'a fdc_scheme \<times> motor_pc \<Rightarrow> bool" where
  motor_tick: "motor_step (k, pc) (decrease_motor_time k, pc)"
| motor_load: "motor_step (k, MotorIdle) (k, MotorLoaded (MOTOR_STATE k))"
| motor_store: "motor_step (k, MotorLoaded MOTOR_DISABLING) (k\<lparr>MOTOR_STATE := MOTOR_ON\<rparr>, MotorIdle)"

lemma motor_ticks: "motor_step\<^sup>*\<^sup>* (k, pc) ((decrease_motor_time ^^ n) k, pc)"
  by (induction n) (auto intro: rtranclp.rtrancl_into_rtrancl motor_tick)

text \<open>
  when the timer turns the motor off between the load and the store of \<^verbatim>\<open>enable_motor\<close>, the state says
  that the motor is on while the last command the controller received turned it off.
\<close>

theorem motor_enable_race:
  fixes k :: "'a fdc_scheme"
  assumes "base_known base k"
  shows "\<exists>k'. motor_step\<^sup>*\<^sup>* (disable_motor k, MotorIdle) (k', MotorIdle)
    \<and> MOTOR_STATE k' = MOTOR_ON \<and> io_log k' = Out (2 + base) (off_command k) # Out 0x80 0 # io_log k"
proof -
  let ?d = "disable_motor k"
  let ?k50 = "(decrease_motor_time ^^ 50) ?d"
  have d: "MOTOR_STATE ?d = MOTOR_DISABLING" "MOTOR_TIME_LEFT ?d = 50" "base_known base ?d" "off_command ?d = off_command k" "io_log ?d = io_log k"
    using assms by (simp_all add: disable_motor_def base_known_def off_command_def Let_def)
  have k50: "?k50 = ?d\<lparr>MOTOR_TIME_LEFT := 0\<rparr>" using decrease_many [OF d(1), of 50] d(2) by simp
  have dis: "MOTOR_STATE ?k50 = MOTOR_DISABLING" using k50 d(1) by simp
  have 1: "motor_step\<^sup>*\<^sup>* (?d, MotorIdle) (?k50, MotorIdle)" by (rule motor_ticks)
  have 2: "motor_step (?k50, MotorIdle) (?k50, MotorLoaded MOTOR_DISABLING)"
    using motor_load [of ?k50] unfolding dis .
  have 3: "motor_step (?k50, MotorLoaded MOTOR_DISABLING) (decrease_motor_time ?k50, MotorLoaded MOTOR_DISABLING)"
    by (rule motor_tick)
  let ?k' = "(decrease_motor_time ?k50)\<lparr>MOTOR_STATE := MOTOR_ON\<rparr>"
  have 4: "motor_step (decrease_motor_time ?k50, MotorLoaded MOTOR_DISABLING) (?k', MotorIdle)" by (rule motor_store)
  have "io_log (decrease_motor_time ?k50) = Out (2 + base) (off_command k) # Out 0x80 0 # io_log k"
    unfolding k50 using decrease_expired [of "?d\<lparr>MOTOR_TIME_LEFT := 0\<rparr>" base] d
    by (simp add: base_known_def off_command_def)
  then show ?thesis
    using 1 2 3 4 by (intro exI [of _ ?k']) (auto intro: rtranclp.rtrancl_into_rtrancl)
qed

theorem motor_enable_race_witness:
  "\<exists>k'. motor_step\<^sup>*\<^sup>* (disable_motor based_fdc, MotorIdle) (k', MotorIdle)
     \<and> MOTOR_STATE k' = MOTOR_ON \<and> hd (io_log k') = Out 0x3F2 0b000100"
proof -
  have "off_command based_fdc = 0b000100" by (simp add: off_command_def based_fdc_def initial_fdc_def clock.extend_def)
  then show ?thesis using motor_enable_race [OF based_fdc_known] by fastforce
qed

end
