(* ===== verification/Disk.thy ===== *)
theory Disk
  imports Fifo
begin

text \<open>
  kernel/src/floppy/disk.rs: reading and writing sectors. The buffer a read fills is the result of
  a successful call.
\<close>

section \<open>Constants and messages\<close>

definition HEADS :: u16 where "HEADS = 2"
definition CYLINDERS :: u16 where "CYLINDERS = 80"
definition SECTORS :: u16 where "SECTORS = 18"
definition SECTOR_SIZE :: nat where "SECTOR_SIZE = 512"
definition CYL_BOUNDARY :: nat where "CYL_BOUNDARY = unat SECTORS * SECTOR_SIZE"
definition DISK_RETRIES :: nat where "DISK_RETRIES = 8"

definition disk_error_display :: "disk_error \<Rightarrow> string" where
  "disk_error_display e =
     (case e of
        BadBufLen n \<Rightarrow> ''sent a buf which's len isn't a multiple of 512 ('' @ dec_str (unat n) @ '')''
      | ControllerUninit \<Rightarrow> ''floppy controller not initialised''
      | SendCommandTimeout \<Rightarrow> ''hit a software timeout while sending command''
      | IoTimeout \<Rightarrow> ''hit a software timeout while transferring data''
      | DiskFifoTimeout \<Rightarrow> ''fifo was blocked for too long after sending read/write''
      | BadSectOrHead s h \<Rightarrow> ''found strange floppy sector / head values: '' @ dec_str (unat s) @ '' / ''
          @ dec_str (unat h) @ '' did you io over a cylinder boundary?''
      | NotWritable \<Rightarrow> ''wrote to read-only data''
      | EndOfDrive \<Rightarrow> ''reached the end of the drive''
      | BadSt0Bits \<Rightarrow> ''error bits in st0 set''
      | DriveNotReady \<Rightarrow> ''floppy IO failed, drive ins't ready yet''
      | NoDataFound \<Rightarrow> ''no data found''
      | ControllerTimeout \<Rightarrow> ''floppy controller timed out''
      | EndOfCylinder \<Rightarrow> ''reached end of cylinder''
      | CRCError \<Rightarrow> ''a CRC error occurred''
      | BadCylinder \<Rightarrow> ''hit a bad cylinder''
      | DifferingCylinder \<Rightarrow> ''hit the wrong cylinder''
      | NoAddressMark \<Rightarrow> ''hit a deleted address mark'')"

definition fifo_io_error_display :: "fifo_io_error \<Rightarrow> string" where
  "fifo_io_error_display e =
     (case e of
        FifoRead \<Rightarrow> ''read byte from the FIFO port at the wrong time''
      | FifoWrite b \<Rightarrow> ''wrote byte 0x'' @ hex_str (unat b) @ '' to the FIFO port at the wrong time'')"

definition send_cmd_error_display :: "send_cmd_error \<Rightarrow> string" where
  "send_cmd_error_display e =
     (case e of
        BadCommand c \<Rightarrow> ''sent either a bad command ('' @ dec_str (unat c) @ '':X) or one at the wrong time''
      | BadParameter c i \<Rightarrow> ''sent either a bad parameter (idx '' @ dec_str i @ '' in command '' @ hex_str (unat c)
          @ '') or one at the wrong time''
      | ResetError c \<Rightarrow> ''encountered an error while resetting in after attempting to send command 0x''
          @ hex_str (unat c))"

definition sense_int_error_display :: "sense_int_error \<Rightarrow> string" where
  "sense_int_error_display e =
     (case e of
        ResendCommand \<Rightarrow> ''please resend the seek or recalibrate command''
      | ControllerLockup \<Rightarrow>
          ''controller lockup detected due to sending a sense interrupt command at the wrong time!''
      | CommandFailed \<Rightarrow> ''either a seek or recalibrate failed sending''
      | UnknownError \<Rightarrow> ''a reset, seek or recalibrate command failed to send'')"

definition floppy_error_display :: "floppy_error \<Rightarrow> string" where
  "floppy_error_display e =
     (case e of
        InitStatic e \<Rightarrow> init_error_display ''u16'' e
      | SendCommand e \<Rightarrow> send_cmd_error_display e
      | SenseInterrupt e \<Rightarrow> sense_int_error_display e
      | ReadOrWrite e \<Rightarrow> ''IO error, '' @ disk_error_display e
      | FifoTimeout e \<Rightarrow> fifo_io_error_display e
      | OtherError s \<Rightarrow> s)"

section \<open>Sending the command\<close>

fun wait_for_rqm_loop :: "env \<Rightarrow> nat \<Rightarrow> u64 \<Rightarrow> ('a kbd_scheme, floppy_error, unit) fallible" where
  "wait_for_rqm_loop E 0 start_time k = Hang"
| "wait_for_rqm_loop E (Suc n) start_time k =
     (let (t, k) = get_time E k
      in if t < start_time + TIMEOUT
         then try_then (map_err InitStatic (msr E))
                (\<lambda>m. if m = m OR 0b10000000 then ok () else wait_for_rqm_loop E n start_time) k
         else throw (ReadOrWrite DiskFifoTimeout) k)"

definition wait_for_rqm :: "env \<Rightarrow> ('a kbd_scheme, floppy_error, unit) fallible" where
  "wait_for_rqm E k =
     (let (start_time, k) = get_time E k in wait_for_rqm_loop E (fuel E) start_time k)"

definition lba_to_chs :: "u16 \<Rightarrow> u8 \<times> u8 \<times> u8" where
  "lba_to_chs lba =
     (let head = (lba mod (HEADS * SECTORS)) div SECTORS;
          cyl = lba div (SECTORS * HEADS);
          sector = (lba mod (SECTORS * HEADS)) mod SECTORS + 1
      in (ucast head, ucast cyl, ucast sector))"

definition BYTES_PER_SECTOR :: u8 where "BYTES_PER_SECTOR = 2"
definition SEEK_RETRIES :: nat where "SEEK_RETRIES = 5"

fun send_rw_loop :: "env \<Rightarrow> nat \<Rightarrow> floppy_command \<Rightarrow> bytes \<Rightarrow> u8 \<Rightarrow> ('a kbd_scheme, floppy_error, unit) fallible" where
  "send_rw_loop E 0 cmd params start_cyl k = throw (ReadOrWrite SendCommandTimeout) k"
| "send_rw_loop E (Suc n) cmd params start_cyl k =
     try_then (seek E None) (\<lambda>_.
     try_then (seek E (Some start_cyl)) (\<lambda>_.
     try_then (wait_for_rqm E) (\<lambda>_.
       match_res (send_command E cmd params)
         (\<lambda>_. send_rw_loop E n cmd params start_cyl) (\<lambda>_. ok ())))) k"

definition send_read_write :: "env \<Rightarrow> bool \<Rightarrow> u16 \<Rightarrow> u16 \<Rightarrow> ('a kbd_scheme, floppy_error, unit) fallible" where
  "send_read_write E rd ptr sects k =
     (if \<not> FLOPPY_INIT k then throw (ReadOrWrite ControllerUninit) k
      else let (start_head, start_cyl, start_sect) = lba_to_chs ptr;
               (end_head, end_cyl, end_sect) = lba_to_chs (ptr + sects - 1)
           in if ucast CYLINDERS \<le> end_cyl then throw (ReadOrWrite EndOfDrive) k
              else if ucast SECTORS < start_sect \<or> start_sect = 0 \<or> start_head \<noteq> end_head \<or> start_cyl \<noteq> end_cyl
              then throw (ReadOrWrite (BadSectOrHead start_sect start_head)) k
              else let cmd = (if rd then ReadDataWithFlags else WriteDataWithFlags);
                       params = [(if DRIVE_ONE k then 1 else 0) OR push_bit 2 start_head, start_cyl, start_head,
                                 start_sect, BYTES_PER_SECTOR, end_sect, 0x1B, 0xFF]
                   in send_rw_loop E SEEK_RETRIES cmd params start_cyl k)"

section \<open>Status\<close>

definition status_verdict :: "u8 \<Rightarrow> u8 \<Rightarrow> u8 \<Rightarrow> floppy_error + unit" where
  "status_verdict st0 st1 st2 =
     (if st1 OR 0x2 = st1 then Err (ReadOrWrite NotWritable)
      else if st0 OR ST0_ERR_OR_RESET = st0 then Err (ReadOrWrite BadSt0Bits)
      else if st0 OR 0x8 = st0 then Err (ReadOrWrite DriveNotReady)
      else if st1 OR 0x4 = st1 then Err (ReadOrWrite NoDataFound)
      else if st1 OR 0x10 = st1 then Err (ReadOrWrite ControllerTimeout)
      else if st1 OR 0x80 = st1 then Err (ReadOrWrite EndOfCylinder)
      else if st1 OR 0x20 = st1 then Err (ReadOrWrite CRCError)
      else if st2 OR 0x2 = st2 then Err (ReadOrWrite BadCylinder)
      else if st2 OR 0x10 = st2 then Err (ReadOrWrite DifferingCylinder)
      else if st2 OR 0x20 = st2 then Err (ReadOrWrite CRCError)
      else if st1 OR 0x40 = st1 then Err (ReadOrWrite NoAddressMark)
      else Ok ())"

definition read_write_status :: "env \<Rightarrow> ('a kbd_scheme, floppy_error, unit) fallible" where
  "read_write_status E =
     try_then (wait_for_rqm E) (\<lambda>_.
     try_then (read_byte E) (\<lambda>st0.
     try_then (read_byte E) (\<lambda>st1.
     try_then (read_byte E) (\<lambda>st2.
     try_then (read_byte E) (\<lambda>_.
     try_then (read_byte E) (\<lambda>_.
     try_then (read_byte E) (\<lambda>_.
     try_then (read_byte E) (\<lambda>_. \<lambda>k. Done (status_verdict st0 st1 st2, k)))))))))"

section \<open>Transfers\<close>

text \<open>
  The bytes of one attempt. The outer error returns from the whole operation (the data port
  stayed blocked), the inner one starts the next attempt.
\<close>

fun read_data :: "env \<Rightarrow> nat \<Rightarrow> bytes \<Rightarrow> ('a kbd_scheme, floppy_error, floppy_error + bytes) fallible" where
  "read_data E 0 acc k = ok (Ok acc) k"
| "read_data E (Suc n) acc k =
     try_then (wait_for_rqm E) (\<lambda>_.
       match_res (read_byte E) (\<lambda>e. ok (Err e)) (\<lambda>data. read_data E n (acc @ [data]))) k"

fun write_data :: "env \<Rightarrow> bytes \<Rightarrow> ('a kbd_scheme, floppy_error, floppy_error + unit) fallible" where
  "write_data E [] k = ok (Ok ()) k"
| "write_data E (byte # rest) k =
     try_then (wait_for_rqm E) (\<lambda>_.
       match_res (send_byte E byte) (\<lambda>e. ok (Err e)) (\<lambda>_. write_data E rest)) k"

definition give_up :: "string \<Rightarrow> floppy_error \<Rightarrow> ('a kbd_scheme, floppy_error, 'b) fallible" where
  "give_up msg err =
     run_then (\<lambda>k. Done (disable_motor (k\<lparr>FLOPPY_INIT := False\<rparr>)))
       (run_then (println White (msg @ floppy_error_display err))
         (run_then (println LightRed all_fail_msg) (throw err)))"

fun disk_read_retry :: "env \<Rightarrow> nat \<Rightarrow> floppy_error \<Rightarrow> u16 \<Rightarrow> u16 \<Rightarrow> nat \<Rightarrow> ('a kbd_scheme, floppy_error, bytes) fallible" where
  "disk_read_retry E 0 err ptr sects len k =
     give_up ''Reading from the floppy driver caused an unrecoverable error, '' err k"
| "disk_read_retry E (Suc n) err ptr sects len k =
     match_res (send_read_write E True ptr sects)
       (\<lambda>e. disk_read_retry E n e ptr sects len)
       (\<lambda>_. try_then (read_data E len [])
          (\<lambda>r. case r of
             Inl e \<Rightarrow> disk_read_retry E n e ptr sects len
           | Inr buf \<Rightarrow> try_then (read_write_status E)
               (\<lambda>_. \<lambda>k. let k = disable_motor k
                       in ok buf (k\<lparr>READ_BYTES := READ_BYTES k + of_nat len\<rparr>)))) k"

definition disk_read :: "env \<Rightarrow> u64 \<Rightarrow> bytes \<Rightarrow> ('a kbd_scheme, floppy_error, bytes) fallible" where
  "disk_read E ptr buf k =
     (if buf = [] then ok [] k
      else if \<not> FLOPPY_INIT k then throw (ReadOrWrite ControllerUninit) k
      else if length buf mod SECTOR_SIZE \<noteq> 0 then throw (ReadOrWrite (BadBufLen (of_nat (length buf)))) k
      else disk_read_retry E DISK_RETRIES (ReadOrWrite IoTimeout) (ucast ptr)
             (of_nat (length buf div SECTOR_SIZE)) (length buf) k)"

fun disk_write_retry :: "env \<Rightarrow> nat \<Rightarrow> floppy_error \<Rightarrow> u16 \<Rightarrow> u16 \<Rightarrow> bytes \<Rightarrow> ('a kbd_scheme, floppy_error, unit) fallible" where
  "disk_write_retry E 0 err ptr sects buf k =
     give_up ''Writing to the floppy driver caused an unrecoverable error, '' err k"
| "disk_write_retry E (Suc n) err ptr sects buf k =
     match_res (send_read_write E False ptr sects)
       (\<lambda>e. disk_write_retry E n e ptr sects buf)
       (\<lambda>_. try_then (write_data E buf)
          (\<lambda>r. case r of
             Inl e \<Rightarrow> disk_write_retry E n e ptr sects buf
           | Inr _ \<Rightarrow> (\<lambda>k. let k = disable_motor k
                           in ok () (k\<lparr>WRITTEN_BYTES := WRITTEN_BYTES k + of_nat (length buf)\<rparr>)))) k"

definition disk_write :: "env \<Rightarrow> u64 \<Rightarrow> bytes \<Rightarrow> ('a kbd_scheme, floppy_error, unit) fallible" where
  "disk_write E ptr buf k =
     (if buf = [] then ok () k
      else if \<not> FLOPPY_INIT k then throw (ReadOrWrite ControllerUninit) k
      else if length buf mod SECTOR_SIZE \<noteq> 0 then throw (ReadOrWrite (BadBufLen (of_nat (length buf)))) k
      else disk_write_retry E DISK_RETRIES (ReadOrWrite IoTimeout) (ucast ptr)
             (of_nat (length buf div SECTOR_SIZE)) buf k)"

section \<open>Addresses\<close>

lemmas geometry_defs = HEADS_def CYLINDERS_def SECTORS_def

lemma lba_to_chs_nat:
  assumes "lba_to_chs lba = (h, c, s)"
  shows "unat h = unat lba mod 36 div 18" "unat c = unat lba div 36 mod 256" "unat s = unat lba mod 18 + 1"
proof -
  have "unat lba mod 36 mod 18 = unat lba mod 18" by (simp add: mod_mod_cancel)
  moreover have "unat lba mod 36 div 18 < 2" by (simp add: less_mult_imp_div_less)
  ultimately show "unat h = unat lba mod 36 div 18" "unat c = unat lba div 36 mod 256" "unat s = unat lba mod 18 + 1"
    using assms unsigned_less [of lba, where 'a = nat]
    by (auto simp: lba_to_chs_def geometry_defs Let_def unsigned_ucast_eq take_bit_eq_mod unat_div unat_mod unat_word_ariths)
qed

text \<open>
  C31: for every sector of a 1.44 MB drive the head, cylinder and sector computed from its number are within the geometry (head below 2, cylinder
  below 80, sector from 1 to 18) and determine the number, so no two sectors share an address.
\<close>

theorem lba_to_chs_bijective:
  assumes "lba < 2880" and "lba_to_chs lba = (h, c, s)"
  shows "h < 2 \<and> c < 80 \<and> 1 \<le> s \<and> s \<le> 18 \<and> unat lba = (unat c * 2 + unat h) * 18 + (unat s - 1)"
proof -
  note n = lba_to_chs_nat [OF assms(2)]
  have l: "unat lba < 2880" using assms(1) by (simp add: word_less_nat_alt)
  then have c: "unat c = unat lba div 36" "unat lba div 36 < 80" using n(2) by (simp_all add: less_mult_imp_div_less)
  have "unat lba = unat lba div 36 * 36 + unat lba mod 36" by simp
  also have "unat lba mod 36 = unat lba mod 36 div 18 * 18 + unat lba mod 18"
    using div_mult_mod_eq [of "unat lba mod 36" 18] by (simp add: mod_mod_cancel)
  finally have "unat lba = (unat c * 2 + unat h) * 18 + (unat s - 1)" using n c by simp
  moreover have "unat h < 2" using n(1) by (simp add: less_mult_imp_div_less)
  moreover have "unat s \<le> 18" using n(3) mod_less_divisor [of 18 "unat lba"] by simp
  ultimately show ?thesis using n c by (simp add: word_less_nat_alt word_le_nat_alt)
qed

theorem lba_to_chs_bijective_witness:
  "case lba_to_chs 2879 of (h, c, s) \<Rightarrow> h = 1 \<and> c = 79 \<and> s = 18 \<and> h < 2 \<and> c < 80 \<and> 1 \<le> s \<and> s \<le> 18
     \<and> (unat c * 2 + unat h) * 18 + (unat s - 1) = 2879"
proof -
  have "lba_to_chs 2879 = (1, 79, 18)" by (simp add: lba_to_chs_def geometry_defs)
  with lba_to_chs_bijective [OF _ this] show ?thesis by simp
qed

text \<open>
  the cylinder is cut to eight bits before it is compared with the end of the drive, so sector numbers from 9216 on
  are mapped back onto the first cylinders: sector \<open>l + 9216\<close> has the address of sector \<open>l\<close>,
  and the end-of-drive check accepts it whenever it accepts \<open>l\<close>.
\<close>

theorem lba_wraps_onto_first_cylinders:
  assumes "l \<le> 0xFFFF - 9216"
  shows "lba_to_chs (l + 9216) = lba_to_chs l"
proof -
  obtain h c s h' c' s' where a: "lba_to_chs l = (h, c, s)" and b: "lba_to_chs (l + 9216) = (h', c', s')"
    by (cases "lba_to_chs l", cases "lba_to_chs (l + 9216)") auto
  have "unat (l + 9216) = unat l + 9216"
    using assms by (simp add: unat_word_ariths word_le_nat_alt)
  moreover have "(unat l + 9216) div 36 = unat l div 36 + 256" using div_mult_self1 [of 36 "unat l" 256] by simp
  ultimately have "unat h' = unat h" "unat c' = unat c" "unat s' = unat s"
    unfolding lba_to_chs_nat [OF a] lba_to_chs_nat [OF b] by (simp_all add: mod_add_eq [symmetric])
  then show ?thesis using a b by (simp add: unsigned_word_eqI)
qed

theorem lba_wraps_onto_first_cylinders_witness: "lba_to_chs 9217 = lba_to_chs 1"
  using lba_wraps_onto_first_cylinders [of 1] by simp

section \<open>Transfers are safe\<close>

lemma safe_wait_for_rqm_loop: "safe (fdc_inv k0) (wait_for_rqm_loop E n start)"
proof (induction n)
  case (Suc n)
  then show ?case
    unfolding ext [where f = "wait_for_rqm_loop E (Suc n) start", OF wait_for_rqm_loop.simps(2)]
    by (intro safe_poll_first safe_if safe_try_then safe_map_err safe_msr safe_ok safe_throw)
qed (simp add: safe_def)

lemma safe_wait_for_rqm [intro]: "safe (fdc_inv k0) (wait_for_rqm E)"
  unfolding wait_for_rqm_def by (intro safe_poll_first safe_wait_for_rqm_loop)

lemma safe_send_rw_loop: "safe (fdc_inv k0) (send_rw_loop E n cmd params cyl)"
proof (induction n)
  case 0
  then show ?case unfolding ext [where f = "send_rw_loop E 0 cmd params cyl", OF send_rw_loop.simps(1)] by (rule safe_throw)
next
  case (Suc n)
  then show ?case
    unfolding ext [where f = "send_rw_loop E (Suc n) cmd params cyl", OF send_rw_loop.simps(2)]
    by (intro safe_try_then safe_seek safe_wait_for_rqm safe_match_res safe_send_command safe_ok)
qed

lemma safe_send_read_write [intro]: "safe (fdc_inv k0) (send_read_write E rd ptr sects)"
proof (rule safeI)
  fix k assume k: "fdc_inv k0 k"
  show "send_read_write E rd ptr sects k \<noteq> Panic"
    using safe_Panic [OF safe_send_rw_loop k] by (auto simp: send_read_write_def throw_def Let_def split_beta)
next
  fix k r k' assume k: "fdc_inv k0 k" and "send_read_write E rd ptr sects k = Done (r, k')"
  then show "fdc_inv k0 k'"
    using safe_Done [OF safe_send_rw_loop k] by (auto simp: send_read_write_def throw_def Let_def split_beta split: if_splits)
qed

lemma safe_read_write_status [intro]: "safe (fdc_inv k0) (read_write_status E)"
  unfolding read_write_status_def
  by (intro safe_try_then safe_wait_for_rqm safe_read_byte) (simp add: safe_def)

lemma safe_read_data [intro]: "safe (fdc_inv k0) (read_data E n acc)"
proof (induction n arbitrary: acc)
  case 0
  then show ?case unfolding ext [where f = "read_data E 0 acc", OF read_data.simps(1)] by (rule safe_ok)
next
  case (Suc n)
  then show ?case
    unfolding ext [where f = "read_data E (Suc n) acc", OF read_data.simps(2)]
    by (intro safe_try_then safe_wait_for_rqm safe_match_res safe_read_byte safe_ok)
qed

lemma safe_write_data [intro]: "safe (fdc_inv k0) (write_data E bs)"
proof (induction bs)
  case Nil
  then show ?case unfolding ext [where f = "write_data E []", OF write_data.simps(1)] by (rule safe_ok)
next
  case (Cons b bs)
  then show ?case
    unfolding ext [where f = "write_data E (b # bs)", OF write_data.simps(2)]
    by (intro safe_try_then safe_wait_for_rqm safe_match_res safe_send_byte safe_ok)
qed

lemma safe_give_up_disk: "safe (fdc_inv k0) (give_up msg err)"
  unfolding give_up_def println_def
  by (intro safe_run_then safe_throw) (auto intro: fdc_inv_print dest: print_no_panic)

lemma read_data_length:
  "read_data E n acc k = Done (Inr (Inr bs), k') \<Longrightarrow> length bs = length acc + n"
proof (induction n arbitrary: acc k)
  case (Suc n)
  then obtain d k1 where "read_data E n (acc @ [d]) k1 = Done (Inr (Inr bs), k')"
    by (auto simp: try_then_eq_Done match_res_eq_Done ok_def)
  from Suc.IH [OF this] show ?case by simp
qed (simp add: ok_def)

lemma fdc_inv_bytes [simp]:
  "fdc_inv k0 k \<Longrightarrow> fdc_inv k0 (k\<lparr>READ_BYTES := READ_BYTES k0\<rparr>)"
  "fdc_inv k0 k \<Longrightarrow> fdc_inv k0 (k\<lparr>WRITTEN_BYTES := WRITTEN_BYTES k0\<rparr>)"
  by (simp_all add: fdc_inv_def vga_ok_def below_topbar_def)

text \<open>What a transfer that counts its bytes promises.\<close>

definition read_outcome :: "'a kbd_scheme \<Rightarrow> nat \<Rightarrow> floppy_error + bytes \<Rightarrow> 'a kbd_scheme \<Rightarrow> bool" where
  "read_outcome k0 len r k' \<longleftrightarrow>
     (case r of
        Inl _ \<Rightarrow> fdc_inv k0 k'
      | Inr bs \<Rightarrow> length bs = len \<and> READ_BYTES k' = READ_BYTES k0 + of_nat len
          \<and> motor_idling k' \<and> fdc_inv k0 (k'\<lparr>READ_BYTES := READ_BYTES k0\<rparr>))"

lemma triple_give_up: "triple (fdc_inv k0) (give_up msg err) (\<lambda>r k'. r = Inl err \<and> fdc_inv k0 k' \<and> \<not> FLOPPY_INIT k')"
proof -
  have p: "print_args s fg bg k = Done k' \<Longrightarrow> fdc_inv k0 k \<Longrightarrow> FLOPPY_INIT k' = FLOPPY_INIT k" for s fg bg and k k' :: "'a kbd_scheme"
    using print_args_step [of k s fg bg] by (auto simp: print_step_def machine_flags_def fdc_inv_def)
  have "triple (fdc_inv k0) (give_up msg err) (\<lambda>r k'. r = Inl err \<and> \<not> FLOPPY_INIT k')"
  proof (rule tripleI)
    fix k :: "'a kbd_scheme" assume "fdc_inv k0 k"
    then show "give_up msg err k \<noteq> Panic" by (rule safe_Panic [OF safe_give_up_disk])
  next
    fix k r k' assume k: "fdc_inv k0 k" and run: "give_up msg err k = Done (r, k')"
    let ?k1 = "disable_motor (k\<lparr>FLOPPY_INIT := False\<rparr>)"
    have k1: "fdc_inv k0 ?k1" "\<not> FLOPPY_INIT ?k1" using k by (simp_all add: disable_motor_def Let_def)
    obtain k2 where k2: "print_args (msg @ floppy_error_display err @ nl_str) White Black ?k1 = Done k2"
      "print_args (all_fail_msg @ nl_str) LightRed Black k2 = Done k'" "r = Inl err"
      using run by (auto simp: give_up_def println_def run_then_def andThen_eq_Done throw_def)
    then show "r = Inl err \<and> \<not> FLOPPY_INIT k'"
      using p [OF k2(1) k1(1)] p [OF k2(2) fdc_inv_print [OF k1(1) k2(1)]] k1(2) by simp
  qed
  from triple_conj_safe [OF safe_give_up_disk this] show ?thesis by (rule triple_weaken) auto
qed

lemma triple_read_data:
  "triple (fdc_inv k0) (read_data E len [])
     (\<lambda>r k. fdc_inv k0 k \<and> (\<forall>bs. r = Inr (Inr bs) \<longrightarrow> length bs = len))"
  by (rule triple_conj_safe [OF safe_read_data])
    (rule tripleI, auto dest: safe_Panic [OF safe_read_data] read_data_length)

lemma disk_read_retry_outcome:
  "triple (fdc_inv k0) (disk_read_retry E n err ptr sects len) (read_outcome k0 len)"
proof (induction n arbitrary: err)
  case 0
  show ?case
    unfolding ext [where f = "disk_read_retry E 0 err ptr sects len", OF disk_read_retry.simps(1)]
    by (rule triple_weaken [OF triple_give_up]) (auto simp: read_outcome_def)
next
  case (Suc n)
  have count: "triple (\<lambda>k. fdc_inv k0 k \<and> length bs = len)
      (\<lambda>k. let k = disable_motor k in ok bs (k\<lparr>READ_BYTES := READ_BYTES k + of_nat len\<rparr>)) (read_outcome k0 len)" for bs
    using fdc_inv_bytes(1) [of k0 "disable_motor _"]
    by (auto simp: triple_def ok_def read_outcome_def Let_def fdc_inv_def disable_motor_def motor_idling_def vga_ok_def below_topbar_def)
  have status: "triple (\<lambda>k. fdc_inv k0 k \<and> length bs = len)
      (try_then (read_write_status E) (\<lambda>_. \<lambda>k. let k = disable_motor k in ok bs (k\<lparr>READ_BYTES := READ_BYTES k + of_nat len\<rparr>)))
      (read_outcome k0 len)" for bs
    by (rule triple_try_then [where R = "\<lambda>_ k. fdc_inv k0 k \<and> length bs = len"])
      (use triple_safe [OF safe_read_write_status] count in \<open>auto simp: triple_def read_outcome_def\<close>)
  show ?case
    unfolding ext [where f = "disk_read_retry E (Suc n) err ptr sects len", OF disk_read_retry.simps(2)]
  proof (rule triple_match_res [OF triple_safe [OF safe_send_read_write]], rule Suc.IH, rule triple_try_then [OF triple_read_data])
    fix r
    show "triple (\<lambda>k. fdc_inv k0 k \<and> (\<forall>bs. Inr r = Inr (Inr bs) \<longrightarrow> length bs = len))
       (case r of Inl e \<Rightarrow> disk_read_retry E n e ptr sects len
        | Inr buf \<Rightarrow> try_then (read_write_status E)
            (\<lambda>_. \<lambda>k. let k = disable_motor k in ok buf (k\<lparr>READ_BYTES := READ_BYTES k + of_nat len\<rparr>)))
       (read_outcome k0 len)"
      by (cases r) (use Suc.IH status in \<open>auto intro: triple_weaken\<close>)
  qed (simp add: read_outcome_def)
qed

definition write_outcome :: "'a kbd_scheme \<Rightarrow> nat \<Rightarrow> floppy_error + unit \<Rightarrow> 'a kbd_scheme \<Rightarrow> bool" where
  "write_outcome k0 len r k' \<longleftrightarrow>
     (case r of
        Inl _ \<Rightarrow> fdc_inv k0 k'
      | Inr _ \<Rightarrow> WRITTEN_BYTES k' = WRITTEN_BYTES k0 + of_nat len
          \<and> motor_idling k' \<and> fdc_inv k0 (k'\<lparr>WRITTEN_BYTES := WRITTEN_BYTES k0\<rparr>))"

lemma disk_write_retry_outcome:
  "triple (fdc_inv k0) (disk_write_retry E n err ptr sects buf) (write_outcome k0 (length buf))"
proof (induction n arbitrary: err)
  case 0
  show ?case
    unfolding ext [where f = "disk_write_retry E 0 err ptr sects buf", OF disk_write_retry.simps(1)]
    by (rule triple_weaken [OF triple_give_up]) (auto simp: write_outcome_def)
next
  case (Suc n)
  have count: "triple (fdc_inv k0)
      (\<lambda>k. let k = disable_motor k in ok () (k\<lparr>WRITTEN_BYTES := WRITTEN_BYTES k + of_nat (length buf)\<rparr>))
      (write_outcome k0 (length buf))"
    by (auto simp: triple_def ok_def write_outcome_def Let_def fdc_inv_def disable_motor_def motor_idling_def vga_ok_def below_topbar_def)
  show ?case
    unfolding ext [where f = "disk_write_retry E (Suc n) err ptr sects buf", OF disk_write_retry.simps(2)]
  proof (rule triple_match_res [OF triple_safe [OF safe_send_read_write]], rule Suc.IH,
      rule triple_try_then [OF triple_safe [OF safe_write_data]])
    fix r
    show "triple (fdc_inv k0)
       (case r of Inl e \<Rightarrow> disk_write_retry E n e ptr sects buf
        | Inr _ \<Rightarrow> (\<lambda>k. let k = disable_motor k in ok () (k\<lparr>WRITTEN_BYTES := WRITTEN_BYTES k + of_nat (length buf)\<rparr>)))
       (write_outcome k0 (length buf))"
      by (cases r) (use Suc.IH count in auto)
  qed (simp add: write_outcome_def)
qed

lemma disk_read_outcome: "triple (fdc_inv k0) (disk_read E ptr buf) (\<lambda>r k'. read_outcome k0 (length buf) r k' \<or> (buf = [] \<and> r = Ok [] \<and> fdc_inv k0 k'))"
  using disk_read_retry_outcome [of k0 E DISK_RETRIES "ReadOrWrite IoTimeout" "ucast ptr" "of_nat (length buf div SECTOR_SIZE)" "length buf"]
  unfolding triple_def disk_read_def by (auto simp: ok_def throw_def read_outcome_def)

lemma disk_write_outcome: "triple (fdc_inv k0) (disk_write E ptr buf) (\<lambda>r k'. write_outcome k0 (length buf) r k' \<or> (buf = [] \<and> r = Ok () \<and> fdc_inv k0 k'))"
  using disk_write_retry_outcome [of k0 E DISK_RETRIES "ReadOrWrite IoTimeout" "ucast ptr" "of_nat (length buf div SECTOR_SIZE)" buf]
  unfolding triple_def disk_write_def by (auto simp: ok_def throw_def write_outcome_def)

text \<open>
  C6: a sector read never panics, whatever the controller answers. If it succeeds it returns exactly as many bytes as were asked for,
  adds them to the counter of read bytes and leaves the motor to stop after its delay; if it fails no byte is
  counted. A buffer that is not a multiple of 512 bytes or a controller that is not initialised is refused before anything is sent.
\<close>

theorem disk_read_correct:
  fixes k :: "'a kbd_scheme"
  assumes "vga_ok k" and "buf \<noteq> []"
  shows "disk_read E ptr buf k \<noteq> Panic
    \<and> (\<forall>bs k'. disk_read E ptr buf k = Done (Ok bs, k') \<longrightarrow>
         length bs = length buf \<and> READ_BYTES k' = READ_BYTES k + of_nat (length buf) \<and> motor_idling k' \<and> vga_ok k'
         \<and> WRITTEN_BYTES k' = WRITTEN_BYTES k \<and> (FLOPPY_INIT k' \<longrightarrow> FLOPPY_INIT k))
    \<and> (\<forall>e k'. disk_read E ptr buf k = Done (Err e, k') \<longrightarrow>
         READ_BYTES k' = READ_BYTES k \<and> WRITTEN_BYTES k' = WRITTEN_BYTES k \<and> vga_ok k' \<and> (FLOPPY_INIT k' \<longrightarrow> FLOPPY_INIT k))
    \<and> (\<not> FLOPPY_INIT k \<longrightarrow> disk_read E ptr buf k = Done (Err (ReadOrWrite ControllerUninit), k))
    \<and> (FLOPPY_INIT k \<and> length buf mod 512 \<noteq> 0 \<longrightarrow>
         disk_read E ptr buf k = Done (Err (ReadOrWrite (BadBufLen (of_nat (length buf)))), k))"
proof -
  note inv = fdc_inv_refl [OF assms(1)]
  note out = triple_Done [OF disk_read_outcome inv, of E ptr buf]
  have "disk_read E ptr buf k \<noteq> Panic" by (rule triple_Panic [OF disk_read_outcome inv])
  moreover have "length bs = length buf \<and> READ_BYTES k' = READ_BYTES k + of_nat (length buf) \<and> motor_idling k' \<and> vga_ok k'
         \<and> WRITTEN_BYTES k' = WRITTEN_BYTES k \<and> (FLOPPY_INIT k' \<longrightarrow> FLOPPY_INIT k)"
    if "disk_read E ptr buf k = Done (Ok bs, k')" for bs k'
    using out [OF that] assms(2) by (simp add: read_outcome_def fdc_inv_def vga_ok_def)
  moreover have "READ_BYTES k' = READ_BYTES k \<and> WRITTEN_BYTES k' = WRITTEN_BYTES k \<and> vga_ok k' \<and> (FLOPPY_INIT k' \<longrightarrow> FLOPPY_INIT k)"
    if "disk_read E ptr buf k = Done (Err e, k')" for e k'
    using out [OF that] by (simp add: read_outcome_def fdc_inv_def)
  moreover have "\<not> FLOPPY_INIT k \<Longrightarrow> disk_read E ptr buf k = Done (Err (ReadOrWrite ControllerUninit), k)"
    "FLOPPY_INIT k \<and> length buf mod 512 \<noteq> 0 \<Longrightarrow>
       disk_read E ptr buf k = Done (Err (ReadOrWrite (BadBufLen (of_nat (length buf)))), k)"
    using assms(2) by (simp_all add: disk_read_def throw_def SECTOR_SIZE_def)
  ultimately show ?thesis by blast
qed

theorem disk_read_correct_witness:
  "\<not> FLOPPY_INIT running_kbd \<and>
   disk_read sample_env 0 (replicate 512 0) running_kbd = Done (Err (ReadOrWrite ControllerUninit), running_kbd)"
proof -
  have "\<not> FLOPPY_INIT running_kbd"
    by (simp add: running_kbd_def initial_kbd_def based_fdc_def initial_fdc_def initial_clock_def cleared_vga_def
        fdc.extend_def clock.extend_def vga.extend_def)
  moreover have "replicate 512 (0 :: u8) \<noteq> []" by simp
  ultimately show ?thesis using disk_read_correct [OF running_kbd_ok] by blast
qed

text \<open>
  C30: a sector write never panics; if it succeeds all bytes of the buffer are added to the counter of written bytes and
  the motor is left to stop after its delay, if it fails none is counted.
\<close>

theorem disk_write_correct:
  fixes k :: "'a kbd_scheme"
  assumes "vga_ok k" and "buf \<noteq> []"
  shows "disk_write E ptr buf k \<noteq> Panic
    \<and> (\<forall>k'. disk_write E ptr buf k = Done (Ok (), k') \<longrightarrow>
         WRITTEN_BYTES k' = WRITTEN_BYTES k + of_nat (length buf) \<and> READ_BYTES k' = READ_BYTES k \<and> motor_idling k' \<and> vga_ok k')
    \<and> (\<forall>e k'. disk_write E ptr buf k = Done (Err e, k') \<longrightarrow>
         WRITTEN_BYTES k' = WRITTEN_BYTES k \<and> READ_BYTES k' = READ_BYTES k \<and> vga_ok k' \<and> (FLOPPY_INIT k' \<longrightarrow> FLOPPY_INIT k))"
proof -
  note inv = fdc_inv_refl [OF assms(1)]
  note out = triple_Done [OF disk_write_outcome inv, of E ptr buf]
  have "disk_write E ptr buf k \<noteq> Panic" by (rule triple_Panic [OF disk_write_outcome inv])
  moreover have "WRITTEN_BYTES k' = WRITTEN_BYTES k + of_nat (length buf) \<and> READ_BYTES k' = READ_BYTES k \<and> motor_idling k' \<and> vga_ok k'"
    if "disk_write E ptr buf k = Done (Ok (), k')" for k'
    using out [OF that] assms(2) by (simp add: write_outcome_def fdc_inv_def vga_ok_def)
  moreover have "WRITTEN_BYTES k' = WRITTEN_BYTES k \<and> READ_BYTES k' = READ_BYTES k \<and> vga_ok k' \<and> (FLOPPY_INIT k' \<longrightarrow> FLOPPY_INIT k)"
    if "disk_write E ptr buf k = Done (Err e, k')" for e k'
    using out [OF that] by (simp add: write_outcome_def fdc_inv_def)
  ultimately show ?thesis by blast
qed

theorem disk_write_correct_witness: "disk_write sample_env 0 (replicate 512 0) running_kbd \<noteq> Panic"
proof -
  have "replicate 512 (0 :: u8) \<noteq> []" by simp
  then show ?thesis using disk_write_correct [OF running_kbd_ok] by blast
qed

text \<open>
  a driver that gave up a transfer stays off: once all attempts failed the initialised flag is clear, and with it clear every
  further read and write of a non-empty buffer fails at once without touching the controller.
\<close>

theorem disk_off_after_giving_up:
  fixes k :: "'a kbd_scheme"
  assumes "vga_ok k" and "give_up msg err k = Done (r :: floppy_error + bytes, k')" and "buf \<noteq> []"
  shows "r = Err err \<and> \<not> FLOPPY_INIT k'
    \<and> disk_read E ptr buf k' = Done (Err (ReadOrWrite ControllerUninit), k')
    \<and> disk_write E ptr buf k' = Done (Err (ReadOrWrite ControllerUninit), k')"
proof -
  have off: "r = Err err" "\<not> FLOPPY_INIT k'"
    using triple_Done [OF triple_give_up fdc_inv_refl [OF assms(1)] assms(2)] by blast+
  show ?thesis using assms(3) unfolding off(1) by (simp add: off(2) disk_read_def disk_write_def throw_def)
qed

lemma give_up_running: "\<exists>r k'. give_up [] (ReadOrWrite IoTimeout) running_kbd = Done (r :: floppy_error + bytes, k')"
proof -
  let ?k = "disable_motor (running_kbd\<lparr>FLOPPY_INIT := False\<rparr>)"
  have "vga_ok ?k" using running_kbd_ok by (simp add: vga_ok_def disable_motor_def Let_def)
  then obtain k1 where k1: "print_args (floppy_error_display (ReadOrWrite IoTimeout) @ nl_str) White Black ?k = Done k1" "print_step ?k k1"
    using print_args_step by blast
  then obtain k2 where "print_args (all_fail_msg @ nl_str) LightRed Black k1 = Done k2"
    using print_args_step [OF print_step_ok [OF k1(2)]] by blast
  with k1(1) show ?thesis by (simp add: give_up_def println_def run_then_def throw_def)
qed

theorem disk_off_after_giving_up_witness:
  "\<exists>k'. give_up [] (ReadOrWrite IoTimeout) running_kbd = Done (Err (ReadOrWrite IoTimeout) :: floppy_error + bytes, k')
     \<and> disk_read sample_env 0 [0] k' = Done (Err (ReadOrWrite ControllerUninit), k')"
proof -
  obtain r :: "floppy_error + bytes" and k' where g: "give_up [] (ReadOrWrite IoTimeout) running_kbd = Done (r, k')" using give_up_running by blast
  from disk_off_after_giving_up [OF running_kbd_ok g, of "[0]" sample_env 0] g show ?thesis by auto
qed

section \<open>Status bytes\<close>

lemma or_exp_eq: "n < LENGTH('a) \<Longrightarrow> (w OR 2 ^ n = w) = bit (w :: 'a::len word) n"
  using or_exp_same [of n w] by (simp add: eq_commute)

lemma or_bit_same: "((b :: u8) OR 0x2 = b) = bit b 1" "(b OR 0x4 = b) = bit b 2" "(b OR 0x8 = b) = bit b 3"
  "(b OR 0x10 = b) = bit b 4" "(b OR 0x20 = b) = bit b 5" "(b OR 0x40 = b) = bit b 6" "(b OR 0x80 = b) = bit b 7"
  using or_exp_eq [of 1 b] or_exp_eq [of 2 b] or_exp_eq [of 3 b] or_exp_eq [of 4 b] or_exp_eq [of 5 b]
    or_exp_eq [of 6 b] or_exp_eq [of 7 b]
  by simp_all

lemma or_c0_same: "((b :: u8) OR 0xC0 = b) = (bit b 6 \<and> bit b 7)"
proof
  assume "b OR 0xC0 = b"
  then have "bit b i = bit (b OR 0xC0) i" for i by simp
  from this [of 6] this [of 7] show "bit b 6 \<and> bit b 7" by (simp add: bit_simps)
next
  assume "bit b 6 \<and> bit b 7"
  then show "b OR 0xC0 = b" by (intro u8_eqI) (simp_all add: bit_simps)
qed

text \<open>
  a transfer is reported successful exactly when status byte 1 has none of the bits 1, 2, 4, 5, 6, 7 set, status byte 2 none of the bits
  1, 4, 5, and status byte 0 neither bit 3 nor both of its top bits: an interrupt code of 01, abnormal termination, in the top bits
  alone is not noticed.
\<close>

theorem status_verdict_ok_iff:
  "status_verdict st0 st1 st2 = Ok () \<longleftrightarrow>
     \<not> (bit st0 6 \<and> bit st0 7) \<and> \<not> bit st0 3
     \<and> \<not> bit st1 1 \<and> \<not> bit st1 2 \<and> \<not> bit st1 4 \<and> \<not> bit st1 5 \<and> \<not> bit st1 6 \<and> \<not> bit st1 7
     \<and> \<not> bit st2 1 \<and> \<not> bit st2 4 \<and> \<not> bit st2 5"
  unfolding status_verdict_def ST0_ERR_OR_RESET_def or_bit_same or_c0_same by simp

end
