(* ===== verification/Floppy.thy ===== *)
theory Floppy
  imports Disk
begin

text \<open>
  kernel/src/floppy.rs: detecting the drive and bringing up the controller.
\<close>

section \<open>Detection\<close>

record floppy_info =
  fi_space :: u16
  fi_five_inch :: bool

definition floppy_info_new :: "u8 \<Rightarrow> floppy_info option" where
  "floppy_info_new bits =
     (if bits = 0 then None
      else if bits = 1 then Some \<lparr>fi_space = 360, fi_five_inch = True\<rparr>
      else if bits = 2 then Some \<lparr>fi_space = 1200, fi_five_inch = True\<rparr>
      else if bits = 3 then Some \<lparr>fi_space = 720, fi_five_inch = False\<rparr>
      else if bits = 4 then Some \<lparr>fi_space = 1440, fi_five_inch = False\<rparr>
      else if bits = 5 then Some \<lparr>fi_space = 2880, fi_five_inch = False\<rparr>
      else None)"

definition floppy_info_display :: "floppy_info \<Rightarrow> string" where
  "floppy_info_display i =
     (let sz = (if fi_five_inch i then ''5.25'' else ''3.5'')
      in dec_str (unat (fi_space i)) @ '' KB, '' @ sz @ '' inches'')"

definition CMOS_FLOPPY_REG :: u8 where "CMOS_FLOPPY_REG = 0x10"
definition MAIN_BASE :: u16 where "MAIN_BASE = 0x3F0"
definition SECONDARY_BASE :: u16 where "SECONDARY_BASE = 0x370"
definition GOOD_VERSION :: u8 where "GOOD_VERSION = 0x90"

text \<open>\<^verbatim>\<open>FLOPPY_SPACE.init(space)?; BASE_OFFSET.init(base)?\<close>\<close>

definition init_statics :: "u16 \<Rightarrow> u16 \<Rightarrow> ('a kbd_scheme, floppy_error, unit) fallible" where
  "init_statics space base k =
     (let (r, c) = init_later_init space (FLOPPY_SPACE k);
          k = k\<lparr>FLOPPY_SPACE := c\<rparr>
      in case r of
           Inl e \<Rightarrow> throw (InitStatic e) k
         | Inr _ \<Rightarrow>
             let (r, c) = init_later_init base (BASE_OFFSET k);
                 k = k\<lparr>BASE_OFFSET := c\<rparr>
             in case r of Inl e \<Rightarrow> throw (InitStatic e) k | Inr _ \<Rightarrow> ok () k)"

definition select_drive :: "env \<Rightarrow> ('a kbd_scheme, floppy_error, unit) fallible" where
  "select_drive E k =
     (let (info, k) = read_cmos_reg E CMOS_FLOPPY_REG k;
          main = floppy_info_new (drop_bit 4 info);
          secondary = floppy_info_new (info AND 0b1111)
      in case main of
           Some floppy \<Rightarrow> init_statics (fi_space floppy) MAIN_BASE k
         | None \<Rightarrow>
             (case secondary of
                Some floppy \<Rightarrow>
                  try_then (init_statics (fi_space floppy) SECONDARY_BASE)
                    (\<lambda>_. \<lambda>k. ok () (k\<lparr>DRIVE_ONE := True\<rparr>)) k
              | None \<Rightarrow> throw (OtherError ''No floppy drives found!'') k))"

section \<open>Initialisation\<close>

text \<open>The part of \<^verbatim>\<open>init\<close> after a drive was chosen.\<close>

definition bring_up :: "env \<Rightarrow> ('a kbd_scheme, floppy_error, unit) fallible" where
  "bring_up E =
     try_then (map_err InitStatic (enable_motor E)) (\<lambda>_.
     try_then (map_err SendCommand (send_command E Version [])) (\<lambda>_.
     try_then (read_byte E) (\<lambda>version.
       if version \<noteq> GOOD_VERSION
       then throw (OtherError ''Unsupported controller version: {version}'')
       else
         try_then (send_configure E) (\<lambda>_.
         try_then (init_fdc E) (\<lambda>_.
         try_then (seek E None) (\<lambda>_.
           \<lambda>k. let k = k\<lparr>FLOPPY_INIT := True\<rparr> in ok () (disable_motor k)))))))"

definition floppy_init :: "env \<Rightarrow> ('a kbd_scheme, floppy_error, unit) fallible" where
  "floppy_init E = try_then (select_drive E) (\<lambda>_. bring_up E)"

definition init_wrapper :: "env \<Rightarrow> 'a kbd_scheme \<Rightarrow> (floppy_error exit_code \<times> 'a kbd_scheme) run" where
  "init_wrapper E k =
     andThen (floppy_init E k)
       (\<lambda>(r, k). case r of Inl e \<Rightarrow> Done (ExError e, k) | Inr _ \<Rightarrow> Done (ExOk, k))"

section \<open>Correctness\<close>

text \<open>The drive that is chosen: the first one the CMOS knows, on its controller.\<close>

definition chosen_drive :: "u8 \<Rightarrow> (u16 \<times> u16 \<times> bool) option" where
  "chosen_drive info =
     (case floppy_info_new (drop_bit 4 info) of
        Some f \<Rightarrow> Some (fi_space f, MAIN_BASE, False)
      | None \<Rightarrow> map_option (\<lambda>f. (fi_space f, SECONDARY_BASE, True)) (floppy_info_new (info AND 0b1111)))"

text \<open>Both statics unset and drive 0 selected, as at boot.\<close>

definition fdc_fresh :: "'a kbd_scheme \<Rightarrow> bool" where
  "fdc_fresh k \<longleftrightarrow> il_state (BASE_OFFSET k) = UNINIT \<and> il_state (FLOPPY_SPACE k) = UNINIT \<and> \<not> DRIVE_ONE k"

lemma init_statics_fresh:
  assumes "fdc_fresh k"
  shows "\<exists>k'. init_statics space base k = Done (Ok (), k') \<and> init_later_read (FLOPPY_SPACE k') = Ok space
    \<and> base_known base k' \<and> k' = k\<lparr>FLOPPY_SPACE := FLOPPY_SPACE k', BASE_OFFSET := BASE_OFFSET k'\<rparr>"
  using assms
  by (simp add: init_statics_def init_later_init_uninit fdc_fresh_def ok_def init_later_read_def base_known_def Let_def)

lemma init_statics_returns: "\<exists>r k'. init_statics space base k = Done (r, k')"
  by (auto simp: init_statics_def throw_def ok_def Let_def split: sum.splits prod.splits)

lemma select_drive_returns: "\<exists>r k'. select_drive E k = Done (r, k')"
proof -
  obtain info k1 where c: "read_cmos_reg E CMOS_FLOPPY_REG k = (info, k1)" by (cases "read_cmos_reg E CMOS_FLOPPY_REG k")
  have "\<exists>r k'. try_then (init_statics s b) (\<lambda>_ k. ok () (k\<lparr>DRIVE_ONE := True\<rparr>)) k1 = Done (r, k')" for s b
    using init_statics_returns [of s b k1] by (auto simp: try_then_def ok_def split: sum.splits)
  then show ?thesis
    using c init_statics_returns by (auto simp: select_drive_def throw_def split: option.splits)
qed

lemma select_drive_fresh:
  fixes k :: "'a kbd_scheme"
  assumes "fdc_fresh k" and "vga_ok k" and "select_drive E k = Done (r, k')"
  shows "vga_ok k' \<and> FLOPPY_INIT k' = FLOPPY_INIT k \<and>
    (case chosen_drive (fst (read_cmos_reg E CMOS_FLOPPY_REG k)) of
       None \<Rightarrow> r = Err (OtherError ''No floppy drives found!'')
     | Some (space, base, one) \<Rightarrow>
         r = Ok () \<and> init_later_read (FLOPPY_SPACE k') = Ok space \<and> base_known base k' \<and> DRIVE_ONE k' = one)"
proof -
  obtain info k1 where c: "read_cmos_reg E CMOS_FLOPPY_REG k = (info, k1)" by (cases "read_cmos_reg E CMOS_FLOPPY_REG k")
  have k1: "fdc_fresh k1" "vga_ok k1" "FLOPPY_INIT k1 = FLOPPY_INIT k" "\<not> DRIVE_ONE k1"
    using c assms(1,2) by (auto simp: read_cmos_reg_eq Let_def fdc_fresh_def vga_ok_def)
  show ?thesis
  proof (cases "floppy_info_new (drop_bit 4 info)")
    case (Some f)
    obtain k2 where k2: "init_statics (fi_space f) MAIN_BASE k1 = Done (Ok (), k2)"
      "init_later_read (FLOPPY_SPACE k2) = Ok (fi_space f)" "base_known MAIN_BASE k2"
      "k2 = k1\<lparr>FLOPPY_SPACE := FLOPPY_SPACE k2, BASE_OFFSET := BASE_OFFSET k2\<rparr>"
      using init_statics_fresh [OF k1(1)] by blast
    have "vga_ok k2" "FLOPPY_INIT k2 = FLOPPY_INIT k1" "DRIVE_ONE k2 = DRIVE_ONE k1"
      using k1(2) by (subst k2(4), simp add: vga_ok_def)+
    then show ?thesis using assms(3) c Some k1 k2(1-3) by (simp add: select_drive_def chosen_drive_def)
  next
    case main: None
    show ?thesis
    proof (cases "floppy_info_new (info AND 0b1111)")
      case (Some f)
      obtain k2 where k2: "init_statics (fi_space f) SECONDARY_BASE k1 = Done (Ok (), k2)"
        "init_later_read (FLOPPY_SPACE k2) = Ok (fi_space f)" "base_known SECONDARY_BASE k2"
        "k2 = k1\<lparr>FLOPPY_SPACE := FLOPPY_SPACE k2, BASE_OFFSET := BASE_OFFSET k2\<rparr>"
        using init_statics_fresh [OF k1(1)] by blast
      have "vga_ok k2" "FLOPPY_INIT k2 = FLOPPY_INIT k1"
        using k1(2) by (subst k2(4), simp add: vga_ok_def)+
      then show ?thesis
        using assms(3) c main Some k1 k2(1-3)
        by (auto simp: select_drive_def chosen_drive_def try_then_def ok_def vga_ok_def base_known_def)
    next
      case None
      then show ?thesis using assms(3) c main k1 by (simp add: select_drive_def chosen_drive_def throw_def)
    qed
  qed
qed

text \<open>What bringing up a selected drive may do.\<close>

definition brought_up :: "'a kbd_scheme \<Rightarrow> floppy_error + unit \<Rightarrow> 'a kbd_scheme \<Rightarrow> bool" where
  "brought_up k0 r k \<longleftrightarrow> vga_ok k \<and> BASE_OFFSET k = BASE_OFFSET k0 \<and> FLOPPY_SPACE k = FLOPPY_SPACE k0
     \<and> DRIVE_ONE k = DRIVE_ONE k0 \<and> kbd.more k = kbd.more k0
     \<and> (below_topbar k0 \<longrightarrow> below_topbar k) \<and> length (KBD_BUF k) = length (KBD_BUF k0)
     \<and> (case r of Inl _ \<Rightarrow> FLOPPY_INIT k \<longrightarrow> FLOPPY_INIT k0 | Inr _ \<Rightarrow> FLOPPY_INIT k \<and> motor_idling k)"

lemma triple_bring_up:
  fixes k0 :: "'a kbd_scheme"
  shows "triple (fdc_inv k0) (bring_up E) (brought_up k0)"
proof -
  have fin: "triple (fdc_inv k0) (\<lambda>k. let k = k\<lparr>FLOPPY_INIT := True\<rparr> in ok () (disable_motor k)) (brought_up k0)"
    by (rule tripleI) (auto simp: ok_def Let_def brought_up_def fdc_inv_def disable_motor_def motor_idling_def vga_ok_def below_topbar_def)
  have err: "brought_up k0 (Inl e) s" if "fdc_inv k0 s" for e s using that by (simp add: brought_up_def fdc_inv_def)
  have good: "triple (fdc_inv k0) (try_then (send_configure E) (\<lambda>_. try_then (init_fdc E) (\<lambda>_. try_then (seek E None) (\<lambda>_.
           \<lambda>k. let k = k\<lparr>FLOPPY_INIT := True\<rparr> in ok () (disable_motor k))))) (brought_up k0)"
    by (intro triple_try_safe safe_send_configure safe_init_fdc safe_seek err fin)
  have "triple (fdc_inv k0) (if v \<noteq> GOOD_VERSION then throw (OtherError ''Unsupported controller version: {version}'')
       else try_then (send_configure E) (\<lambda>_. try_then (init_fdc E) (\<lambda>_. try_then (seek E None) (\<lambda>_.
           \<lambda>k. let k = k\<lparr>FLOPPY_INIT := True\<rparr> in ok () (disable_motor k))))) (brought_up k0)" for v
    using good triple_throw [of "fdc_inv k0" "brought_up k0", OF err] by simp
  then show ?thesis
    unfolding bring_up_def by (intro triple_try_safe safe_map_err safe_enable_motor safe_send_command safe_read_byte err)
qed

text \<open>
  C11: bringing up the floppy driver on a machine where it was not set up before. It never panics. If it succeeds, the CMOS reported a drive; the first
  one it reports (main before secondary) is selected with its capacity, controller base and drive number, and the driver is marked initialised. If it
  fails the driver is not marked initialised, and without a drive it fails with that message.
\<close>

theorem floppy_init_correct:
  fixes k :: "'a kbd_scheme"
  assumes "fdc_fresh k" and "vga_ok k" and "\<not> FLOPPY_INIT k"
  shows "floppy_init E k \<noteq> Panic \<and>
    (\<forall>r k'. floppy_init E k = Done (r, k') \<longrightarrow>
      (case r of
         Inl e \<Rightarrow> \<not> FLOPPY_INIT k'
           \<and> (chosen_drive (fst (read_cmos_reg E CMOS_FLOPPY_REG k)) = None \<longrightarrow> e = OtherError ''No floppy drives found!'')
       | Inr _ \<Rightarrow> FLOPPY_INIT k' \<and> motor_idling k'
           \<and> (\<exists>space base one. chosen_drive (fst (read_cmos_reg E CMOS_FLOPPY_REG k)) = Some (space, base, one)
                \<and> init_later_read (FLOPPY_SPACE k') = Ok space \<and> base_known base k' \<and> DRIVE_ONE k' = one)))"
proof -
  obtain r k1 where sel: "select_drive E k = Done (r, k1)" using select_drive_returns by blast
  note s = select_drive_fresh [OF assms(1,2) sel]
  show ?thesis
  proof (cases r)
    case (Inl e)
    then show ?thesis using sel s assms(3) by (auto simp: floppy_init_def try_then_def split: option.splits)
  next
    case (Inr u)
    then have run: "floppy_init E k = bring_up E k1" using sel by (simp add: floppy_init_def try_then_def)
    obtain space base one where ch: "chosen_drive (fst (read_cmos_reg E CMOS_FLOPPY_REG k)) = Some (space, base, one)"
      "init_later_read (FLOPPY_SPACE k1) = Ok space" "base_known base k1" "DRIVE_ONE k1 = one"
      using s Inr by (auto split: option.splits)
    have inv: "fdc_inv k1 k1" using s fdc_inv_refl by blast
    have "brought_up k1 q k'" if "bring_up E k1 = Done (q, k')" for q k'
      using that by (rule triple_Done [OF triple_bring_up inv])
    moreover have "bring_up E k1 \<noteq> Panic" by (rule triple_Panic [OF triple_bring_up inv])
    ultimately show ?thesis
      using run s ch assms(3) by (auto simp: brought_up_def base_known_def split: sum.splits)
  qed
qed

definition fresh_kbd :: kbd where
  "fresh_kbd = running_kbd\<lparr>BASE_OFFSET := init_later_uninit 0, FLOPPY_SPACE := init_later_uninit 0\<rparr>"

theorem floppy_init_correct_witness:
  "\<exists>k'. floppy_init sample_env fresh_kbd = Done (Err (OtherError ''No floppy drives found!''), k') \<and> \<not> FLOPPY_INIT k'"
proof -
  have f: "fdc_fresh fresh_kbd" "\<not> FLOPPY_INIT fresh_kbd"
    by (simp_all add: fresh_kbd_def fdc_fresh_def running_kbd_def initial_kbd_def based_fdc_def initial_fdc_def
        initial_clock_def cleared_vga_def fdc.extend_def clock.extend_def vga.extend_def init_later_uninit_def)
  have v: "vga_ok fresh_kbd" using running_kbd_ok by (simp add: fresh_kbd_def vga_ok_def)
  have none: "chosen_drive (fst (read_cmos_reg sample_env CMOS_FLOPPY_REG fresh_kbd)) = None"
    by (simp add: read_cmos_reg_eq sample_env_def Let_def chosen_drive_def floppy_info_new_def)
  have "\<exists>e k'. floppy_init sample_env fresh_kbd = Done (Err e, k')"
    by (simp add: floppy_init_def select_drive_def try_then_def read_cmos_reg_eq sample_env_def Let_def
        floppy_info_new_def throw_def)
  then obtain e k' where run: "floppy_init sample_env fresh_kbd = Done (Err e, k')" by blast
  have "\<not> FLOPPY_INIT k' \<and> e = OtherError ''No floppy drives found!''"
    using floppy_init_correct [OF f(1) v f(2), of sample_env] run none by simp
  then show ?thesis using run by blast
qed

end
