(* ===== verification/Fs_Init.thy ===== *)
theory Fs_Init
  imports Fs_Table
begin

text \<open>
  libfs/src/init.rs: formatting a drive, and loading the inode table and the block bitmap from it.
\<close>

section \<open>Operations\<close>

definition reformat_drive :: "filesystem_header \<Rightarrow> ('s, 'e) drive_write \<Rightarrow> ('s, 'e, unit) fallible" where
  "reformat_drive header wr =
     try_then (wr 0 (header_as_bytes header))
       (\<lambda>_. try_then (wr INODE_START (replicate (INODES * SIZE_OF_INODE) 0))
       (\<lambda>_. ok ()))"

datatype 'e read_tbl_error = ReadError 'e | ExmapError | AllocBmp alloc_bmp_error

definition read_tbl_error_display :: "('e \<Rightarrow> string) \<Rightarrow> 'e read_tbl_error \<Rightarrow> string" where
  "read_tbl_error_display disp e =
     (case e of
        ReadError e \<Rightarrow> ''read error: '' @ disp e
      | ExmapError \<Rightarrow> ''unable to access an exmap value''
      | AllocBmp e \<Rightarrow> ''alloc bmp error: '' @ alloc_bmp_error_display e)"

text \<open>The valid block pointers of an inode, in the order the two inner loops visit them.\<close>

definition inode_valid_blocks :: "inode \<Rightarrow> block_ptr list" where
  "inode_valid_blocks nod = filter block_ptr_is_valid (concat (map dual_decode (nod_blocks nod)))"

text \<open>The loop over the active inodes, each with its position among the active ones.\<close>

fun read_nods ::
  "(nat \<times> inode) list \<Rightarrow> u32 \<Rightarrow> u32 \<Rightarrow> (inode_table \<times> block_bitmap \<times> 's, 'e read_tbl_error, u32 \<times> u32) fallible"
  where
  "read_nods [] active_nods used_blocks st = ok (active_nods, used_blocks) st"
| "read_nods ((idx, nod) # rest) active_nods used_blocks (tbl, bmp, s) =
     (let active_nods = active_nods + 1
      in if length tbl \<le> idx then Panic
         else let (res, cell) = exmap_map (\<lambda>n. ((), inode_clone nod)) (tbl ! idx);
                  tbl = tbl[idx := cell]
              in if res = None then throw ExmapError (tbl, bmp, s)
                 else andThen (alloc_each alloc_bmp (inode_valid_blocks nod) used_blocks bmp)
                        (\<lambda>(r, bmp). case r of
                           Inl e \<Rightarrow> throw (AllocBmp e) (tbl, bmp, s)
                         | Inr used_blocks \<Rightarrow> read_nods rest active_nods used_blocks (tbl, bmp, s)))"

definition read_table ::
  "('s, 'e) drive_read \<Rightarrow> (inode_table \<times> block_bitmap \<times> 's, 'e read_tbl_error, u32 \<times> u32) fallible" where
  "read_table rd = (\<lambda>(tbl, bmp, s).
     andThen (rd INODE_START (replicate (SIZE_OF_INODE * INODES) 0) s)
       (\<lambda>(r, s). case r of
          Inl e \<Rightarrow> throw (ReadError e) (tbl, bmp, s)
        | Inr buf \<Rightarrow>
            let nods = transmute_array inode_from_raw SIZE_OF_INODE INODES buf
            in read_nods (enumerate 0 (filter (\<lambda>n. \<not> is_available n) nods)) 0 0 (tbl, bmp, s)))"

section \<open>Loading the table\<close>

lemma inode_valid_blocks_domain: "set (inode_valid_blocks nod) \<subseteq> bmp_domain"
  using dual_decode_bounds
  by (fastforce simp: inode_valid_blocks_def bmp_domain_def block_ptr_is_valid_def block_ptr_is_null_def)

text \<open>The table after the inodes \<open>ns\<close> were stored from slot \<open>k\<close> on.\<close>

definition stored :: "nat \<Rightarrow> inode list \<Rightarrow> inode_table \<Rightarrow> inode_table" where
  "stored k ns tbl = take k tbl @ map (\<lambda>n. exclusive_map_new (inode_clone n)) ns @ drop (k + length ns) tbl"

lemma stored_Nil [simp]: "stored k [] tbl = tbl"
  by (simp add: stored_def)

lemma length_stored: "k + length ns \<le> length tbl \<Longrightarrow> length (stored k ns tbl) = length tbl"
  by (simp add: stored_def)

lemma stored_Cons:
  assumes "k + length (n # ns) \<le> length tbl"
  shows "stored (Suc k) ns (tbl[k := exclusive_map_new (inode_clone n)]) = stored k (n # ns) tbl"
proof -
  have "take (Suc k) (tbl[k := exclusive_map_new (inode_clone n)]) = take k tbl @ [exclusive_map_new (inode_clone n)]"
    using assms by (simp add: take_Suc_conv_app_nth)
  then show ?thesis by (simp add: stored_def)
qed

lemma exmap_overwrite:
  "\<not> em_access c \<Longrightarrow> exmap_map (\<lambda>n. ((), v)) c = (Some (), exclusive_map_new v)"
  by (cases c) (simp add: exmap_map_free exclusive_map_new_def)

lemma read_nods_free:
  assumes "\<forall>c\<in>set tbl. \<not> em_access c" and "bmp_ok bmp" and "k + length ns \<le> length tbl"
    and "distinct (concat (map inode_valid_blocks ns))"
    and "set (concat (map inode_valid_blocks ns)) \<inter> bmp_used bmp = {}"
  shows "\<exists>bmp'. read_nods (enumerate k ns) a u (tbl, bmp, s) =
      Done (Ok (a + of_nat (length ns), u + of_nat (length (concat (map inode_valid_blocks ns))))
              :: 'e read_tbl_error + u32 \<times> u32,
            (stored k ns tbl, bmp', s))
    \<and> bmp_ok bmp' \<and> bmp_used bmp' = bmp_used bmp \<union> set (concat (map inode_valid_blocks ns))"
  using assms
proof (induction ns arbitrary: k a u tbl bmp)
  case (Cons n ns)
  let ?bs = "inode_valid_blocks n" and ?rest = "concat (map inode_valid_blocks ns)"
  have k: "k < length tbl" "\<not> em_access (tbl ! k)" using Cons.prems(1,3) by simp_all
  obtain b1 where b1: "alloc_each alloc_bmp ?bs u bmp = Done (Inr (u + of_nat (length ?bs)), b1)"
    "bmp_ok b1" "bmp_used b1 = bmp_used bmp \<union> set ?bs"
    using bmp.alloc_each_free [OF Cons.prems(2) inode_valid_blocks_domain, of n u] Cons.prems(4,5) by auto
  let ?t = "tbl[k := exclusive_map_new (inode_clone n)]"
  have t: "\<forall>c\<in>set ?t. \<not> em_access c"
    using Cons.prems(1) by (auto dest!: set_update_subset_insert [THEN subsetD])
  have "set ?rest \<inter> bmp_used b1 = {}" "distinct ?rest" "Suc k + length ns \<le> length ?t"
    using Cons.prems(3-5) b1(3) by auto
  with Cons.IH [OF t b1(2), of "Suc k" "a + 1" "u + of_nat (length ?bs)"] obtain b' where
    "read_nods (enumerate (Suc k) ns) (a + 1) (u + of_nat (length ?bs)) (?t, b1, s)
       = Done (Ok (a + 1 + of_nat (length ns), u + of_nat (length ?bs) + of_nat (length ?rest))
                 :: 'e read_tbl_error + u32 \<times> u32,
               (stored (Suc k) ns ?t, b', s))"
    "bmp_ok b'" "bmp_used b' = bmp_used b1 \<union> set ?rest"
    by blast
  then show ?case
    using k b1 stored_Cons [OF Cons.prems(3)] by (simp add: exmap_overwrite Un_assoc algebra_simps)
qed (simp add: ok_def)

lemma read_nods_conflict:
  assumes "\<forall>c\<in>set tbl. \<not> em_access c" and "bmp_ok bmp" and "k + length ns \<le> length tbl"
    and "\<not> (distinct (concat (map inode_valid_blocks ns))
            \<and> set (concat (map inode_valid_blocks ns)) \<inter> bmp_used bmp = {})"
  shows "\<exists>e st. read_nods (enumerate k ns) a u (tbl, bmp, s) = Done (Err (AllocBmp e), st)"
  using assms
proof (induction ns arbitrary: k a u tbl bmp)
  case (Cons n ns)
  let ?bs = "inode_valid_blocks n" and ?rest = "concat (map inode_valid_blocks ns)"
  have k: "k < length tbl" "\<not> em_access (tbl ! k)" using Cons.prems(1,3) by simp_all
  show ?case
  proof (cases "distinct ?bs \<and> set ?bs \<inter> bmp_used bmp = {}")
    case False
    then obtain e b' where "alloc_each alloc_bmp ?bs u bmp = Done (Inl e, b')"
      using bmp.alloc_each_conflict [OF Cons.prems(2) inode_valid_blocks_domain, of n u] by blast
    then show ?thesis using k by (simp add: exmap_overwrite throw_def)
  next
    case True
    then obtain b1 where b1: "alloc_each alloc_bmp ?bs u bmp = Done (Inr (u + of_nat (length ?bs)), b1)"
      "bmp_ok b1" "bmp_used b1 = bmp_used bmp \<union> set ?bs"
      using bmp.alloc_each_free [OF Cons.prems(2) inode_valid_blocks_domain, of n u] by auto
    let ?t = "tbl[k := exclusive_map_new (inode_clone n)]"
    have t: "\<forall>c\<in>set ?t. \<not> em_access c"
      using Cons.prems(1) by (auto dest!: set_update_subset_insert [THEN subsetD])
    have "\<not> (distinct ?rest \<and> set ?rest \<inter> bmp_used b1 = {})" "Suc k + length ns \<le> length ?t"
      using Cons.prems(3,4) True b1(3) by auto
    with Cons.IH [OF t b1(2), of "Suc k" "a + 1" "u + of_nat (length ?bs)"]
    show ?thesis using k b1 by (simp add: exmap_overwrite)
  qed
qed simp

text \<open>The active inodes on the drive, in table order, and the blocks they claim.\<close>

definition active_nods_of :: "bytes \<Rightarrow> inode list" where
  "active_nods_of buf = filter (\<lambda>n. \<not> is_available n) (transmute_array inode_from_raw SIZE_OF_INODE INODES buf)"

definition claimed_blocks :: "bytes \<Rightarrow> block_ptr list" where
  "claimed_blocks buf = concat (map inode_valid_blocks (active_nods_of buf))"

lemma length_active_nods: "length (active_nods_of buf) \<le> INODES"
  using length_filter_le [of "\<lambda>n. \<not> is_available n" "transmute_array inode_from_raw SIZE_OF_INODE INODES buf"]
  by (simp add: active_nods_of_def)

lemma read_table_run:
  assumes "tbl_ok tbl" and "bmp_ok bmp"
    and "rd INODE_START (replicate (SIZE_OF_INODE * INODES) 0) s = Done (Ok buf, s')"
  shows "if distinct (claimed_blocks buf) \<and> set (claimed_blocks buf) \<inter> bmp_used bmp = {}
    then \<exists>bmp'. read_table rd (tbl, bmp, s) =
          Done (Ok (of_nat (length (active_nods_of buf)), of_nat (length (claimed_blocks buf))),
                (stored 0 (active_nods_of buf) tbl, bmp', s'))
        \<and> bmp_ok bmp' \<and> bmp_used bmp' = bmp_used bmp \<union> set (claimed_blocks buf)
    else \<exists>e st. read_table rd (tbl, bmp, s) = Done (Err (AllocBmp e), st)"
proof -
  have acc: "\<forall>c\<in>set tbl. \<not> em_access c" and len: "0 + length (active_nods_of buf) \<le> length tbl"
    using assms(1) length_active_nods by (auto simp: tbl_ok_def)
  have run: "read_table rd (tbl, bmp, s) = read_nods (enumerate 0 (active_nods_of buf)) 0 0 (tbl, bmp, s')"
    by (simp add: read_table_def assms(3) active_nods_of_def)
  show ?thesis
    using read_nods_free [OF acc assms(2) len, of 0 0 s'] read_nods_conflict [OF acc assms(2) len, of 0 0 s']
    unfolding run claimed_blocks_def by auto
qed

text \<open>
  C7: loading the table from a drive that returns \<open>buf\<close> never panics. If no two active inodes claim
  the same block and none claims a block already taken, it succeeds, reports how many inodes
  are active and how many blocks they use, stores the active inodes in the first slots in
  their order and marks exactly their blocks; otherwise it fails with the bitmap's error.
\<close>

theorem read_table_correct:
  assumes "tbl_ok tbl" and "bmp_ok bmp"
    and "rd INODE_START (replicate (SIZE_OF_INODE * INODES) 0) s = Done (Ok buf, s')"
  shows "if distinct (claimed_blocks buf) \<and> set (claimed_blocks buf) \<inter> bmp_used bmp = {}
    then \<exists>bmp'. read_table rd (tbl, bmp, s) =
          Done (Ok (of_nat (length (active_nods_of buf)), of_nat (length (claimed_blocks buf))),
                (stored 0 (active_nods_of buf) tbl, bmp', s'))
        \<and> bmp_ok bmp' \<and> bmp_used bmp' = bmp_used bmp \<union> set (claimed_blocks buf)
    else \<exists>e st. read_table rd (tbl, bmp, s) = Done (Err (AllocBmp e), st)"
  using assms by (rule read_table_run)

text \<open>An in-memory drive for concrete runs.\<close>

definition buffer_read :: "(bytes, unit) drive_read" where
  "buffer_read block buf s = Done (Ok s, s)"

lemma no_active_on_zeroed: "active_nods_of (replicate (SIZE_OF_INODE * INODES) 0) = []"
proof -
  have "replicate (SIZE_OF_INODE * INODES) 0 = slice_as_bytes inode_as_bytes (replicate INODES inode_zeroed)"
    by (simp add: slice_as_bytes_def inode_zeroed_bytes concat_replicate_replicate SIZE_OF_INODE_def INODES_def)
  moreover have "transmute_array inode_from_raw SIZE_OF_INODE INODES
      (slice_as_bytes inode_as_bytes (replicate INODES inode_zeroed)) = replicate INODES inode_zeroed"
    using inode_bytes.transmute_slice [of "replicate INODES inode_zeroed"] by simp
  ultimately show ?thesis by (simp add: active_nods_of_def)
qed

theorem read_table_correct_witness:
  "\<exists>bmp'. read_table buffer_read (inode_tbl_static, block_bmp_static, replicate (SIZE_OF_INODE * INODES) 0)
     = Done (Ok (0, 0), (inode_tbl_static, bmp', replicate (SIZE_OF_INODE * INODES) 0))"
proof -
  have "buffer_read INODE_START (replicate (SIZE_OF_INODE * INODES) 0) (replicate (SIZE_OF_INODE * INODES) 0)
      = Done (Ok (replicate (SIZE_OF_INODE * INODES) 0), replicate (SIZE_OF_INODE * INODES) 0)"
    by (simp add: buffer_read_def)
  from read_table_correct [where rd = buffer_read, OF inode_tbl_static_ok block_bmp_static_ok this] show ?thesis
    by (auto simp: no_active_on_zeroed claimed_blocks_def)
qed

text \<open>
  formatting writes the header to block 0 and then a zeroed inode table from block
  \<^verbatim>\<open>INODE_START\<close>, stopping at the first write that fails; when both succeed and the drive reads
  the table back as it was written, loading it finds no active inode and no used block and
  leaves the in-memory table and bitmap as they were.
\<close>

theorem reformat_then_read_table:
  assumes "tbl_ok tbl" and "bmp_ok bmp"
    and "\<And>s2. wr INODE_START (replicate (INODES * SIZE_OF_INODE) 0) s1 = Done (Ok (), s2) \<Longrightarrow>
           rd INODE_START (replicate (SIZE_OF_INODE * INODES) 0) s2
             = Done (Ok (replicate (INODES * SIZE_OF_INODE) 0), s2)"
    and "wr 0 (header_as_bytes h) s0 = Done (r0, s1)"
  shows "(case r0 of
      Inl e \<Rightarrow> reformat_drive h wr s0 = Done (Err e, s1)
    | Inr _ \<Rightarrow> reformat_drive h wr s0 = wr INODE_START (replicate (INODES * SIZE_OF_INODE) 0) s1)
   \<and> (reformat_drive h wr s0 = Done (Ok (), s2) \<longrightarrow>
        read_table rd (tbl, bmp, s2) = Done (Ok (0, 0), (tbl, bmp, s2)))"
proof -
  have a: "case r0 of
      Inl e \<Rightarrow> reformat_drive h wr s0 = Done (Err e, s1)
    | Inr _ \<Rightarrow> reformat_drive h wr s0 = wr INODE_START (replicate (INODES * SIZE_OF_INODE) 0) s1"
    using assms(4) unit_continuation
    by (auto simp: reformat_drive_def try_then_def [of "wr 0 _"] run_simps split: sum.splits)
  have "read_table rd (tbl, bmp, s2) = Done (Ok (0, 0), (tbl, bmp, s2))"
    if "reformat_drive h wr s0 = Done (Ok (), s2)"
  proof -
    have "wr INODE_START (replicate (INODES * SIZE_OF_INODE) 0) s1 = Done (Ok (), s2)"
      using that a by (auto split: sum.splits)
    from assms(3) [OF this] have "rd INODE_START (replicate (SIZE_OF_INODE * INODES) 0) s2
        = Done (Ok (replicate (SIZE_OF_INODE * INODES) 0), s2)"
      by (simp add: mult.commute)
    then show ?thesis
      using no_active_on_zeroed by (simp add: read_table_def active_nods_of_def ok_def)
  qed
  then show ?thesis using a by blast
qed

text \<open>A drive of blocks in memory, for concrete runs.\<close>

definition blocks_write :: "(u64 \<Rightarrow> bytes, unit) drive_write" where
  "blocks_write block buf d = ok () (d(block := buf))"

definition blocks_read :: "(u64 \<Rightarrow> bytes, unit) drive_read" where
  "blocks_read block buf d = ok (d block) d"

theorem reformat_then_read_table_witness:
  "\<exists>d. reformat_drive (filesystem_header_new (replicate HDR_NAME_LEN 0) 1 2026 0 FsFeatures_FLOPPY) blocks_write (\<lambda>_. []) = Done (Ok (), d)
     \<and> read_table blocks_read (inode_tbl_static, block_bmp_static, d)
         = Done (Ok (0, 0), (inode_tbl_static, block_bmp_static, d))"
proof -
  let ?d1 = "(\<lambda>_. [])(0 := header_as_bytes (filesystem_header_new (replicate HDR_NAME_LEN 0) 1 2026 0 FsFeatures_FLOPPY))"
  let ?z = "replicate (INODES * SIZE_OF_INODE) (0 :: u8)"
  let ?d2 = "?d1(INODE_START := ?z)"
  have run: "reformat_drive (filesystem_header_new (replicate HDR_NAME_LEN 0) 1 2026 0 FsFeatures_FLOPPY) blocks_write (\<lambda>_. []) = Done (Ok (), ?d2)"
    by (simp add: reformat_drive_def try_then_def blocks_write_def ok_def)
  moreover have "read_table blocks_read (inode_tbl_static, block_bmp_static, ?d2)
      = Done (Ok (0, 0), (inode_tbl_static, block_bmp_static, ?d2))"
    by (rule reformat_then_read_table [where wr = blocks_write and ?s1.0 = ?d1 and ?r0.0 = "Ok ()"
          and ?s0.0 = "\<lambda>_. []", THEN conjunct2, THEN mp, OF _ _ _ _ run])
      (auto simp: blocks_write_def blocks_read_def ok_def)
  ultimately show ?thesis by blast
qed

text \<open>
  an active inode of the drive is stored in memory under its rank among the active ones, not
  under its own slot number: the filter is applied before the positions are counted. So the
  inode of slot \<open>j\<close> moves to an earlier slot as soon as some slot before it is available.
\<close>

theorem read_table_compacts_slots:
  assumes "tbl_ok tbl" and "bmp_ok bmp"
    and "rd INODE_START (replicate (SIZE_OF_INODE * INODES) 0) s = Done (Ok buf, s')"
    and "read_table rd (tbl, bmp, s) = Done (Ok r, (tbl', bmp', s''))"
    and "nods = transmute_array inode_from_raw SIZE_OF_INODE INODES buf"
    and "j < INODES" and "\<not> is_available (nods ! j)"
  shows "em_cell (tbl' ! length (filter (\<lambda>n. \<not> is_available n) (take j nods))) = inode_clone (nods ! j)
    \<and> ((\<exists>i < j. is_available (nods ! i)) \<longrightarrow>
         length (filter (\<lambda>n. \<not> is_available n) (take j nods)) < j)"
proof -
  let ?P = "\<lambda>n. \<not> is_available n"
  let ?k = "length (filter ?P (take j nods))"
  have len: "length nods = INODES" using assms(5) by simp
  have tbl': "tbl' = stored 0 (active_nods_of buf) tbl"
    using read_table_run [where rd = rd, OF assms(1-3)] assms(4) by (auto split: if_splits)
  have "nods = take j nods @ nods ! j # drop (Suc j) nods"
    using assms(6) len by (simp add: id_take_nth_drop)
  then have act: "active_nods_of buf = filter ?P (take j nods) @ nods ! j # filter ?P (drop (Suc j) nods)"
    using assms(5,7) by (metis active_nods_of_def filter.simps(2) filter_append)
  then have nth: "em_cell (tbl' ! ?k) = inode_clone (nods ! j)"
    by (simp add: tbl' stored_def nth_append)
  have "?k < j" if "i < j" "is_available (nods ! i)" for i
  proof -
    have "nods ! i \<in> set (take j nods)" using that(1) assms(6) len by (auto simp: in_set_conv_nth)
    then have "?k < length (take j nods)" using that(2) by (intro length_filter_less) auto
    then show ?thesis using assms(6) len by simp
  qed
  then show ?thesis using nth by blast
qed

definition sparse_nods :: "inode list" where
  "sparse_nods = inode_zeroed # inode_new DIRECTORY 1 inode_ptr_null # replicate 138 inode_zeroed"

lemma sparse_transmute:
  "transmute_array inode_from_raw SIZE_OF_INODE INODES (slice_as_bytes inode_as_bytes sparse_nods) = sparse_nods"
  using inode_bytes.transmute_slice [of sparse_nods]
  by (simp add: sparse_nods_def INODES_def inode_ptr_null_def)

theorem read_table_compacts_slots_witness:
  "\<exists>r tbl' bmp' s. read_table buffer_read
       (inode_tbl_static, block_bmp_static, slice_as_bytes inode_as_bytes sparse_nods) = Done (Ok r, (tbl', bmp', s))
     \<and> em_cell (tbl' ! 0) = sparse_nods ! 1"
proof -
  let ?b = "slice_as_bytes inode_as_bytes sparse_nods"
  have rd: "buffer_read INODE_START (replicate (SIZE_OF_INODE * INODES) 0) ?b = Done (Ok ?b, ?b)"
    by (simp add: buffer_read_def)
  have act: "\<not> is_available (sparse_nods ! 1)" "take 1 sparse_nods = [inode_zeroed]"
    by (simp_all add: sparse_nods_def is_available_def inode_new_def)
  have "claimed_blocks ?b = []"
    by (simp add: claimed_blocks_def active_nods_of_def sparse_transmute)
      (auto simp: sparse_nods_def inode_valid_blocks_def inode_new_def dual_empty_arr_def block_ptr_new_def
        nonzero_new_def block_ptr_is_valid_def block_ptr_is_null_def MAX_VAL_def is_available_def
        INODE_PTRS_def inode_zeroed_def filter_empty_conv)
  then obtain r tbl' bmp' s where run: "read_table buffer_read (inode_tbl_static, block_bmp_static, ?b)
      = Done (Ok r, (tbl', bmp', s))"
    using read_table_run [where rd = buffer_read, OF inode_tbl_static_ok block_bmp_static_ok rd] by auto
  have "em_cell (tbl' ! 0) = inode_clone (sparse_nods ! 1)"
    using read_table_compacts_slots [where rd = buffer_read and j = 1,
        OF inode_tbl_static_ok block_bmp_static_ok rd run sparse_transmute [symmetric]] act
    by (simp add: INODES_def)
  then show ?thesis using run by (auto simp: sparse_nods_def inode_clone_def inode_new_def)
qed

end
