(* ===== verification/Screen.thy ===== *)
theory Screen
  imports Vga
begin

text \<open>
  The operations of the VGA driver as its callers see them: each keeps the buffers and the cursor in
  range and the cursor off the top bar, writes to no other device's ports, and changes nothing outside the driver but the log of port accesses.
\<close>

definition screen_step :: "'a vga_scheme \<Rightarrow> 'a vga_scheme \<Rightarrow> bool" where
  "screen_step k k' \<longleftrightarrow> vga_ok k' \<and> (below_topbar k \<longrightarrow> below_topbar k') \<and> BUFFER_HELD k' = BUFFER_HELD k
     \<and> ALLOW_ROW_0 k' = ALLOW_ROW_0 k
     \<and> vga.more k' = vga.more k \<and> machine_flags k' = machine_flags k
     \<and> device_writes (io_log k') = device_writes (io_log k)"

lemma screen_step_refl: "vga_ok k \<Longrightarrow> screen_step k k"
  by (simp add: screen_step_def)

lemma screen_step_trans [trans]: "screen_step a b \<Longrightarrow> screen_step b c \<Longrightarrow> screen_step a c"
  by (auto simp: screen_step_def)

lemma screen_step_ok: "screen_step a b \<Longrightarrow> vga_ok b"
  by (simp add: screen_step_def)

lemma clamp_screen:
  assumes "vga_ok k" shows "screen_step k (clamp_row_col k)"
proof -
  have "vga_ok (clamp_row_col k)" by (rule vga_ok_clamp [OF vga_ok_bufs [OF assms]])
  moreover have "below_topbar (clamp_row_col k)" if "below_topbar k"
    using that by (auto simp: below_topbar_def clamp_row_col_def row_col_def Let_def max_def word_less_nat_alt
        word_le_nat_alt dim_defs min_def)
  ultimately show ?thesis
    by (simp add: screen_step_def clamp_row_col_def row_col_def Let_def machine_flags_def)
qed

lemma set_col_screen:
  assumes "vga_ok k" shows "screen_step k (set_col c k)"
proof -
  have "vga_ok (set_col c k)" by (rule vga_ok_set_col [OF vga_ok_bufs [OF assms]])
  moreover have "below_topbar (set_col c k)" if "below_topbar k"
    using that by (auto simp: set_col_def below_topbar_def clamp_row_col_def row_col_def Let_def max_def word_less_nat_alt
        word_le_nat_alt dim_defs min_def)
  ultimately show ?thesis
    by (simp add: screen_step_def set_col_def clamp_row_col_def row_col_def Let_def machine_flags_def)
qed

lemma set_row_screen:
  assumes "vga_ok k" shows "screen_step k (set_row r k)"
proof -
  have "vga_ok (set_row r k)" by (rule vga_ok_set_row [OF vga_ok_bufs [OF assms]])
  moreover have "below_topbar (set_row r k)" if "below_topbar k"
    using that by (intro set_row_below) (simp add: below_topbar_def)
  ultimately show ?thesis
    by (simp add: screen_step_def set_row_def clamp_row_col_def row_col_def Let_def machine_flags_def)
qed

lemma update_visual_screen:
  assumes "vga_ok k" shows "screen_step k (update_visual_pos k)"
proof -
  note c = clamp_screen [OF assms]
  let ?c = "clamp_row_col k"
  have "screen_step ?c (?c\<lparr>io_log := l\<rparr>)" if "device_writes l = device_writes (io_log ?c)" for l
    using that screen_step_ok [OF c] by (simp add: screen_step_def vga_ok_def below_topbar_def machine_flags_def)
  then have "screen_step ?c (update_visual_pos k)" by (simp add: update_visual_pos_def writeb_eq Let_def split_beta)
  with c show ?thesis by (rule screen_step_trans)
qed

lemma shift_screen: "vga_ok k \<Longrightarrow> screen_step k (shift_cursor d k)"
  by (cases d) (simp_all add: Let_def split_beta set_col_screen set_row_screen)

lemma set_BUFFER_screen:
  "vga_ok k \<Longrightarrow> buf_ok b \<Longrightarrow> screen_step k (set_BUFFER b k)"
  by (simp add: screen_step_def vga_ok_set_BUFFER) (simp add: set_BUFFER_def below_topbar_def machine_flags_def)

lemma clear_from_home:
  assumes "vga_ok k" shows "screen_step (set_row 1 (set_col 0 k)) (clear k)"
proof -
  let ?h = "set_row 1 (set_col 0 k)"
  have "vga_ok ?h" by (intro screen_step_ok [OF set_row_screen] screen_step_ok [OF set_col_screen] assms)
  then have s: "screen_step ?h (update_visual_pos ?h)" by (rule update_visual_screen)
  let ?k = "update_visual_pos (set_row 1 (set_col 0 k))"
  have "screen_step ?k (clear k)"
    using screen_step_ok [OF s] set_BUFFER_screen [of ?k empty_buffer]
    by (cases "BUFFER_HELD ?k")
      (simp_all add: clear_def Let_def try_yoink_def drop_yoinked_def screen_step_refl,
       simp add: screen_step_def set_BUFFER_def below_topbar_def machine_flags_def vga_ok_def)
  with s show ?thesis by (rule screen_step_trans)
qed

lemma clear_screen:
  assumes "vga_ok k" shows "screen_step k (clear k)"
proof -
  have "screen_step k (set_col 0 k)" by (rule set_col_screen [OF assms])
  also note set_row_screen [OF screen_step_ok [OF this], of 1]
  also note clear_from_home [OF assms]
  finally show ?thesis .
qed

text \<open>Clearing moves the cursor off the top bar, wherever it was.\<close>

lemma clear_below:
  assumes "vga_ok k" and "\<not> ALLOW_ROW_0 k" shows "below_topbar (clear k)"
proof -
  have "ALLOW_ROW_0 (set_col 0 k) = ALLOW_ROW_0 k" using set_col_screen [OF assms(1)] by (simp add: screen_step_def)
  then have "below_topbar (set_row 1 (set_col 0 k))" using assms(2) by (intro set_row_below) simp
  then show ?thesis using clear_from_home [OF assms(1)] by (simp add: screen_step_def)
qed

lemma swap_screen:
  assumes "vga_ok k" shows "screen_step k (swap k)"
proof (cases "BUFFER_HELD k")
  case True
  then show ?thesis using assms by (simp add: swap_def try_yoink_def screen_step_refl)
next
  case False
  then show ?thesis using assms
    by (auto simp: swap_def Let_def try_yoink_def drop_yoinked_def screen_step_def vga_ok_def set_BUFFER_def BUFFER_def below_topbar_def
        machine_flags_def)
qed

lemma print_args_screen: "vga_ok k \<Longrightarrow> \<exists>k'. print_args s fg bg k = Done k' \<and> screen_step k k'"
  using print_args_step [of k s fg bg] by (auto simp: print_step_def screen_step_def)

lemma print_screen: "vga_ok k \<Longrightarrow> \<exists>k'. print s k = Done k' \<and> screen_step k k'"
  by (simp add: print_def print_args_screen)

lemma println_screen: "vga_ok k \<Longrightarrow> \<exists>k'. println fg s k = Done k' \<and> screen_step k k'"
  by (simp add: println_def print_args_screen)

lemma draw_topbar_screen:
  assumes "vga_ok k" and "\<not> ALLOW_ROW_0 k"
  shows "\<exists>k'. draw_topbar E k = Done k' \<and> screen_step k k'"
proof -
  let ?a = "k\<lparr>ALLOW_ROW_0 := True\<rparr>"
  have "vga_ok ?a" using assms(1) by (simp add: vga_ok_def)
  then have 1: "screen_step ?a (set_row 0 ?a)" by (rule set_row_screen)
  also note set_col_screen [OF screen_step_ok [OF 1], of 0]
  finally have 2: "screen_step ?a (set_col 0 (set_row 0 ?a))" .
  obtain k1 where k1: "print_args (topbar_text E) Black LightGrey (set_col 0 (set_row 0 ?a)) = Done k1"
    "screen_step (set_col 0 (set_row 0 ?a)) k1"
    using print_args_screen [OF screen_step_ok [OF 2]] by blast
  let ?b = "k1\<lparr>ALLOW_ROW_0 := False\<rparr>"
  have b: "vga_ok ?b" using screen_step_ok [OF k1(2)] by (simp add: vga_ok_def)
  let ?r = "set_row (CURSOR_row k) ?b"
  have r: "screen_step ?b ?r" by (rule set_row_screen [OF b])
  have c: "screen_step ?r (set_col (CURSOR_column k) ?r)" by (rule set_col_screen [OF screen_step_ok [OF r]])
  have "below_topbar ?r" by (intro set_row_below) simp
  then have "below_topbar (set_col (CURSOR_column k) ?r)" using c by (simp add: screen_step_def)
  moreover have "draw_topbar E k = Done (set_col (CURSOR_column k) ?r)"
    using k1(1) by (simp add: draw_topbar_def row_col_def)
  ultimately show ?thesis
    using 2 k1(2) r c assms(2) by (simp add: screen_step_def machine_flags_def)
qed

lemma write_char_screen:
  assumes "vga_ok k" shows "\<exists>k'. write_char b fg bg k = Done k' \<and> screen_step k k'"
  using write_char_step [OF assms, of b fg bg] by (auto simp: print_step_def screen_step_def)

text \<open>A backspace is safe when the cursor is not in the first row.\<close>

lemma buffer_store_screen:
  assumes "vga_ok k" and "r < 25" and "c < 80"
  shows "\<exists>k'. buffer_store r c v k = Done k' \<and> screen_step k k'"
proof -
  have B: "buf_ok (BUFFER k)" using assms(1) by (rule buf_ok_BUFFER)
  have "buf_ok ((BUFFER k)[r := (BUFFER k ! r)[c := v]])"
    using B assms(2) by (intro buf_ok_update) (simp_all add: buf_ok_row)
  then show ?thesis
    using set_BUFFER_screen [OF assms(1)] B assms(2,3) buf_ok_row [OF B assms(2)] by (simp add: buffer_store_def buf_ok_def Let_def)
qed

lemma delete_prev_char_screen:
  assumes "vga_ok k" and "0 < CURSOR_row k"
  shows "\<exists>k'. delete_prev_char k = Done k' \<and> screen_step k k'"
proof (cases "BUFFER_HELD k")
  case True
  then show ?thesis using assms by (simp add: delete_prev_char_def try_yoink_def screen_step_refl)
next
  case False
  let ?h = "k\<lparr>BUFFER_HELD := True\<rparr>"
  have h: "vga_ok ?h" using assms(1) by simp
  have free: "screen_step k (k'\<lparr>BUFFER_HELD := False\<rparr>)" if "screen_step ?h k'" for k'
    using that False by (simp add: screen_step_def below_topbar_def machine_flags_def)
  have rc: "unat (CURSOR_row k) < 25" "unat (CURSOR_column k) < 80" "0 < unat (CURSOR_row k)"
    using assms by (simp_all add: vga_ok_def word_less_nat_alt)
  then have less: "unat (CURSOR_row k) - 1 < 25" "unat (CURSOR_column k) - 1 < 80" by linarith+
  have dec: "unat (ucast x - 1 :: u64) = unat x - 1" if "x \<noteq> 0" for x :: u8
  proof -
    have u: "unat (ucast x :: u64) = unat x"
      using unsigned_less [of x, where 'a = nat] by (simp add: unsigned_ucast_eq take_bit_nat_eq_self)
    then have "(ucast x :: u64) \<noteq> 0" using that by (metis unat_eq_zero)
    then show ?thesis by (simp add: unat_minus_one u)
  qed
  show ?thesis
  proof (cases "CURSOR_column k = 0")
    case True
    obtain k1 where k1: "buffer_store (unat (CURSOR_row k) - 1) 79 SPACE ?h = Done k1" "screen_step ?h k1"
      using buffer_store_screen [OF h less(1), of 79 SPACE] by auto
    let ?d = "k1\<lparr>BUFFER_HELD := False\<rparr>"
    have d: "screen_step k ?d" using free k1(2) by blast
    note s1 = shift_screen [OF screen_step_ok [OF d], of ShiftLeft]
    note s2 = shift_screen [OF screen_step_ok [OF s1], of ShiftUp]
    have "screen_step k (shift_cursor ShiftUp (shift_cursor ShiftLeft ?d))"
      using screen_step_trans [OF d screen_step_trans [OF s1 s2]] .
    then show ?thesis using k1(1) False True rc dec [of "CURSOR_row k"]
      by (simp add: delete_prev_char_def try_yoink_def row_col_def drop_yoinked_def dim_defs unat_gt_0)
  next
    case c: False
    obtain k1 where k1: "buffer_store (unat (CURSOR_row k)) (unat (CURSOR_column k) - 1) SPACE ?h = Done k1" "screen_step ?h k1"
      using buffer_store_screen [OF h rc(1) less(2), of SPACE] by auto
    let ?d = "k1\<lparr>BUFFER_HELD := False\<rparr>"
    have d: "screen_step k ?d" using free k1(2) by blast
    note s = screen_step_trans [OF d shift_screen [OF screen_step_ok [OF d], of ShiftLeft]]
    then show ?thesis using k1(1) False c dec [of "CURSOR_column k"]
      by (simp add: delete_prev_char_def try_yoink_def row_col_def drop_yoinked_def)
  qed
qed

lemma vga_init_screen:
  assumes "vga_ok k"
  shows "\<exists>k'. vga_init k = Done (ExInfallible, k') \<and> screen_step k k' \<and> (\<not> ALLOW_ROW_0 k \<longrightarrow> below_topbar k')"
proof -
  let ?k = "k\<lparr>buffer_connected := True\<rparr>"
  have k: "screen_step k ?k" using assms by (simp add: screen_step_def vga_ok_def below_topbar_def machine_flags_def)
  note c = screen_step_trans [OF k clear_screen [OF screen_step_ok [OF k]]]
  obtain k1 where k1: "print (nl_str @ ''Hello, '') (clear ?k) = Done k1" "screen_step (clear ?k) k1"
    using print_screen [OF screen_step_ok [OF c]] by blast
  obtain k2 where k2: "println LightCyan (''Sunflower!'' @ nl_str) k1 = Done k2" "screen_step k1 k2"
    using println_screen [OF screen_step_ok [OF k1(2)]] by blast
  have "below_topbar (clear ?k)" if "\<not> ALLOW_ROW_0 k" using that screen_step_ok [OF k] by (intro clear_below) simp_all
  then have "below_topbar k2" if "\<not> ALLOW_ROW_0 k" using that k1(2) k2(2) by (simp add: screen_step_def)
  then show ?thesis using k1 k2 screen_step_trans [OF c screen_step_trans [OF k1(2) k2(2)]]
    by (simp add: vga_init_def)
qed

section \<open>Sequences of steps that return\<close>

text \<open>An operation that returns from every state with a property, in a state with that property.\<close>

definition returns :: "('s \<Rightarrow> bool) \<Rightarrow> ('s \<Rightarrow> 's run) \<Rightarrow> bool" where
  "returns P f \<longleftrightarrow> (\<forall>k. P k \<longrightarrow> (\<exists>k'. f k = Done k' \<and> P k'))"

lemma returnsI: "(\<And>k. P k \<Longrightarrow> \<exists>k'. f k = Done k' \<and> P k') \<Longrightarrow> returns P f"
  by (simp add: returns_def)

lemma returnsE:
  assumes "returns P f" and "P k"
  obtains k' where "f k = Done k'" "P k'"
  using assms by (auto simp: returns_def)

lemma returns_Done [intro]: "(\<And>k. P k \<Longrightarrow> P (f k)) \<Longrightarrow> returns P (\<lambda>k. Done (f k))"
  by (simp add: returns_def)

lemma returns_andThen [intro]:
  assumes "returns P f" and "returns P g"
  shows "returns P (\<lambda>k. andThen (f k) g)"
  using assms by (fastforce simp: returns_def)

lemma returns_if [intro]: "returns P f \<Longrightarrow> returns P g \<Longrightarrow> returns P (\<lambda>k. if b k then f k else g k)"
  by (simp add: returns_def)

text \<open>A property that only looks at what screen operations keep.\<close>

definition screen_stable :: "('a vga_scheme \<Rightarrow> bool) \<Rightarrow> bool" where
  "screen_stable P \<longleftrightarrow> (\<forall>k. P k \<longrightarrow> vga_ok k) \<and> (\<forall>k k'. P k \<longrightarrow> screen_step k k' \<longrightarrow> P k')"

lemma returns_screen:
  assumes "screen_stable P" and "\<And>k. vga_ok k \<Longrightarrow> \<exists>k'. f k = Done k' \<and> screen_step k k'"
  shows "returns P f"
  using assms unfolding screen_stable_def returns_def by blast

lemmas returns_print = returns_screen [OF _ print_screen]
lemmas returns_println = returns_screen [OF _ println_screen]
lemmas returns_print_args = returns_screen [OF _ print_args_screen]
lemmas returns_write_char = returns_screen [OF _ write_char_screen]

end
