(* ===== verification/Floppyfs.thy ===== *)
theory Floppyfs
  imports Floppy Fs_Init Screen
begin

text \<open>
  kernel/src/floppy/floppyfs.rs: transfers over several cylinders and mounting the filesystem,
  with the yes/no prompt of kernel/src/interrupts.rs and kernel/src/interrupts/keyboard.rs it uses.
\<close>

section \<open>The prompt\<close>

definition Y_SCANCODE :: u8 where "Y_SCANCODE = 0x35"
definition N_SCANCODE :: u8 where "N_SCANCODE = 0x31"
definition ENTER_SCANCODE :: u8 where "ENTER_SCANCODE = 0x5A"

fun wait_for_response :: "env \<Rightarrow> nat \<Rightarrow> bool \<Rightarrow> 'a kbd_scheme \<Rightarrow> (bool \<times> 'a kbd_scheme) run" where
  "wait_for_response E 0 enter_eq_true k = Hang"
| "wait_for_response E (Suc n) enter_eq_true k =
     (let k = poll E Spin k
      in if PREV_RESPONSE k = Y_SCANCODE then Done (True, k)
         else if PREV_RESPONSE k = N_SCANCODE then Done (False, k)
         else if PREV_RESPONSE k = ENTER_SCANCODE then Done (enter_eq_true, k)
         else wait_for_response E n enter_eq_true k)"

definition kbd_wait_for_response :: "env \<Rightarrow> string \<Rightarrow> bool \<Rightarrow> 'a kbd_scheme \<Rightarrow> (bool \<times> 'a kbd_scheme) run" where
  "kbd_wait_for_response E prompt enter_eq_y k =
     andThen (print (prompt @ (if enter_eq_y then ''? [Y/n] '' else ''? [y/N] '')) k)
       (\<lambda>k. andThen (wait_for_response E (fuel E) enter_eq_y (update_visual_pos k))
       (\<lambda>(result, k). andThen (println White (if result then ''y'' else ''n'') k) (\<lambda>k. Done (result, k))))"

section \<open>Transfers over cylinder boundaries\<close>

text \<open>\<open>dw\<close> and \<open>dr\<close> are \<^verbatim>\<open>disk::write\<close> and \<^verbatim>\<open>disk::read\<close>.\<close>

fun write_chunks :: "('s, 'e) drive_write \<Rightarrow> u64 \<Rightarrow> nat \<Rightarrow> bytes list \<Rightarrow> ('s, 'e, unit) fallible" where
  "write_chunks dw block idx [] s = ok () s"
| "write_chunks dw block idx (buf # bufs) s =
     try_then (dw (block + of_nat (idx * CYL_BOUNDARY)) buf) (\<lambda>_. write_chunks dw block (idx + 1) bufs) s"

definition cyl_write :: "('s, 'e) drive_write \<Rightarrow> ('s, 'e) drive_write" where
  "cyl_write dw block buf =
     (let fst_cyl_distance = ucast SECTORS - block;
          fst_cyl_boundary = min (unat (fst_cyl_distance * of_nat SECTOR_SIZE)) (length buf)
      in try_then (dw block (take fst_cyl_boundary buf)) (\<lambda>_.
           write_chunks dw (block + fst_cyl_distance) 0 (chunks CYL_BOUNDARY (drop fst_cyl_boundary buf))))"

fun read_chunks :: "('s, 'e) drive_read \<Rightarrow> u64 \<Rightarrow> nat \<Rightarrow> bytes list \<Rightarrow> bytes \<Rightarrow> ('s, 'e, bytes) fallible" where
  "read_chunks dr block idx [] acc s = ok acc s"
| "read_chunks dr block idx (buf # bufs) acc s =
     try_then (dr (block + (of_nat idx * ucast SECTORS)) buf)
       (\<lambda>data. read_chunks dr block (idx + 1) bufs (acc @ data)) s"

definition cyl_read :: "('s, 'e) drive_read \<Rightarrow> ('s, 'e) drive_read" where
  "cyl_read dr block buf =
     (let fst_cyl_distance = ucast SECTORS - block;
          fst_cyl_boundary = min (unat (fst_cyl_distance * of_nat SECTOR_SIZE)) (length buf)
      in try_then (dr block (take fst_cyl_boundary buf)) (\<lambda>data.
           read_chunks dr (block + fst_cyl_distance) 0 (chunks CYL_BOUNDARY (drop fst_cyl_boundary buf)) data))"

definition floppyfs_write :: "env \<Rightarrow> ('a kbd_scheme, floppy_error) drive_write" where
  "floppyfs_write E = cyl_write (disk_write E)"

definition floppyfs_read :: "env \<Rightarrow> ('a kbd_scheme, floppy_error) drive_read" where
  "floppyfs_read E = cyl_read (disk_read E)"

section \<open>Mounting\<close>

record fsk = kbd +
  FLOPPYFS_INIT :: bool
  INODE_TBL :: inode_table
  BLOCK_BMP :: block_bitmap

datatype fs_init_error =
    NoFloppyDriver | FsFloppyError floppy_error | CorruptDrive | TableError "floppy_error read_tbl_error"

definition fs_init_error_display :: "fs_init_error \<Rightarrow> string" where
  "fs_init_error_display e =
     (case e of
        NoFloppyDriver \<Rightarrow> ''The floppy driver failed!''
      | FsFloppyError e \<Rightarrow> ''floppy driver error: '' @ floppy_error_display e
      | CorruptDrive \<Rightarrow> ''The floppy drive was corrupt!''
      | TableError e \<Rightarrow> ''read table error: '' @ read_tbl_error_display floppy_error_display e)"

definition GOOD_FS_HEADER :: "env \<Rightarrow> filesystem_header" where
  "GOOD_FS_HEADER E = filesystem_header_new
     [102, 108, 111, 112, 112, 121, 32, 100, 114, 105, 118, 101, 0, 0, 0, 0]
     (floppyfs_day E) (floppyfs_year E) 0 FsFeatures_FLOPPY"

definition load_table :: "env \<Rightarrow> 'a fsk_scheme \<Rightarrow> (fs_init_error exit_code \<times> 'a fsk_scheme) run" where
  "load_table E k =
     andThen (read_table (floppyfs_read E) (INODE_TBL k, BLOCK_BMP k, k))
       (\<lambda>(r, (tbl, bmp, k)).
          let k = k\<lparr>INODE_TBL := tbl, BLOCK_BMP := bmp\<rparr>
          in case r of
               Inl e \<Rightarrow> Done (ExError (TableError e), k)
             | Inr _ \<Rightarrow> Done (ExOk, k\<lparr>FLOPPYFS_INIT := True\<rparr>))"

definition init_floppyfs :: "env \<Rightarrow> 'a fsk_scheme \<Rightarrow> (fs_init_error exit_code \<times> 'a fsk_scheme) run" where
  "init_floppyfs E k =
     (if \<not> FLOPPY_INIT k then Done (ExError NoFloppyDriver, k)
      else andThen (disk_read E 0 (replicate SIZE_OF_HEADER 0) k)
        (\<lambda>(r, k). case r of
           Inl e \<Rightarrow> Done (ExError (FsFloppyError e), k)
         | Inr buf \<Rightarrow>
             let fsheader = header_from_raw buf
             in if hdr_magic fsheader \<noteq> MAGIC
                then andThen (kbd_wait_for_response E ''Format floppy drive'' True k)
                  (\<lambda>(yes, k).
                     if \<not> yes then Done (ExError CorruptDrive, k)
                     else andThen (reformat_drive (GOOD_FS_HEADER E) (floppyfs_write E) k)
                       (\<lambda>(r, k). case r of
                          Inl e \<Rightarrow> Done (ExError (FsFloppyError e), k)
                        | Inr _ \<Rightarrow> load_table E k))
                else load_table E k))"

section \<open>Splitting a transfer\<close>

text \<open>The length of the first piece, for a block on the first track.\<close>

lemma first_piece:
  assumes "block \<le> 18"
  shows "ucast SECTORS - block = of_nat (18 - unat block)"
    and "unat ((ucast SECTORS - block) * of_nat SECTOR_SIZE :: u64) = (18 - unat block) * 512"
    and "block + (ucast SECTORS - block) = 18"
proof -
  have b: "unat block \<le> 18" using assms by (simp add: word_le_nat_alt)
  have s: "(ucast SECTORS :: u64) = of_nat 18" by (simp add: SECTORS_def)
  have "of_nat 18 - block = of_nat 18 - of_nat (unat block)" by simp
  also have "\<dots> = (of_nat (18 - unat block) :: u64)" using b by (simp only: of_nat_diff)
  finally show d: "ucast SECTORS - block = of_nat (18 - unat block)" unfolding s .
  show "unat ((ucast SECTORS - block) * of_nat SECTOR_SIZE :: u64) = (18 - unat block) * 512"
  proof -
    have "unat (of_nat ((18 - unat block) * 512) :: u64) = (18 - unat block) * 512"
      by (simp only: unat_of_nat) simp
    then show ?thesis unfolding d by (simp add: SECTOR_SIZE_def)
  qed
  show "block + (ucast SECTORS - block) = 18" by (simp add: SECTORS_def)
qed

lemma cyl_read_split:
  assumes "block \<le> 18"
  shows "cyl_read dr block buf =
    (let m = min ((18 - unat block) * 512) (length buf)
     in try_then (dr block (take m buf)) (read_chunks dr 18 0 (chunks CYL_BOUNDARY (drop m buf))))"
  unfolding cyl_read_def Let_def first_piece(2,3) [OF assms] ..

lemma cyl_write_split:
  assumes "block \<le> 18"
  shows "cyl_write dw block buf =
    (let m = min ((18 - unat block) * 512) (length buf)
     in try_then (dw block (take m buf)) (\<lambda>_. write_chunks dw 18 0 (chunks CYL_BOUNDARY (drop m buf))))"
  unfolding cyl_write_def Let_def first_piece(2,3) [OF assms] ..

text \<open>A drive that reads what its sectors hold, one track at most per request, and promises nothing of requests that go beyond a track.\<close>

definition reads_sectors :: "(nat \<Rightarrow> bytes) \<Rightarrow> ('s, 'e) drive_read \<Rightarrow> bool" where
  "reads_sectors sec dr \<longleftrightarrow> (\<forall>b. length (sec b) = 512)
     \<and> (\<forall>block buf s. length buf mod 512 = 0 \<longrightarrow> buf \<noteq> [] \<longrightarrow> unat block mod 18 + length buf div 512 \<le> 18 \<longrightarrow>
          dr block buf s = Done (Ok (concat (map sec [unat block..<unat block + length buf div 512])), s))"

lemma chunks_step: "xs \<noteq> [] \<Longrightarrow> 0 < n \<Longrightarrow> chunks n xs = take n xs # chunks n (drop n xs)"
  by (subst chunks.simps) simp

lemma read_chunks_sectors:
  assumes "reads_sectors sec dr" and "length buf = 512 * n"
    and "18 + 18 * idx + n < 2 ^ 64"
  shows "read_chunks dr 18 idx (chunks CYL_BOUNDARY buf) acc s
    = Done (Ok (acc @ concat (map sec [18 + 18 * idx..<18 + 18 * idx + n])), s)"
  using assms(2,3)
proof (induction n arbitrary: buf idx acc s rule: less_induct)
  case (less n)
  have CB: "CYL_BOUNDARY = 9216" by (simp add: CYL_BOUNDARY_def SECTORS_def SECTOR_SIZE_def)
  show ?case
  proof (cases "n = 0")
    case True
    then show ?thesis using less.prems(1) by (simp add: ok_def)
  next
    case False
    let ?m = "min n 18" and ?b = "18 + 18 * idx"
    have ne: "buf \<noteq> []" using False less.prems(1) by auto
    have t: "length (take 9216 buf) = 512 * ?m" and d: "length (drop 9216 buf) = 512 * (n - 18)"
      using less.prems(1) by (simp_all add: min_def)
    have blk: "unat (18 + of_nat idx * ucast SECTORS :: u64) = ?b"
    proof -
      have "unat (of_nat ?b :: u64) = ?b" using less.prems(2) by (simp only: unat_of_nat) simp
      then show ?thesis by (simp add: SECTORS_def mult.commute)
    qed
    have one: "dr (18 + of_nat idx * ucast SECTORS) (take 9216 buf) s = Done (Ok (concat (map sec [?b..<?b + ?m])), s)" for s
    proof -
      have "take 9216 buf \<noteq> []" "?b mod 18 = 0" using ne by (simp_all add: mod_add_left_eq [symmetric])
      then show ?thesis using assms(1) t blk by (simp add: reads_sectors_def)
    qed
    have rest: "read_chunks dr 18 (idx + 1) (chunks CYL_BOUNDARY (drop 9216 buf)) acc' s
        = Done (Ok (acc' @ concat (map sec [?b + ?m..<?b + n])), s)" for acc' s
    proof (cases "n \<le> 18")
      case True
      then show ?thesis using less.prems(1) by (simp add: ok_def)
    next
      case F: False
      have "18 + 18 * (idx + 1) + (n - 18) < 2 ^ 64" using less.prems(2) F by simp
      from less.IH [OF _ d this, of acc'] F show ?thesis by (simp add: min_def add.assoc)
    qed
    have "[?b..<?b + n] = [?b..<?b + ?m] @ [?b + ?m..<?b + n]"
      using upt_add_eq_append [of ?b "?b + ?m" "n - ?m"] by (simp add: add.assoc)
    then show ?thesis
      using chunks_step [OF ne, of 9216] one rest by (simp add: CB try_then_def)
  qed
qed

text \<open>
  C15: reading any number of sectors from a block of the first track (the header and the inode table start there) returns those sectors in order, although
  the drive only serves requests that stay within one track: the transfer is split at every track boundary, and its
  pieces are consecutive.
\<close>

theorem cyl_read_contiguous:
  assumes "reads_sectors sec dr" and "block < 18" and "length buf = 512 * n" and "0 < n" and "n < 2 ^ 63"
  shows "cyl_read dr block buf s = Done (Ok (concat (map sec [unat block..<unat block + n])), s)"
proof -
  have b18: "unat block < 18" using assms(2) by (simp add: word_less_nat_alt)
  then have "block \<le> 18" by (simp add: word_le_nat_alt)
  note fp = cyl_read_split [OF this]
  let ?m = "min n (18 - unat block)"
  have bound: "min ((18 - unat block) * 512) (length buf) = 512 * ?m" using assms(3) by (simp add: min_def)
  have one: "dr block (take (512 * ?m) buf) s = Done (Ok (concat (map sec [unat block..<unat block + ?m])), s)"
  proof -
    have l: "length (take (512 * ?m) buf) = 512 * ?m" using assms(3) by simp
    moreover have "take (512 * ?m) buf \<noteq> []" using l assms(4) b18 by (metis length_0_conv mult_is_0 min_def not_less_eq zero_less_diff less_not_refl2 numeral_neq_zero)
    ultimately show ?thesis using assms(1) b18 by (simp add: reads_sectors_def)
  qed
  have d: "length (drop (512 * ?m) buf) = 512 * (n - ?m)" using assms(3) by (simp add: min_def)
  have two: "read_chunks dr 18 0 (chunks CYL_BOUNDARY (drop (512 * ?m) buf)) acc s
      = Done (Ok (acc @ concat (map sec [unat block + ?m..<unat block + n])), s)" for acc
    using read_chunks_sectors [OF assms(1) d, of 0 acc s] assms(5) b18 by (cases "n \<le> 18 - unat block") (simp_all add: min_def add.commute)
  have "[unat block..<unat block + n] = [unat block..<unat block + ?m] @ [unat block + ?m..<unat block + n]"
    using upt_add_eq_append [of "unat block" "unat block + ?m" "n - ?m"] by simp
  then show ?thesis using one two by (simp add: fp bound try_then_def Let_def)
qed

text \<open>A drive of sectors in memory.\<close>

definition mem_read :: "(nat \<Rightarrow> bytes, unit) drive_read" where
  "mem_read block buf d = Done (Ok (concat (map d [unat block..<unat block + length buf div 512])), d)"

definition mem_write :: "(nat \<Rightarrow> bytes, unit) drive_write" where
  "mem_write block buf d = Done (Ok (), \<lambda>i.
     if unat block \<le> i \<and> i < unat block + length buf div 512 then take 512 (drop (512 * (i - unat block)) buf) else d i)"

text \<open>A drive that fails when a request goes beyond a track.\<close>

definition rd_track :: "(nat \<Rightarrow> bytes) \<Rightarrow> (unit, unit) drive_read" where
  "rd_track sec block buf s =
     (if unat block mod 18 + length buf div 512 \<le> 18
      then Done (Ok (concat (map sec [unat block..<unat block + length buf div 512])), s)
      else Done (Err (), s))"

theorem cyl_read_contiguous_witness:
  "rd_track (\<lambda>i. replicate 512 (of_nat i)) 1 (replicate (512 * 55) 0) () = Done (Err (), ())
   \<and> cyl_read (rd_track (\<lambda>i. replicate 512 (of_nat i))) 1 (replicate (512 * 55) 0) ()
     = Done (Ok (concat (map (\<lambda>i. replicate 512 (of_nat i)) [1..<56])), ())"
proof -
  have "reads_sectors (\<lambda>i. replicate 512 (of_nat i)) (rd_track (\<lambda>i. replicate 512 (of_nat i)))"
    by (simp add: reads_sectors_def rd_track_def)
  from cyl_read_contiguous [OF this, of 1 "replicate (512 * 55) 0" 55 "()"] show ?thesis by (simp add: rd_track_def)
qed

subsection \<open>Writing\<close>

lemma mem_write_twice:
  assumes "length a = 512 * m" and "unat b2 = unat b1 + m" and "length c = 512 * n"
  shows "andThen (mem_write b1 a d) (\<lambda>(r, d). mem_write b2 c d) = mem_write b1 (a @ c) d"
proof -
  have 1: "take 512 (drop (512 * (i - unat b1)) (a @ c)) = take 512 (drop (512 * (i - unat b1)) a)"
    if "unat b1 \<le> i" "i < unat b1 + m" for i
  proof -
    have "i - unat b1 < m" using that by simp
    then have "512 * (i - unat b1) + 512 \<le> length a" using assms(1) by linarith
    then show ?thesis by simp
  qed
  have 2: "drop (512 * (i - unat b1)) (a @ c) = drop (512 * (i - unat b2)) c" if "unat b1 + m \<le> i" for i
  proof -
    have "i - unat b1 = (i - unat b2) + m" using that assms(2) by simp
    then show ?thesis using assms(1) by simp
  qed
  show ?thesis
    using assms 1 2 by (auto simp: mem_write_def fun_eq_iff)
qed

text \<open>
  a write that ends within the first two tracks, as formatting the inode table does, is split in at most two pieces and has the effect of
  a single write of all its sectors.
\<close>

theorem cyl_write_first_two_tracks:
  assumes "block \<le> 18" and "length buf = 512 * n" and "unat block + n \<le> 36"
  shows "cyl_write mem_write block buf d = mem_write block buf d"
proof -
  note fp = cyl_write_split [OF assms(1)]
  have b18: "unat block \<le> 18" using assms(1) by (simp add: word_le_nat_alt)
  have CB: "CYL_BOUNDARY = 9216" by (simp add: CYL_BOUNDARY_def SECTORS_def SECTOR_SIZE_def)
  let ?m = "min n (18 - unat block)"
  have bound: "min ((18 - unat block) * 512) (length buf) = 512 * ?m" using assms(2) by (simp add: min_def)
  let ?a = "take (512 * ?m) buf" and ?c = "drop (512 * ?m) buf"
  have c: "length ?c = 512 * (n - ?m)" "length ?a = 512 * ?m" using assms(2) by (simp_all add: min_def)
  show ?thesis
  proof (cases "?c = []")
    case True
    then have "?a = buf" by simp
    then show ?thesis
      using True by (simp add: fp bound try_then_def mem_write_def ok_def Let_def)
  next
    case False
    then have m: "?m = 18 - unat block" using c(1) by (auto simp: min_def)
    have "length ?c \<le> 9216" using c(1) m assms(3) by simp
    then have ch: "chunks CYL_BOUNDARY ?c = [?c]" using False by (simp add: CB chunks_short)
    have "cyl_write mem_write block buf d = andThen (mem_write block ?a d) (\<lambda>(r, d). mem_write 18 ?c d)"
      by (simp add: fp bound try_then_def ch mem_write_def ok_def Let_def)
    also have "\<dots> = mem_write block (?a @ ?c) d"
      using c m b18 by (intro mem_write_twice [where m = ?m and n = "n - ?m"]) simp_all
    finally show ?thesis by simp
  qed
qed

theorem cyl_write_first_two_tracks_witness:
  "cyl_write mem_write 1 (replicate (512 * 35) 0) (\<lambda>_. []) = mem_write 1 (replicate (512 * 35) 0) (\<lambda>_. [])"
  by (rule cyl_write_first_two_tracks [where n = 35]) simp_all

text \<open>
  a longer write goes wrong: the position of the third piece is advanced by the byte length of a track instead of its 18 sectors, so the piece that belongs
  to sector 36 is written to sector number 9234, which the driver maps to the address of sector 18, over the second piece.
\<close>

theorem cyl_write_third_piece_misplaced:
  assumes "length buf = 512 * n" and "36 < n" and "n \<le> 54"
  shows "cyl_write recording_write 0 buf [] = Done (Ok (),
      [(0, take 9216 buf), (18, take 9216 (drop 9216 buf)), (9234, drop 18432 buf)])
    \<and> lba_to_chs (ucast (9234 :: u64)) = lba_to_chs 18"
proof -
  have CB: "CYL_BOUNDARY = 9216" by (simp add: CYL_BOUNDARY_def SECTORS_def SECTOR_SIZE_def)
  note fp = cyl_write_split [of 0, simplified]
  have l: "9216 \<le> length buf" "drop 9216 buf \<noteq> []" "drop 18432 buf \<noteq> []" "length (drop 18432 buf) \<le> 9216"
    using assms by auto
  have "chunks 9216 (drop 9216 buf) = [take 9216 (drop 9216 buf), drop 18432 buf]"
    using chunks_step [OF l(2), of 9216] chunks_short [of 9216 "drop 18432 buf"] l by simp
  moreover have "min 9216 (length buf) = 9216" using l(1) by simp
  ultimately have "cyl_write recording_write 0 buf [] = Done (Ok (),
      [(0, take 9216 buf), (18, take 9216 (drop 9216 buf)), (9234, drop 18432 buf)])"
    by (simp add: fp CB try_then_def recording_write_def ok_def Let_def)
  moreover have "lba_to_chs (ucast (9234 :: u64)) = lba_to_chs 18" by (simp add: lba_to_chs_def geometry_defs)
  ultimately show ?thesis by blast
qed

theorem cyl_write_third_piece_misplaced_witness:
  "\<exists>p q. cyl_write recording_write 0 (replicate (512 * 40) 0) [] = Done (Ok (), [p, q, (9234, drop 18432 (replicate (512 * 40) 0))])"
  using cyl_write_third_piece_misplaced [of "replicate (512 * 40) 0" 40] by (auto simp del: drop_replicate)

section \<open>Mounting\<close>

text \<open>What every step of mounting keeps: the screen's invariant and the filesystem's statics.\<close>

definition fs_frame :: "'a kbd_scheme \<Rightarrow> 'a kbd_scheme \<Rightarrow> bool" where
  "fs_frame k0 k \<longleftrightarrow> vga_ok k \<and> kbd.more k = kbd.more k0 \<and> (below_topbar k0 \<longrightarrow> below_topbar k)
     \<and> length (KBD_BUF k) = length (KBD_BUF k0)"

lemma safe_disk_read: "safe (fs_frame k0) (disk_read E p b)"
proof (rule safeI)
  fix k assume "fs_frame k0 k"
  then have inv: "fdc_inv k k" by (intro fdc_inv_refl) (simp add: fs_frame_def)
  show "disk_read E p b k \<noteq> Panic" by (rule triple_Panic [OF disk_read_outcome inv])
next
  fix k r k' assume k: "fs_frame k0 k" and run: "disk_read E p b k = Done (r, k')"
  from k have inv: "fdc_inv k k" by (intro fdc_inv_refl) (simp add: fs_frame_def)
  show "fs_frame k0 k'"
    using triple_Done [OF disk_read_outcome inv run] k
    by (cases r) (auto simp: fs_frame_def read_outcome_def fdc_inv_def vga_ok_def below_topbar_def)
qed

lemma safe_disk_write: "safe (fs_frame k0) (disk_write E p b)"
proof (rule safeI)
  fix k assume "fs_frame k0 k"
  then have inv: "fdc_inv k k" by (intro fdc_inv_refl) (simp add: fs_frame_def)
  show "disk_write E p b k \<noteq> Panic" by (rule triple_Panic [OF disk_write_outcome inv])
next
  fix k r k' assume k: "fs_frame k0 k" and run: "disk_write E p b k = Done (r, k')"
  from k have inv: "fdc_inv k k" by (intro fdc_inv_refl) (simp add: fs_frame_def)
  show "fs_frame k0 k'"
    using triple_Done [OF disk_write_outcome inv run] k
    by (cases r) (auto simp: fs_frame_def write_outcome_def fdc_inv_def vga_ok_def below_topbar_def)
qed

lemma safe_read_chunks:
  assumes "\<And>p b. safe P (dr p b)" shows "safe P (read_chunks dr block idx bufs acc)"
proof (induction bufs arbitrary: idx acc)
  case Nil
  then show ?case unfolding ext [where f = "read_chunks dr block idx [] acc", OF read_chunks.simps(1)] by (rule safe_ok)
next
  case (Cons b bufs)
  then show ?case
    unfolding ext [where f = "read_chunks dr block idx (b # bufs) acc", OF read_chunks.simps(2)]
    by (intro safe_try_then assms)
qed

lemma safe_write_chunks:
  assumes "\<And>p b. safe P (dw p b)" shows "safe P (write_chunks dw block idx bufs)"
proof (induction bufs arbitrary: idx)
  case Nil
  then show ?case unfolding ext [where f = "write_chunks dw block idx []", OF write_chunks.simps(1)] by (rule safe_ok)
next
  case (Cons b bufs)
  then show ?case
    unfolding ext [where f = "write_chunks dw block idx (b # bufs)", OF write_chunks.simps(2)]
    by (intro safe_try_then assms)
qed

lemma safe_floppyfs_read: "safe (fs_frame k0) (floppyfs_read E p b)"
  unfolding floppyfs_read_def cyl_read_def Let_def by (intro safe_try_then safe_disk_read safe_read_chunks)

lemma safe_floppyfs_write: "safe (fs_frame k0) (floppyfs_write E p b)"
  unfolding floppyfs_write_def cyl_write_def Let_def by (intro safe_try_then safe_disk_write safe_write_chunks)

lemma safe_reformat: "safe (fs_frame k0) (reformat_drive h (floppyfs_write E))"
  unfolding reformat_drive_def by (intro safe_try_then safe_floppyfs_write safe_ok)

lemma fs_frame_poll: "fs_frame k0 k \<Longrightarrow> fs_frame k0 (poll E ev k)"
  using poll_frame(1) [of k E ev] same_screen_vga_ok [OF poll_frame(2) [of k E ev]]
  by (simp add: fs_frame_def undisturbed_def below_topbar_def)

lemma wait_for_response_frame:
  "fs_frame k0 k \<Longrightarrow> wait_for_response E n b k \<noteq> Panic
     \<and> (\<forall>y k'. wait_for_response E n b k = Done (y, k') \<longrightarrow> fs_frame k0 k')"
proof (induction n arbitrary: k)
  case (Suc n)
  have "fs_frame k0 (poll E Spin k)" using Suc.prems by (rule fs_frame_poll)
  with Suc.IH [OF this] show ?case by (auto simp: Let_def)
qed simp

lemma fs_frame_screen:
  assumes "fs_frame k0 k" and "screen_step k k'"
  shows "fs_frame k0 k'"
proof -
  have "vga.more k' = vga.more k" using assms(2) by (simp add: screen_step_def)
  from more_fields [OF this] show ?thesis using assms by (auto simp: fs_frame_def screen_step_def)
qed

lemma print_frame: "fs_frame k0 k \<Longrightarrow> \<exists>k'. print_args s fg bg k = Done k' \<and> fs_frame k0 k'"
  using print_args_screen [of k s fg bg] fs_frame_screen [of k0 k] fs_frame_def by blast

lemma fs_frame_visual: "fs_frame k0 k \<Longrightarrow> fs_frame k0 (update_visual_pos k)"
  by (rule fs_frame_screen [OF _ update_visual_screen]) (simp_all add: fs_frame_def)

lemma kbd_prompt_frame:
  assumes "fs_frame k0 k"
  shows "kbd_wait_for_response E p b k \<noteq> Panic
    \<and> (\<forall>y k'. kbd_wait_for_response E p b k = Done (y, k') \<longrightarrow> fs_frame k0 k')"
proof -
  obtain k1 where k1: "print_args (p @ (if b then ''? [Y/n] '' else ''? [y/N] '')) White Black k = Done k1" "fs_frame k0 k1"
    using print_frame [OF assms] by blast
  note w = wait_for_response_frame [OF fs_frame_visual [OF k1(2)], of E "fuel E" b]
  show ?thesis
  proof (cases "wait_for_response E (fuel E) b (update_visual_pos k1)")
    case (Done x)
    obtain y k2 where x: "x = (y, k2)" by (cases x)
    then have "fs_frame k0 k2" using w Done by blast
    from print_frame [OF this, of "(if y then ''y'' else ''n'') @ nl_str" White Black]
    show ?thesis using k1(1) Done x by (auto simp: kbd_wait_for_response_def print_def println_def)
  qed (use w k1(1) in \<open>simp_all add: kbd_wait_for_response_def print_def\<close>)
qed

lemma read_nods_drive:
  "read_nods ns a u (tbl, bmp, s) = Done (r, (tbl', bmp', s')) \<Longrightarrow> s' = s"
proof (induction ns arbitrary: a u tbl bmp)
  case (Cons x ns)
  obtain i nod where x: "x = (i, nod)" by (cases x)
  obtain res cell where m: "exmap_map (\<lambda>n. ((), inode_clone nod)) (tbl ! i) = (res, cell)"
    by (cases "exmap_map (\<lambda>n. ((), inode_clone nod)) (tbl ! i)")
  have i: "\<not> length tbl \<le> i" using Cons.prems by (auto simp: x)
  show ?case
  proof (cases "res = None")
    case True
    then show ?thesis using Cons.prems i m by (simp add: x throw_def)
  next
    case False
    then obtain q b1 where q: "alloc_each alloc_bmp (inode_valid_blocks nod) u bmp = Done (q, b1)"
      using Cons.prems i m by (auto simp: x Let_def andThen_eq_Done)
    show ?thesis
    proof (cases q)
      case (Inl e)
      then show ?thesis using Cons.prems i m q False by (simp add: x throw_def)
    next
      case (Inr u1)
      then have "read_nods ns (a + 1) u1 (tbl[i := cell], b1, s) = Done (r, (tbl', bmp', s'))"
        using Cons.prems i m q False by (simp add: x)
      then show ?thesis by (rule Cons.IH)
    qed
  qed
qed (simp add: ok_def)

lemma read_table_drive:
  assumes "read_table rd (tbl, bmp, s) = Done (r, (tbl', bmp', s'))"
  shows "\<exists>q. rd INODE_START (replicate (SIZE_OF_INODE * INODES) 0) s = Done (q, s')"
proof -
  obtain q s1 where q: "rd INODE_START (replicate (SIZE_OF_INODE * INODES) 0) s = Done (q, s1)"
    using assms by (auto simp: read_table_def andThen_eq_Done)
  have "s' = s1"
  proof (cases q)
    case (Inl e)
    then show ?thesis using assms q by (simp add: read_table_def throw_def)
  next
    case (Inr buf)
    then show ?thesis using assms q by (auto simp: read_table_def Let_def dest: read_nods_drive)
  qed
  with q show ?thesis by blast
qed

lemma FLOPPYFS_INIT_more: "kbd.more k' = kbd.more k \<Longrightarrow> FLOPPYFS_INIT k' = FLOPPYFS_INIT (k :: 'a fsk_scheme)"
  by (cases k; cases k') simp

lemma load_table_outcome:
  fixes k0 k :: "'a fsk_scheme"
  assumes "fs_frame k0 k" and "\<not> FLOPPYFS_INIT k0" and "load_table E k = Done (r, k')"
  shows "vga_ok k' \<and> (r = ExOk \<longleftrightarrow> FLOPPYFS_INIT k') \<and> (r \<noteq> ExOk \<longrightarrow> (\<exists>e. r = ExError (TableError e)))"
proof -
  obtain q tbl bmp k1 where t: "read_table (floppyfs_read E) (INODE_TBL k, BLOCK_BMP k, k) = Done (q, (tbl, bmp, k1))"
    using assms(3) by (auto simp: load_table_def andThen_eq_Done)
  obtain x where "floppyfs_read E INODE_START (replicate (SIZE_OF_INODE * INODES) 0) k = Done (x, k1)"
    using read_table_drive [OF t] by blast
  then have "fs_frame k0 k1" using assms(1) by (rule safe_Done [OF safe_floppyfs_read, rotated])
  then have "vga_ok k1" "\<not> FLOPPYFS_INIT k1"
    using assms(2) FLOPPYFS_INIT_more [of k1 k0] by (simp_all add: fs_frame_def)
  then show ?thesis using assms(3) t by (cases q) (auto simp: load_table_def vga_ok_def split_beta)
qed

text \<open>
  Mounting with a floppy driver ends in a failure, in loading the table, or does not return; every step before keeps the frame.
\<close>

lemma mount_rule:
  fixes k :: "'a fsk_scheme"
  assumes init: "FLOPPY_INIT k" and k: "fs_frame k k"
    and fail: "\<And>e k1. fs_frame k k1 \<Longrightarrow> Q (Done (ExError e, k1))"
    and load: "\<And>k1. fs_frame k k1 \<Longrightarrow> Q (load_table E k1)" and hang: "Q Hang"
  shows "Q (init_floppyfs E k)"
proof -
  have format: "Q (andThen (reformat_drive (GOOD_FS_HEADER E) (floppyfs_write E) k2)
      (\<lambda>(r, k). case r of Inl e \<Rightarrow> Done (ExError (FsFloppyError e), k) | Inr _ \<Rightarrow> load_table E k))" if f: "fs_frame k k2" for k2
  proof (cases "reformat_drive (GOOD_FS_HEADER E) (floppyfs_write E) k2")
    case (Done x)
    then show ?thesis using safe_Done [OF safe_reformat f, of "GOOD_FS_HEADER E" E "fst x" "snd x"] fail load
      by (cases x) (auto split: sum.split)
  qed (use hang safe_Panic [OF safe_reformat f] in simp_all)
  have ask: "Q (andThen (kbd_wait_for_response E ''Format floppy drive'' True k1)
      (\<lambda>(yes, k). if \<not> yes then Done (ExError CorruptDrive, k)
         else andThen (reformat_drive (GOOD_FS_HEADER E) (floppyfs_write E) k)
           (\<lambda>(r, k). case r of Inl e \<Rightarrow> Done (ExError (FsFloppyError e), k) | Inr _ \<Rightarrow> load_table E k)))" if f: "fs_frame k k1" for k1
  proof (cases "kbd_wait_for_response E ''Format floppy drive'' True k1")
    case (Done x)
    then have "fs_frame k (snd x)" using kbd_prompt_frame [OF f] by (cases x) auto
    then show ?thesis using Done fail format by (cases x) auto
  qed (use hang kbd_prompt_frame [OF f] in simp_all)
  show ?thesis
  proof (cases "disk_read E 0 (replicate SIZE_OF_HEADER 0) k")
    case (Done x)
    then have "fs_frame k (snd x)" using safe_Done [OF safe_disk_read k, of E 0 _ "fst x"] by (cases x) auto
    then show ?thesis using init Done fail load ask by (cases x) (auto simp: init_floppyfs_def split: sum.split)
  qed (use init hang safe_Panic [OF safe_disk_read k] in \<open>simp_all add: init_floppyfs_def\<close>)
qed

text \<open>
  C14: mounting sets the filesystem's initialised flag exactly when it succeeds, never asks for a kernel panic, keeps the screen's invariant, and
  without a floppy driver fails at once and changes nothing.
\<close>

theorem mount_flag_iff_ok:
  fixes k :: "'a fsk_scheme"
  assumes "vga_ok k" and "\<not> FLOPPYFS_INIT k" and "init_floppyfs E k = Done (r, k')"
  shows "vga_ok k' \<and> (r = ExOk \<longleftrightarrow> FLOPPYFS_INIT k') \<and> (r \<noteq> ExOk \<longrightarrow> (\<exists>e. r = ExError e))
    \<and> (\<not> FLOPPY_INIT k \<longrightarrow> r = ExError NoFloppyDriver \<and> k' = k)"
proof (cases "FLOPPY_INIT k")
  case False
  then show ?thesis using assms by (auto simp: init_floppyfs_def)
next
  case True
  have k: "fs_frame k k" using assms(1) by (simp add: fs_frame_def)
  have fail: "vga_ok k1 \<and> \<not> FLOPPYFS_INIT k1" if "fs_frame k k1" for k1
    using that assms(2) FLOPPYFS_INIT_more [of k1 k] by (simp add: fs_frame_def)
  let ?Q = "\<lambda>x. x = Done (r, k') \<longrightarrow> vga_ok k' \<and> (r = ExOk \<longleftrightarrow> FLOPPYFS_INIT k') \<and> (r \<noteq> ExOk \<longrightarrow> (\<exists>e. r = ExError e))"
  have "?Q (init_floppyfs E k)"
    by (rule mount_rule [OF True k]) (use fail load_table_outcome [OF _ assms(2)] in blast)+
  then show ?thesis using assms(3) True by blast
qed

definition initial_fsk :: fsk where
  "initial_fsk = kbd.extend running_kbd \<lparr>FLOPPYFS_INIT = False, INODE_TBL = inode_tbl_static, BLOCK_BMP = block_bmp_static\<rparr>"

theorem mount_flag_iff_ok_witness:
  "init_floppyfs sample_env initial_fsk = Done (ExError NoFloppyDriver, initial_fsk)"
proof -
  have k: "vga_ok initial_fsk" "\<not> FLOPPYFS_INIT initial_fsk" "\<not> FLOPPY_INIT initial_fsk"
    using running_kbd_ok
    by (simp_all add: initial_fsk_def kbd.extend_def vga_ok_def running_kbd_def initial_kbd_def based_fdc_def initial_fdc_def
        initial_clock_def cleared_vga_def fdc.extend_def clock.extend_def vga.extend_def)
  obtain r k' where run: "init_floppyfs sample_env initial_fsk = Done (r, k')"
    using k(3) by (simp add: init_floppyfs_def)
  from mount_flag_iff_ok [OF k(1,2) run] k(3) run show ?thesis by simp
qed

end
