(* ===== verification/Gdt.thy ===== *)
theory Gdt
  imports Floppyfs
begin

text \<open>
  kernel/src/gdt.rs: the global descriptor table, the task state segment and loading both into the
  processor. The processor's view of what was loaded (which selector loads succeed, where the task
  state segment is found) follows the descriptor formats of the x86-64 architecture.
\<close>

section \<open>Descriptors\<close>

definition GDT_ENTRIES :: nat where "GDT_ENTRIES = 5"
definition STACK_SIZE :: u64 where "STACK_SIZE = 2048"
definition CODE_SEGMENT_OFFSET :: u16 where "CODE_SEGMENT_OFFSET = 0x8"
definition TSS_SEGMENT_OFFSET :: u64 where "TSS_SEGMENT_OFFSET = 0x18"

datatype segment_descriptor = SegmentDescriptor (seg_bits: u64)

type_synonym gdt = "segment_descriptor list"

definition segment_descriptor_new :: "bool \<Rightarrow> segment_descriptor" where
  "segment_descriptor_new code_segment = SegmentDescriptor
     (push_bit 44 1 OR push_bit 47 1 OR push_bit 53 1 OR push_bit 43 (of_bool code_segment))"

record tss =
  tss_reserved1 :: u32
  tss_privilege_ptrs :: "u64 list"
  tss_reserved2 :: u64
  tss_ist :: "u64 list"
  tss_reserved3 :: u64
  tss_reserved4 :: u16
  tss_iomap :: u16

definition tss_default :: tss where
  "tss_default = \<lparr>tss_reserved1 = 0, tss_privilege_ptrs = replicate 3 0, tss_reserved2 = 0, tss_ist = replicate 7 0,
     tss_reserved3 = 0, tss_reserved4 = 0, tss_iomap = 0\<rparr>"

text \<open>The struct as it lies in memory: packed to four bytes, so without padding.\<close>

definition tss_as_bytes :: "tss \<Rightarrow> bytes" where
  "tss_as_bytes t = to_le 4 (tss_reserved1 t) @ concat (map (to_le 8) (tss_privilege_ptrs t)) @ to_le 8 (tss_reserved2 t)
     @ concat (map (to_le 8) (tss_ist t)) @ to_le 8 (tss_reserved3 t) @ to_le 2 (tss_reserved4 t) @ to_le 2 (tss_iomap t)"

definition SIZE_OF_TSS :: nat where "SIZE_OF_TSS = 104"

record system_segment_descriptor =
  ssd_limit :: u16
  ssd_offset_very_low :: u16
  ssd_offset_low :: u8
  ssd_access :: u8
  ssd_flags :: u8
  ssd_offset_medium :: u8
  ssd_offset_high :: u32
  ssd_reserved :: u32

definition new_tss :: "u64 \<Rightarrow> system_segment_descriptor" where
  "new_tss tss =
     (let ACCESS = 0b10001001
      in \<lparr>ssd_limit = ucast (of_nat SIZE_OF_TSS - 1 :: u64), ssd_offset_very_low = ucast tss,
          ssd_offset_low = ucast (drop_bit 16 tss), ssd_access = ACCESS, ssd_flags = 0,
          ssd_offset_medium = ucast (drop_bit 24 tss), ssd_offset_high = ucast (drop_bit 32 tss), ssd_reserved = 0\<rparr>)"

definition ssd_as_bytes :: "system_segment_descriptor \<Rightarrow> bytes" where
  "ssd_as_bytes d = to_le 2 (ssd_limit d) @ to_le 2 (ssd_offset_very_low d) @ [ssd_offset_low d, ssd_access d, ssd_flags d,
     ssd_offset_medium d] @ to_le 4 (ssd_offset_high d) @ to_le 4 (ssd_reserved d)"

text \<open>\<^verbatim>\<open>mem::transmute\<close> of a system segment descriptor to two segment descriptors.\<close>

definition ssd_transmute :: "system_segment_descriptor \<Rightarrow> segment_descriptor \<times> segment_descriptor" where
  "ssd_transmute d = (SegmentDescriptor (of_le (take 8 (ssd_as_bytes d))), SegmentDescriptor (of_le (drop 8 (ssd_as_bytes d))))"

section \<open>State\<close>

text \<open>
  The descriptor table registers, the code segment register and the task register, and the
  statics of gdt.rs. The handlers' statics follow in the theory of the interrupt table.
\<close>

record cpu = fsk +
  cs_reg :: u16
  gdtr :: table_descriptor
  idtr :: table_descriptor
  task_reg :: u64
  GDT :: "gdt init_later"
  TSS :: "tss init_later"

definition gdt_register :: "'a cpu_scheme \<Rightarrow> table_descriptor" where
  "gdt_register k = gdtr k"

definition cs_register :: "'a cpu_scheme \<Rightarrow> u16" where
  "cs_register k = cs_reg k"

section \<open>The processor's view of a descriptor\<close>

definition is_code_segment :: "segment_descriptor \<Rightarrow> bool" where
  "is_code_segment d \<longleftrightarrow> bit (seg_bits d) 47 \<and> bit (seg_bits d) 44 \<and> bit (seg_bits d) 43 \<and> bit (seg_bits d) 53"

definition is_free_tss :: "segment_descriptor \<Rightarrow> bool" where
  "is_free_tss d \<longleftrightarrow> bit (seg_bits d) 47 \<and> \<not> bit (seg_bits d) 44 \<and> drop_bit 40 (seg_bits d) AND 0xF = 9"

definition system_base :: "segment_descriptor \<Rightarrow> segment_descriptor \<Rightarrow> u64" where
  "system_base low high =
     (drop_bit 16 (seg_bits low) AND mask 24) OR push_bit 24 (drop_bit 56 (seg_bits low))
     OR push_bit 32 (seg_bits high AND mask 32)"

definition system_limit :: "segment_descriptor \<Rightarrow> u64" where
  "system_limit low = (seg_bits low AND mask 16) OR push_bit 16 (drop_bit 48 (seg_bits low) AND 0xF)"

text \<open>
  The table the descriptor table register points to: the static, once the register holds its
  address. A selector is in the table if its descriptor ends within the limit.
\<close>

definition loaded_gdt :: "env \<Rightarrow> 'a cpu_scheme \<Rightarrow> gdt" where
  "loaded_gdt E k =
     (if td_offset (gdtr k) = static_addr E ''GDT'' then take ((unat (td_size (gdtr k)) + 1) div 8) (il_cell (GDT k)) else [])"

text \<open>
  \<^verbatim>\<open>ltr\<close> takes the selector of an available task state segment, which it marks busy in the table;
  a far return loads a code segment. Any other descriptor raises an exception, whose handler panics.
\<close>

definition ltr :: "env \<Rightarrow> u64 \<Rightarrow> 'a cpu_scheme \<Rightarrow> 'a cpu_scheme run" where
  "ltr E sel k =
     (let i = unat sel div 8; g = loaded_gdt E k
      in if i + 1 < length g \<and> is_free_tss (g ! i)
         then Done (k\<lparr>task_reg := sel,
                      GDT := (GDT k)\<lparr>il_cell := (il_cell (GDT k))[i := SegmentDescriptor (seg_bits (g ! i) OR push_bit 41 1)]\<rparr>\<rparr>)
         else Panic)"

definition reload_cs :: "env \<Rightarrow> 'a cpu_scheme \<Rightarrow> 'a cpu_scheme run" where
  "reload_cs E k =
     (let i = unat CODE_SEGMENT_OFFSET div 8; g = loaded_gdt E k
      in if i < length g \<and> is_code_segment (g ! i) then Done (k\<lparr>cs_reg := CODE_SEGMENT_OFFSET\<rparr>) else Panic)"

section \<open>Operations\<close>

definition setup_tss :: "env \<Rightarrow> 'a cpu_scheme \<Rightarrow> init_error exit_code \<times> 'a cpu_scheme" where
  "setup_tss E k =
     (let tss = tss_default;
          stack_addr = static_addr E ''STACK'';
          stack_end_addr = stack_addr + STACK_SIZE;
          tss = tss\<lparr>tss_ist := (tss_ist tss)[0 := stack_end_addr]\<rparr>;
          tss = tss\<lparr>tss_iomap := of_nat SIZE_OF_TSS\<rparr>;
          (r, c) = init_later_init tss (TSS k);
          k = k\<lparr>TSS := c\<rparr>
      in case r of Inl e \<Rightarrow> (ExError e, k) | Inr _ \<Rightarrow> (ExOk, k))"

datatype load_tss_error = NoGdt | BadStore u64

definition load_tss_error_display :: "load_tss_error \<Rightarrow> string" where
  "load_tss_error_display e =
     (case e of
        NoGdt \<Rightarrow> ''The GDT isn't initialised!''
      | BadStore n \<Rightarrow> ''Stored TSS offset ('' @ dec_str (unat n) @ ''), doesn't match const (''
          @ dec_str (unat TSS_SEGMENT_OFFSET) @ '')'')"

definition load_tss :: "env \<Rightarrow> 'a cpu_scheme \<Rightarrow> (load_tss_error exit_code \<times> 'a cpu_scheme) run" where
  "load_tss E k =
     (if \<not> GDT_INIT k then Done (ExError NoGdt, k)
      else andThen (ltr E TSS_SEGMENT_OFFSET k)
             (\<lambda>k. let stored_offset = task_reg k
                  in if stored_offset \<noteq> TSS_SEGMENT_OFFSET then Done (ExError (BadStore stored_offset), k)
                     else Done (ExOk, k)))"

text \<open>The entries that \<^verbatim>\<open>load_gdt\<close> fills, given the address of the task state segment if it was set up.\<close>

definition gdt_entries :: "u64 option \<Rightarrow> gdt" where
  "gdt_entries tss =
     (let gdt = replicate GDT_ENTRIES (SegmentDescriptor 0);
          gdt = gdt[1 := segment_descriptor_new True];
          gdt = gdt[2 := segment_descriptor_new False]
      in case tss of
           None \<Rightarrow> gdt
         | Some addr \<Rightarrow> let (low, high) = ssd_transmute (new_tss addr); gdt = gdt[3 := low] in gdt[4 := high])"

definition load_gdt :: "env \<Rightarrow> 'a cpu_scheme \<Rightarrow> (load_register_error exit_code \<times> 'a cpu_scheme) run" where
  "load_gdt E k =
     (let k = cli k;
          gdt = gdt_entries (case init_later_read (TSS k) of Inl _ \<Rightarrow> None | Inr _ \<Rightarrow> Some (static_addr E ''TSS''));
          (r, c) = init_later_init gdt (GDT k);
          k = k\<lparr>GDT := c\<rparr>
      in case r of
           Inl e \<Rightarrow> Done (ExError (LoadErr e), k)
         | Inr gdt \<Rightarrow>
             let descriptor = table_descriptor_new (8 * GDT_ENTRIES) (static_addr E ''GDT'');
                 k = k\<lparr>gdtr := descriptor\<rparr>
             in if \<not> table_descriptor_eq (gdt_register k) descriptor then Done (ExError (StoreErr ''GDT''), k)
                else andThen (reload_cs E k) (\<lambda>k. Done (ExOk, k\<lparr>GDT_INIT := True\<rparr>)))"

section \<open>The task state segment in memory\<close>

lemma of_le_8:
  "(of_le [a, b, c, d, e, f, g, h] :: u64) =
     ucast a OR push_bit 8 (ucast b) OR push_bit 16 (ucast c) OR push_bit 24 (ucast d) OR push_bit 32 (ucast e)
     OR push_bit 40 (ucast f) OR push_bit 48 (ucast g) OR push_bit 56 (ucast h)"
  by (simp add: push_bit_or or.assoc)

lemma ssd_transmute_new_tss:
  "ssd_transmute (new_tss a) =
     (SegmentDescriptor (of_le [103, 0, ucast a, ucast (drop_bit 8 a), ucast (drop_bit 16 a), 0x89, 0, ucast (drop_bit 24 a)]),
      SegmentDescriptor (of_le [ucast (drop_bit 32 a), ucast (drop_bit 40 a), ucast (drop_bit 48 a), ucast (drop_bit 56 a), 0, 0, 0, 0]))"
proof -
  have u: "(ucast (ucast (x :: u64) :: u16) :: u8) = ucast x" "(ucast (drop_bit 8 (ucast x :: u16)) :: u8) = ucast (drop_bit 8 x)"
    "(ucast (drop_bit n (ucast x :: u32)) :: u8) = ucast (drop_bit n x)" if "n \<le> 24" for x n
    using that by (auto intro!: bit_word_eqI simp: bit_simps)
  have u0: "(ucast (ucast (x :: u64) :: u32) :: u8) = ucast x" for x by (intro bit_word_eqI) (simp add: bit_simps)
  have l: "[0..<2] = [0, 1]" "[0..<4] = [0, 1, 2, 3 :: nat]" by (simp_all add: upt_rec)
  show ?thesis
    by (simp add: ssd_transmute_def ssd_as_bytes_def new_tss_def to_le_def l u0 SIZE_OF_TSS_def drop_bit_drop_bit
        u(1) [of 0] u(2) [of 0] u(3) [of 0] u(3) [of 8] u(3) [of 16] u(3) [of 24] del: of_le.simps)
qed

lemma to_le_8: "to_le 8 (a :: u64) = [ucast a, ucast (drop_bit 8 a), ucast (drop_bit 16 a), ucast (drop_bit 24 a),
    ucast (drop_bit 32 a), ucast (drop_bit 40 a), ucast (drop_bit 48 a), ucast (drop_bit 56 a)]"
proof -
  have "[0..<8] = [0, 1, 2, 3, 4, 5, 6, 7 :: nat]" by (simp add: upt_rec)
  then show ?thesis by (simp add: to_le_def)
qed

lemma system_base_bytes:
  "system_base (SegmentDescriptor (of_le [l0, l1, b0, b1, b2, acc, fl, b3])) (SegmentDescriptor (of_le [b4, b5, b6, b7, 0, 0, 0, 0]))
     = of_le [b0, b1, b2, b3, b4, b5, b6, b7]"
proof (rule bit_word_eqI)
  fix n assume "n < LENGTH(64)"
  then have n: "n < 64" by simp
  consider "n < 8" | "8 \<le> n" "n < 16" | "16 \<le> n" "n < 24" | "24 \<le> n" "n < 32" | "32 \<le> n" "n < 40" | "40 \<le> n" "n < 48"
    | "48 \<le> n" "n < 56" | "56 \<le> n" "n < 64"
    using n by linarith
  then show "bit (system_base (SegmentDescriptor (of_le [l0, l1, b0, b1, b2, acc, fl, b3]))
      (SegmentDescriptor (of_le [b4, b5, b6, b7, 0, 0, 0, 0]))) n = bit (of_le [b0, b1, b2, b3, b4, b5, b6, b7] :: u64) n"
    by cases (auto simp: system_base_def of_le_8 bit_simps simp del: of_le.simps)
qed

lemma bit_of_le_8:
  "bit (of_le [a, b, c, d, e, f, g, h] :: u64) n \<longleftrightarrow>
     (if n < 8 then bit a n else if n < 16 then bit b (n - 8) else if n < 24 then bit c (n - 16)
      else if n < 32 then bit d (n - 24) else if n < 40 then bit e (n - 32) else if n < 48 then bit f (n - 40)
      else if n < 56 then bit g (n - 48) else n < 64 \<and> bit h (n - 56))"
proof -
  consider "n < 8" | "8 \<le> n" "n < 16" | "16 \<le> n" "n < 24" | "24 \<le> n" "n < 32" | "32 \<le> n" "n < 40" | "40 \<le> n" "n < 48"
    | "48 \<le> n" "n < 56" | "56 \<le> n"
    by linarith
  then show ?thesis by cases (auto simp: of_le_8 bit_simps simp del: of_le.simps)
qed

lemma low_word_bytes:
  fixes l0 l1 b0 b1 b2 acc fl b3 :: u8
  shows "system_limit (SegmentDescriptor (of_le [l0, l1, b0, b1, b2, acc, fl, b3]))
      = ucast l0 OR push_bit 8 (ucast l1) OR push_bit 16 (ucast (fl AND mask 4))" (is ?limit)
    and "drop_bit 40 (of_le [l0, l1, b0, b1, b2, acc, fl, b3] :: u64) AND 0xF = ucast (acc AND mask 4)" (is ?type)
    and "bit (of_le [l0, l1, b0, b1, b2, acc, fl, b3] :: u64) 47 = bit acc 7"
    and "bit (of_le [l0, l1, b0, b1, b2, acc, fl, b3] :: u64) 44 = bit acc 4"
proof -
  have m: "(0xF :: u64) = mask 4" by (simp add: mask_eq_exp_minus_1)
  have "bit (drop_bit 40 (of_le [l0, l1, b0, b1, b2, acc, fl, b3]) AND mask 4 :: u64) n = bit (ucast (acc AND mask 4) :: u64) n" for n
    by (auto simp: bit_of_le_8 bit_simps simp del: of_le.simps)
  then show ?type unfolding m by (intro bit_word_eqI)
  have "bit (drop_bit 48 (of_le [l0, l1, b0, b1, b2, acc, fl, b3]) AND mask 4 :: u64) n = bit (ucast (fl AND mask 4) :: u64) n" for n
    by (auto simp: bit_of_le_8 bit_simps simp del: of_le.simps)
  then have f: "drop_bit 48 (of_le [l0, l1, b0, b1, b2, acc, fl, b3]) AND mask 4 = (ucast (fl AND mask 4) :: u64)"
    by (intro bit_word_eqI)
  have "bit (of_le [l0, l1, b0, b1, b2, acc, fl, b3] AND mask 16 :: u64) n = bit (ucast l0 OR push_bit 8 (ucast l1) :: u64) n" for n
    by (auto simp: bit_of_le_8 bit_simps simp del: of_le.simps)
  then have "of_le [l0, l1, b0, b1, b2, acc, fl, b3] AND mask 16 = (ucast l0 OR push_bit 8 (ucast l1) :: u64)"
    by (intro bit_word_eqI)
  with f show ?limit by (simp add: system_limit_def m or.assoc del: of_le.simps)
qed (simp_all add: bit_of_le_8 del: of_le.simps)

text \<open>
  A descriptor made for a task state segment at any address is an available, present 64 bit one
  of 104 bytes at that address, in the format the processor reads.
\<close>

theorem tss_descriptor_round_trip:
  "(case ssd_transmute (new_tss addr) of
      (low, high) \<Rightarrow> system_base low high = addr \<and> system_limit low + 1 = of_nat SIZE_OF_TSS \<and> is_free_tss low)
   \<and> length (tss_as_bytes tss_default) = SIZE_OF_TSS"
proof -
  have "of_le (to_le 8 addr) = addr" by simp
  moreover have "length (tss_as_bytes tss_default) = SIZE_OF_TSS"
    by (simp add: tss_as_bytes_def tss_default_def SIZE_OF_TSS_def numeral_eq_Suc)
  ultimately show ?thesis
    by (simp add: ssd_transmute_new_tss system_base_bytes low_word_bytes to_le_8 is_free_tss_def SIZE_OF_TSS_def bit_simps
        mask_eq_exp_minus_1 del: of_le.simps)
qed

section \<open>Loading the tables\<close>

text \<open>The facts of the descriptors that loading needs, kept apart from the theorem above.\<close>

lemma new_tss_free: "is_free_tss (fst (ssd_transmute (new_tss addr)))"
  by (simp add: ssd_transmute_new_tss is_free_tss_def low_word_bytes bit_simps mask_eq_exp_minus_1 del: of_le.simps)

lemma new_tss_base:
  "system_base (fst (ssd_transmute (new_tss addr))) (snd (ssd_transmute (new_tss addr))) = addr"
proof -
  have "of_le (to_le 8 addr) = addr" by simp
  then show ?thesis by (simp add: ssd_transmute_new_tss system_base_bytes to_le_8 del: of_le.simps)
qed

lemma system_base_flag:
  assumes "40 \<le> m" and "m < 56"
  shows "system_base (SegmentDescriptor (w OR push_bit m 1)) h = system_base (SegmentDescriptor w) h"
proof -
  have "drop_bit 16 (w OR push_bit m 1) AND mask 24 = drop_bit 16 w AND mask 24"
    "drop_bit 56 (w OR push_bit m 1) = drop_bit 56 w"
    using assms by (auto intro!: bit_word_eqI simp: bit_simps)
  then show ?thesis by (simp add: system_base_def)
qed

lemmas system_base_busy = system_base_flag [of 41, simplified]

lemma code_segment_new: "is_code_segment (segment_descriptor_new True)"
  by (simp add: is_code_segment_def segment_descriptor_new_def bit_simps)

lemma null_not_tss: "\<not> is_free_tss (SegmentDescriptor 0)"
  by (simp add: is_free_tss_def)

lemma gdt_entries_eq:
  "gdt_entries tss = [SegmentDescriptor 0, segment_descriptor_new True, segment_descriptor_new False]
     @ (case tss of None \<Rightarrow> [SegmentDescriptor 0, SegmentDescriptor 0]
        | Some a \<Rightarrow> [fst (ssd_transmute (new_tss a)), snd (ssd_transmute (new_tss a))])"
  by (simp add: gdt_entries_def GDT_ENTRIES_def numeral_eq_Suc Let_def split_beta split: option.split)

lemma length_gdt_entries [simp]: "length (gdt_entries tss) = 5"
  by (simp add: gdt_entries_eq split: option.split)

lemma gdt_limit: "td_size (table_descriptor_new (8 * GDT_ENTRIES) a) = 39"
  by (simp add: table_descriptor_new_def GDT_ENTRIES_def)

text \<open>The state after \<^verbatim>\<open>load_gdt\<close> on a cell that was not initialised.\<close>

lemma load_gdt_fresh:
  fixes k :: "'a cpu_scheme" and E :: env
  assumes "il_state (GDT k) = UNINIT"
  defines "g \<equiv> gdt_entries (case init_later_read (TSS k) of Inl _ \<Rightarrow> None | Inr _ \<Rightarrow> Some (static_addr E ''TSS''))"
  shows "load_gdt E k = Done (ExOk, k\<lparr>ints_on := False, GDT := \<lparr>il_cell = g, il_state = INIT\<rparr>,
     gdtr := table_descriptor_new (8 * GDT_ENTRIES) (static_addr E ''GDT''), cs_reg := 8, GDT_INIT := True\<rparr>)"
proof -
  have c: "(GDT k)\<lparr>il_state := s1, il_cell := g, il_state := s2\<rparr> = \<lparr>il_cell = g, il_state = s2\<rparr>" for s1 s2
    by (cases "GDT k") simp
  have len: "length g = 5" by (simp add: g_def)
  have 1: "is_code_segment (g ! 1)" by (simp add: g_def gdt_entries_eq code_segment_new)
  show ?thesis using assms(1) len 1 gdt_limit [of "static_addr E ''GDT''"]
    by (simp add: load_gdt_def cli_def g_def [symmetric] init_later_init_def Let_def c reload_cs_def loaded_gdt_def
        gdt_register_def table_descriptor_eq_def CODE_SEGMENT_OFFSET_def table_descriptor_new_def)
qed

text \<open>The task state segment that is set up, and the table of the processor once the task register is loaded.\<close>

definition emergency_tss :: "env \<Rightarrow> tss" where
  "emergency_tss E = tss_default\<lparr>tss_ist := (tss_ist tss_default)[0 := static_addr E ''STACK'' + STACK_SIZE], tss_iomap := of_nat SIZE_OF_TSS\<rparr>"

definition busy_gdt :: "env \<Rightarrow> gdt" where
  "busy_gdt E = (let g = gdt_entries (Some (static_addr E ''TSS'')) in g[3 := SegmentDescriptor (seg_bits (g ! 3) OR push_bit 41 1)])"

definition gdt_ready :: "env \<Rightarrow> 'a cpu_scheme \<Rightarrow> bool" where
  "gdt_ready E k \<longleftrightarrow> GDT k = \<lparr>il_cell = busy_gdt E, il_state = INIT\<rparr>
     \<and> gdtr k = table_descriptor_new (8 * GDT_ENTRIES) (static_addr E ''GDT'') \<and> cs_reg k = 8 \<and> task_reg k = 24
     \<and> init_later_read (TSS k) = Ok (emergency_tss E)"

lemma setup_tss_fresh:
  fixes k :: "'a cpu_scheme"
  assumes "il_state (TSS k) = UNINIT"
  shows "setup_tss E k = (ExOk, k\<lparr>TSS := \<lparr>il_cell = emergency_tss E, il_state = INIT\<rparr>\<rparr>)"
proof -
  have c: "(TSS k)\<lparr>il_state := s1, il_cell := t, il_state := s2\<rparr> = \<lparr>il_cell = t, il_state = s2\<rparr>" for s1 s2 t
    by (cases "TSS k") simp
  show ?thesis using assms by (simp add: setup_tss_def emergency_tss_def init_later_init_def Let_def c)
qed

lemma load_tss_loaded:
  fixes k :: "'a cpu_scheme"
  assumes "GDT k = \<lparr>il_cell = gdt_entries (Some (static_addr E ''TSS'')), il_state = INIT\<rparr>" and "GDT_INIT k"
    and "gdtr k = table_descriptor_new (8 * GDT_ENTRIES) (static_addr E ''GDT'')"
  shows "load_tss E k = Done (ExOk, k\<lparr>task_reg := 24, GDT := \<lparr>il_cell = busy_gdt E, il_state = INIT\<rparr>\<rparr>)"
proof -
  have l: "loaded_gdt E k = gdt_entries (Some (static_addr E ''TSS''))"
    by (simp add: loaded_gdt_def assms(1,3) gdt_limit) (simp add: table_descriptor_new_def)
  show ?thesis
    using assms(1,2) l new_tss_free by (simp add: load_tss_def ltr_def busy_gdt_def TSS_SEGMENT_OFFSET_def Let_def gdt_entries_eq)
qed

text \<open>What the processor finds in that state.\<close>

lemma length_busy: "length (busy_gdt E) = 5"
  by (simp add: busy_gdt_def Let_def)

lemma gdt_ready_loaded:
  assumes "gdt_ready E k"
  shows "1 < length (loaded_gdt E k)" "is_code_segment (loaded_gdt E k ! 1)"
    "system_base (loaded_gdt E k ! 3) (loaded_gdt E k ! 4) = static_addr E ''TSS''" "4 < length (loaded_gdt E k)"
proof -
  have l: "loaded_gdt E k = busy_gdt E"
    using assms length_busy by (simp add: gdt_ready_def loaded_gdt_def gdt_limit) (simp add: table_descriptor_new_def)
  show "1 < length (loaded_gdt E k)" "4 < length (loaded_gdt E k)" unfolding l by (simp_all add: length_busy)
  show "is_code_segment (loaded_gdt E k ! 1)" unfolding l by (simp add: busy_gdt_def gdt_entries_eq code_segment_new)
  show "system_base (loaded_gdt E k ! 3) (loaded_gdt E k ! 4) = static_addr E ''TSS''"
    unfolding l using new_tss_base [of "static_addr E ''TSS''"] by (simp add: busy_gdt_def system_base_busy gdt_entries_eq)
qed

lemma emergency_stack: "tss_ist (emergency_tss E) ! 0 = static_addr E ''STACK'' + 2048"
  by (simp add: emergency_tss_def tss_default_def STACK_SIZE_def)

text \<open>
  With neither static initialised before, setting up the task state segment, loading the
  descriptor table and loading the task register all succeed. Afterwards interrupts are disabled, the code
  segment register holds the kernel's code segment, which is a present 64 bit one, the processor finds
  the task state segment at its static's address, and its first interrupt stack is the end of the emergency stack.
\<close>

theorem gdt_startup:
  fixes k :: "'a cpu_scheme"
  assumes "il_state (GDT k) = UNINIT" and "il_state (TSS k) = UNINIT"
  shows "\<exists>k1 k2 k3. setup_tss E k = (ExOk, k1) \<and> load_gdt E k1 = Done (ExOk, k2) \<and> load_tss E k2 = Done (ExOk, k3)
    \<and> GDT_INIT k3 \<and> \<not> ints_on k3 \<and> unat (cs_reg k3) = 8 \<and> is_code_segment (loaded_gdt E k3 ! 1)
    \<and> task_reg k3 = 24 \<and> system_base (loaded_gdt E k3 ! 3) (loaded_gdt E k3 ! 4) = static_addr E ''TSS''
    \<and> (\<exists>tss. init_later_read (TSS k3) = Ok tss \<and> tss_ist tss ! 0 = static_addr E ''STACK'' + 2048)"
proof -
  let ?k1 = "k\<lparr>TSS := \<lparr>il_cell = emergency_tss E, il_state = INIT\<rparr>\<rparr>"
  let ?k2 = "?k1\<lparr>ints_on := False, GDT := \<lparr>il_cell = gdt_entries (Some (static_addr E ''TSS'')), il_state = INIT\<rparr>,
     gdtr := table_descriptor_new (8 * GDT_ENTRIES) (static_addr E ''GDT''), cs_reg := 8, GDT_INIT := True\<rparr>"
  let ?k3 = "?k2\<lparr>task_reg := 24, GDT := \<lparr>il_cell = busy_gdt E, il_state = INIT\<rparr>\<rparr>"
  have "setup_tss E k = (ExOk, ?k1)" using assms(2) by (rule setup_tss_fresh)
  moreover have "load_gdt E ?k1 = Done (ExOk, ?k2)" using load_gdt_fresh [of ?k1 E] assms(1) by (simp add: init_later_read_def)
  moreover have "load_tss E ?k2 = Done (ExOk, ?k3)" by (rule load_tss_loaded) simp_all
  moreover have r: "gdt_ready E ?k3" by (simp add: gdt_ready_def init_later_read_def)
  moreover have "init_later_read (TSS ?k3) = Ok (emergency_tss E)" by (simp add: init_later_read_def)
  moreover note gdt_ready_loaded(1-3) [OF r] emergency_stack
  ultimately show ?thesis by (intro exI [of _ ?k1] exI [of _ ?k2] exI [of _ ?k3]) auto
qed

definition initial_cpu :: cpu where
  "initial_cpu = fsk.extend initial_fsk \<lparr>cs_reg = 0x8, gdtr = table_descriptor_invalid, idtr = table_descriptor_invalid, task_reg = 0,
     GDT = init_later_uninit [], TSS = init_later_uninit tss_default\<rparr>"

lemma initial_cpu_uninit: "il_state (GDT initial_cpu) = UNINIT" "il_state (TSS initial_cpu) = UNINIT"
  by (simp_all add: initial_cpu_def fsk.extend_def init_later_uninit_def)

theorem gdt_startup_witness:
  "\<exists>k1 k2 k3. setup_tss sample_env initial_cpu = (ExOk, k1) \<and> load_gdt sample_env k1 = Done (ExOk, k2)
     \<and> load_tss sample_env k2 = Done (ExOk, k3) \<and> task_reg k3 = 24"
  using gdt_startup [OF initial_cpu_uninit, of sample_env] by blast

text \<open>
  Loading the task register checks only that the descriptor table was loaded, not that the table has a task state
  segment: if its set up failed, the table is loaded without one and the load raises an exception.
\<close>

theorem load_tss_faults_without_tss:
  fixes k :: "'a cpu_scheme"
  assumes "il_state (GDT k) = UNINIT" and "il_state (TSS k) \<noteq> INIT"
  shows "\<exists>k'. load_gdt E k = Done (ExOk, k') \<and> load_tss E k' = Panic"
proof -
  have r: "init_later_read (TSS k) = Err (InitError (il_state (TSS k)))" using assms(2) by (simp add: init_later_read_def)
  note g = load_gdt_fresh [OF assms(1), of E, unfolded r, simplified]
  then show ?thesis
    by (simp add: load_tss_def ltr_def Let_def loaded_gdt_def TSS_SEGMENT_OFFSET_def table_descriptor_new_def GDT_ENTRIES_def
        gdt_entries_eq null_not_tss)
qed

theorem load_tss_faults_without_tss_witness:
  "\<exists>k'. load_gdt sample_env initial_cpu = Done (ExOk, k') \<and> load_tss sample_env k' = Panic"
  by (rule load_tss_faults_without_tss) (simp_all add: initial_cpu_uninit il_state_defs)

end
