(* ===== verification/Idt.thy ===== *)
theory Idt
  imports Gdt Screen
begin

text \<open>
  kernel/src/interrupts/idt.rs and the table of kernel/src/interrupts.rs: the gates of the
  interrupt descriptor table, how the processor finds a handler through them, and what the
  exception handlers print. The hardware interrupt handlers themselves are in the theory of the
  interrupts.
\<close>

section \<open>Gates\<close>

record interrupt_descriptor =
  id_offset_low :: u16
  id_selector :: u16
  id_ist :: u8
  id_attributes :: u8
  id_offset_middle :: u16
  id_offset_high :: u32
  id_reserved :: u32

type_synonym idt = "interrupt_descriptor list"

definition interrupt_descriptor_default :: interrupt_descriptor where
  "interrupt_descriptor_default = \<lparr>id_offset_low = 0, id_selector = 0, id_ist = 0, id_attributes = 0, id_offset_middle = 0,
     id_offset_high = 0, id_reserved = 0\<rparr>"

definition interrupt_descriptor_new :: "u16 \<Rightarrow> u64 \<Rightarrow> u8 \<Rightarrow> interrupt_descriptor" where
  "interrupt_descriptor_new cs offset_ptr ist =
     (let FLAGS = 0b10001111;
          ist = ist AND 0b111
      in \<lparr>id_offset_low = ucast offset_ptr, id_selector = cs, id_ist = ist, id_attributes = FLAGS,
          id_offset_middle = ucast (drop_bit 16 offset_ptr), id_offset_high = ucast (drop_bit 32 offset_ptr), id_reserved = 0\<rparr>)"

definition descriptor_ptr :: "interrupt_descriptor \<Rightarrow> u64" where
  "descriptor_ptr d =
     (let ptr = ucast (id_offset_low d);
          ptr = ptr OR push_bit 16 (ucast (id_offset_middle d))
      in ptr OR push_bit 32 (ucast (id_offset_high d)))"

text \<open>The functions whose addresses the table is filled with.\<close>

datatype handler =
    PanicNoError string | PanicWithCode string | ContWrapper u16 nat | DoubleFaultHandler
  | TimerHandler | KbdWrapper | FloppyHandler | RtcHandler | DummyHandler

fun handler_index :: "handler \<Rightarrow> nat" where
  "handler_index (PanicNoError c) = (if c = ''DIVIDE ERROR'' then 0 else if c = ''DEBUG'' then 1 else if c = ''NMI'' then 2
      else if c = ''OVERFLOW'' then 5 else 7)"
| "handler_index (ContWrapper n _) = unat n"
| "handler_index DoubleFaultHandler = 8"
| "handler_index (PanicWithCode c) = (if c = ''GP FAULT'' then 13 else 14)"
| "handler_index TimerHandler = 32"
| "handler_index KbdWrapper = 33"
| "handler_index FloppyHandler = 38"
| "handler_index DummyHandler = 39"
| "handler_index RtcHandler = 40"

definition handler_ptr :: "env \<Rightarrow> handler \<Rightarrow> u64" where
  "handler_ptr E h = handler_addr E (handler_index h)"

definition set_handler :: "env \<Rightarrow> u16 \<Rightarrow> nat \<Rightarrow> u8 option \<Rightarrow> handler \<Rightarrow> idt \<Rightarrow> idt run" where
  "set_handler E cs entry_id ist handler idt =
     (if length idt \<le> entry_id then Panic
      else Done (idt[entry_id := interrupt_descriptor_new cs (handler_ptr E handler) (case ist of None \<Rightarrow> 0 | Some i \<Rightarrow> i)]))"

text \<open>The calls of \<^verbatim>\<open>Idt::new\<close>, in order.\<close>

definition handler_table :: "(nat \<times> u8 option \<times> handler) list" where
  "handler_table =
     [(0, None, PanicNoError ''DIVIDE ERROR''),
      (1, None, PanicNoError ''DEBUG''),
      (2, None, PanicNoError ''NMI''),
      (3, None, ContWrapper 3 0),
      (5, None, PanicNoError ''OVERFLOW''),
      (6, None, ContWrapper 6 2),
      (7, None, PanicNoError ''DEVICE NOT AVAILABLE''),
      (8, Some 1, DoubleFaultHandler),
      (13, None, PanicWithCode ''GP FAULT''),
      (14, Some 1, PanicWithCode ''PAGE FAULT''),
      (IRQ_START + 0, None, TimerHandler),
      (IRQ_START + 1, None, KbdWrapper),
      (IRQ_START + 6, None, FloppyHandler),
      (IRQ_START + 7, None, DummyHandler),
      (IRQ_START + 8, None, RtcHandler),
      (IRQ_START + 15, None, DummyHandler)]"

fun set_handlers :: "env \<Rightarrow> u16 \<Rightarrow> (nat \<times> u8 option \<times> handler) list \<Rightarrow> idt \<Rightarrow> idt run" where
  "set_handlers E cs [] idt = Done idt"
| "set_handlers E cs ((i, ist, h) # rest) idt = andThen (set_handler E cs i ist h idt) (set_handlers E cs rest)"

definition idt_new :: "env \<Rightarrow> u16 \<Rightarrow> idt run" where
  "idt_new E cs = set_handlers E cs handler_table (replicate 256 interrupt_descriptor_default)"

section \<open>State\<close>

datatype err_code = Breakpoint | InvalidOpcode | Invalid

record icpu = cpu +
  IDT :: "idt init_later"
  ERR_CODE :: err_code

definition idt_register :: "'a icpu_scheme \<Rightarrow> table_descriptor" where
  "idt_register k = idtr k"

definition idt_load :: "env \<Rightarrow> 'a icpu_scheme \<Rightarrow> table_descriptor \<times> 'a icpu_scheme" where
  "idt_load E k =
     (let descriptor = table_descriptor_new (16 * 256) (static_addr E ''IDT'') in (descriptor, k\<lparr>idtr := descriptor\<rparr>))"

definition load_idt :: "env \<Rightarrow> 'a icpu_scheme \<Rightarrow> (load_register_error exit_code \<times> 'a icpu_scheme) run" where
  "load_idt E k =
     andThen (idt_new E (cs_register k))
       (\<lambda>new. let (r, c) = init_later_init new (IDT k);
                  k = k\<lparr>IDT := c\<rparr>
              in case r of
                   Inl e \<Rightarrow> Done (ExStop (LoadErr e), k)
                 | Inr idt \<Rightarrow>
                     let (loaded_idt, k) = idt_load E k
                     in if \<not> table_descriptor_eq (idt_register k) loaded_idt then Done (ExStop (StoreErr ''IDT''), k)
                        else Done (ExOk, k))"

section \<open>Delivery\<close>

text \<open>
  The gate the processor uses for a vector: present, an interrupt or trap gate (type 0Eh or 0Fh), inside the limit of the table the register
  points to, with the selector of a code segment of the loaded descriptor table. Without one the
  delivery fails.
\<close>

definition gate_of :: "env \<Rightarrow> 'a icpu_scheme \<Rightarrow> nat \<Rightarrow> interrupt_descriptor option" where
  "gate_of E k vec =
     (if td_offset (idtr k) = static_addr E ''IDT'' \<and> 16 * vec + 15 \<le> unat (td_size (idtr k)) \<and> vec < length (il_cell (IDT k))
         \<and> bit (id_attributes (il_cell (IDT k) ! vec)) 7 \<and> id_attributes (il_cell (IDT k) ! vec) AND 0x1F \<in> {0xE, 0xF}
      then Some (il_cell (IDT k) ! vec) else None)"

definition gate_code_segment :: "env \<Rightarrow> 'a icpu_scheme \<Rightarrow> interrupt_descriptor \<Rightarrow> bool" where
  "gate_code_segment E k d \<longleftrightarrow>
     (let i = unat (id_selector d) div 8 in i < length (loaded_gdt E k) \<and> is_code_segment (loaded_gdt E k ! i))"

text \<open>
  \<^verbatim>\<open>triple_fault\<close> loads an empty table and raises a software interrupt, which cannot be delivered; nor
  can the exceptions that follow, so the machine resets and the call does not return.
\<close>

definition triple_fault :: "env \<Rightarrow> 'a icpu_scheme \<Rightarrow> 'a icpu_scheme run" where
  "triple_fault E k =
     (let k = k\<lparr>idtr := table_descriptor_invalid\<rparr>
      in if gate_of E k 0x42 = None \<and> gate_of E k 13 = None \<and> gate_of E k 8 = None then Hang else Panic)"

section \<open>What the exception handlers print\<close>

record int_stack_frame =
  sf_ip :: u64
  sf_cs :: u64
  sf_flags :: u64
  sf_sp :: u64
  sf_ss :: u64

definition int_stack_frame_display :: "int_stack_frame \<Rightarrow> string" where
  "int_stack_frame_display s = ''Stack frame for 0x'' @ lhex_str (unat (sf_ip s)) @ '': flags: '' @ dec_str (unat (sf_flags s))
     @ nl_str @ ''      CS: '' @ lhex_str (unat (sf_cs s)) @ '' | SP: '' @ ptr_str 0 (sf_sp s) @ '' | SS: '' @ lhex_str (unat (sf_ss s))"

definition err_code_debug :: "err_code \<Rightarrow> string" where
  "err_code_debug e = (case e of Breakpoint \<Rightarrow> ''Breakpoint'' | InvalidOpcode \<Rightarrow> ''InvalidOpcode'' | Invalid \<Rightarrow> ''Invalid'')"

definition cont :: "int_stack_frame \<Rightarrow> 'a icpu_scheme \<Rightarrow> 'a icpu_scheme run" where
  "cont frame k =
     println LightRed (''An unexpected error occurred: '' @ err_code_debug (ERR_CODE k) @ '' at 0x'' @ lhex_str (unat (sf_ip frame))) k"

text \<open>
  \<^verbatim>\<open>cont_wrapper!\<close>: the handler prints the error and resumes the interrupted code \<open>inc\<close> bytes
  further on; the result is the new instruction pointer.
\<close>

definition cont_wrapper :: "u16 \<Rightarrow> nat \<Rightarrow> int_stack_frame \<Rightarrow> 'a icpu_scheme \<Rightarrow> (u64 \<times> 'a icpu_scheme) run" where
  "cont_wrapper errcode inc frame k =
     (let k = savestate k;
          k = k\<lparr>ERR_CODE := (if errcode = 3 then Breakpoint else if errcode = 6 then InvalidOpcode else Invalid)\<rparr>
      in andThen (cont frame k) (\<lambda>k. Done (sf_ip frame + of_nat inc, restore_state k)))"

definition bit_set :: "u64 \<Rightarrow> nat \<Rightarrow> bool" where
  "bit_set code b \<longleftrightarrow> code = code OR push_bit b 1"

definition pf_text :: "u64 \<Rightarrow> u64 \<Rightarrow> string" where
  "pf_text cr2 errcode =
     (let rw = (if bit_set errcode 1 then ''Wrote'' else ''Read'');
          cause = (if bit_set errcode 0 then ''Page-protection Violation'' else ''Non-present page'')
      in ''Errcode: '' @ rw @ '' '' @ cause @ '' ('' @ bin_str (unat errcode) @ '')'' @ nl_str @ ''CR2: 0x'' @ lhex_str (unat cr2))"

definition pf_errcode :: "u64 \<Rightarrow> u64 \<Rightarrow> 'a vga_scheme \<Rightarrow> 'a vga_scheme run" where
  "pf_errcode cr2 errcode = println White (pf_text cr2 errcode)"

definition gp_gate :: "u64 \<Rightarrow> string" where
  "gp_gate errcode =
     (let sel = drop_bit 1 errcode AND 0b11 in if sel = 0 then ''GDT'' else if sel = 0b10 then ''LDT'' else ''IDT'')"

definition gp_text :: "u64 \<Rightarrow> string" where
  "gp_text errcode =
     (let ext = (if bit_set errcode 0 then ''External'' else ''Non-external'');
          null = (if errcode AND NOT 1 = 0 then '' null'' else '''');
          idx = drop_bit 3 errcode
      in ''Errcode: '' @ ext @ null @ '' in '' @ gp_gate errcode @ '' ('' @ bin_str (unat errcode) @ '')'' @ nl_str
         @ ''Index: '' @ dec_str (unat idx))"

definition gp_errcode :: "u64 \<Rightarrow> 'a vga_scheme \<Rightarrow> 'a vga_scheme run" where
  "gp_errcode errcode = println White (gp_text errcode)"

definition print_df_info :: "int_stack_frame \<Rightarrow> 'a icpu_scheme \<Rightarrow> 'a icpu_scheme run" where
  "print_df_info frame k =
     (let k = k\<lparr>BUFFER_HELD := False\<rparr>;
          k = clear k
      in println White (''Whoops... looks like a double fault!'' @ nl_str @ nl_str @ ''Here's some info about it:'' @ nl_str
           @ int_stack_frame_display frame @ nl_str @ ''Since double faults are pretty nasty, sunflower can't''
           @ ''trust any kernel services to get keyboard input or wait, so you'll have to restart your device manually'') k)"

text \<open>The double fault handler disables interrupts, prints and hangs in the resulting state.\<close>

definition double_fault_handler :: "int_stack_frame \<Rightarrow> 'a icpu_scheme \<Rightarrow> 'a icpu_scheme run" where
  "double_fault_handler frame k = print_df_info frame (cli k)"

section \<open>Properties\<close>

lemma descriptor_ptr_new: "descriptor_ptr (interrupt_descriptor_new cs addr ist) = addr"
proof -
  have "ucast (ucast addr :: u16) OR push_bit 16 (ucast (ucast (drop_bit 16 addr) :: u16))
      OR push_bit 32 (ucast (ucast (drop_bit 32 addr) :: u32)) = (addr :: u64)" (is "?w = _")
  proof (rule bit_word_eqI)
    fix n assume "n < LENGTH(64)"
    then consider "n < 16" | "16 \<le> n" "n < 32" | "32 \<le> n" "n < 64" by fastforce
    then show "bit ?w n = bit addr n" by cases (auto simp: bit_simps)
  qed
  then show ?thesis by (simp add: interrupt_descriptor_new_def descriptor_ptr_def Let_def or.assoc)
qed

text \<open>
  A gate made for a handler at any address points to that address, has the code segment of
  its creation, keeps the low three bits of the stack number, is present and is a trap gate (type 15,
  where the comment says interrupt gate, type 14), so the processor leaves interrupts enabled.
\<close>

theorem gate_round_trip:
  "let d = interrupt_descriptor_new cs addr ist
   in descriptor_ptr d = addr \<and> id_selector d = cs \<and> unat (id_ist d) = unat ist mod 8
    \<and> bit (id_attributes d) 7 \<and> unat (id_attributes d) mod 16 = 15"
proof -
  have "ist AND 0b111 = ist mod 8"
    using take_bit_eq_mod [of 3 ist] take_bit_eq_mask [of 3 ist] by (simp add: mask_eq_exp_minus_1)
  then show ?thesis
    by (simp add: Let_def descriptor_ptr_new) (simp add: interrupt_descriptor_new_def Let_def unat_mod bit_simps)
qed

text \<open>The entry the table's calls leave at an index.\<close>

definition installed :: "env \<Rightarrow> u16 \<Rightarrow> u8 option \<times> handler \<Rightarrow> interrupt_descriptor" where
  "installed E cs = (\<lambda>(ist, h). interrupt_descriptor_new cs (handler_ptr E h) (case ist of None \<Rightarrow> 0 | Some i \<Rightarrow> i))"

lemma set_handlers_table:
  "distinct (map fst tab) \<Longrightarrow> \<forall>i \<in> set (map fst tab). i < length idt \<Longrightarrow>
   \<exists>idt'. set_handlers E cs tab idt = Done idt' \<and> length idt' = length idt
     \<and> (\<forall>i < length idt. idt' ! i = (case map_of tab i of None \<Rightarrow> idt ! i | Some p \<Rightarrow> installed E cs p))"
proof (induction tab arbitrary: idt)
  case (Cons x tab)
  obtain i ist h where x: "x = (i, ist, h)" by (cases x)
  let ?d = "idt[i := installed E cs (ist, h)]"
  have i: "i < length idt" "i \<notin> set (map fst tab)" using Cons.prems by (auto simp: x)
  obtain idt' where idt': "set_handlers E cs tab ?d = Done idt'" "length idt' = length idt"
    "\<forall>j < length idt. idt' ! j = (case map_of tab j of None \<Rightarrow> ?d ! j | Some p \<Rightarrow> installed E cs p)"
    using Cons.IH [of ?d] Cons.prems by auto
  have "set_handlers E cs (x # tab) idt = Done idt'"
    using i(1) idt'(1) by (simp add: x set_handler_def installed_def)
  moreover have "idt' ! j = (case map_of (x # tab) j of None \<Rightarrow> idt ! j | Some p \<Rightarrow> installed E cs p)" if "j < length idt" for j
  proof (cases "j = i")
    case True
    then have "map_of tab j = None" using i(2) by (simp add: map_of_eq_None_iff)
    then show ?thesis using that idt'(3) True by (simp add: x)
  next
    case False
    then show ?thesis using that idt'(3) by (cases "map_of tab j") (simp_all add: x)
  qed
  ultimately show ?case using idt'(2) by blast
qed simp

lemma handler_table_ok: "distinct (map fst handler_table)" "\<forall>i \<in> set (map fst handler_table). i < 256"
  by (simp_all add: handler_table_def IRQ_START_def)

lemma idt_new_table:
  "\<exists>idt. idt_new E cs = Done idt \<and> length idt = 256
     \<and> (\<forall>i < 256. idt ! i = (case map_of handler_table i of None \<Rightarrow> interrupt_descriptor_default | Some p \<Rightarrow> installed E cs p))"
  using set_handlers_table [OF handler_table_ok(1), of "replicate 256 interrupt_descriptor_default" E cs] handler_table_ok(2)
  by (auto simp: idt_new_def split: option.split)

lemma installed_present: "bit (id_attributes (installed E cs p)) 7" "id_attributes (installed E cs p) AND 0x1F \<in> {0xE, 0xF}"
  by (simp_all add: installed_def interrupt_descriptor_new_def split_beta bit_simps)

lemma handler_table_None: "256 \<le> i \<Longrightarrow> map_of handler_table i = None"
  using handler_table_ok(2) by (fastforce simp: map_of_eq_None_iff)

lemma gate_of_table:
  assumes "td_offset (idtr k) = static_addr E ''IDT''" and "td_size (idtr k) = 4095" and "length (il_cell (IDT k)) = 256"
    and "\<forall>i < 256. il_cell (IDT k) ! i = (case map_of handler_table i of None \<Rightarrow> interrupt_descriptor_default | Some p \<Rightarrow> installed E cs p)"
  shows "gate_of E k vec = map_option (installed E cs) (map_of handler_table vec)"
proof (cases "vec < 256")
  case True
  have "\<not> bit (id_attributes interrupt_descriptor_default) 7" by (simp add: interrupt_descriptor_default_def)
  then show ?thesis using assms True by (auto simp: gate_of_def installed_present [simplified] split: option.split)
qed (use handler_table_None in \<open>simp add: gate_of_def assms(3)\<close>)

text \<open>The gates of the table, made with the code segment \<open>cs\<close>.\<close>

definition idt_ready :: "env \<Rightarrow> u16 \<Rightarrow> 'a icpu_scheme \<Rightarrow> bool" where
  "idt_ready E cs k \<longleftrightarrow> (\<forall>vec. gate_of E k vec = map_option (installed E cs) (map_of handler_table vec))"

lemma load_idt_fresh:
  fixes k :: "'a icpu_scheme"
  assumes "il_state (IDT k) = UNINIT"
  shows "\<exists>c d. load_idt E k = Done (ExOk, k\<lparr>IDT := c, idtr := d\<rparr>) \<and> idt_ready E (cs_reg k) (k\<lparr>IDT := c, idtr := d\<rparr>)"
proof -
  obtain idt where idt: "idt_new E (cs_reg k) = Done idt" "length idt = 256"
    "\<forall>i < 256. idt ! i = (case map_of handler_table i of None \<Rightarrow> interrupt_descriptor_default | Some p \<Rightarrow> installed E (cs_reg k) p)"
    using idt_new_table by blast
  have c: "(IDT k)\<lparr>il_state := s1, il_cell := idt, il_state := s2\<rparr> = \<lparr>il_cell = idt, il_state = s2\<rparr>" for s1 s2
    by (cases "IDT k") simp
  let ?k' = "k\<lparr>IDT := \<lparr>il_cell = idt, il_state = INIT\<rparr>, idtr := table_descriptor_new (16 * 256) (static_addr E ''IDT'')\<rparr>"
  have "load_idt E k = Done (ExOk, ?k')"
    using assms idt(1) by (simp add: load_idt_def cs_register_def init_later_init_def Let_def c idt_load_def idt_register_def
        table_descriptor_eq_def)
  moreover have "gate_of E ?k' vec = map_option (installed E (cs_reg k)) (map_of handler_table vec)" for vec
    by (rule gate_of_table) (use idt in \<open>simp_all add: table_descriptor_new_def\<close>)
  ultimately show ?thesis unfolding idt_ready_def by blast
qed

lemma installed_gate:
  "descriptor_ptr (installed E cs (ist, h)) = handler_ptr E h" "id_selector (installed E cs (ist, h)) = cs"
  "id_ist (installed E cs (ist, h)) = (case ist of None \<Rightarrow> 0 | Some i \<Rightarrow> i) AND 0b111"
  by (simp_all add: installed_def descriptor_ptr_new) (simp_all add: interrupt_descriptor_new_def Let_def)

text \<open>
  C37: Loading the interrupt table for the first time succeeds, and from then on the processor
  finds for each vector exactly the handler the kernel lists for it, with the code segment of the moment of loading, and no
  handler for any other vector.
\<close>

theorem idt_delivers:
  fixes k :: "'a icpu_scheme"
  assumes "il_state (IDT k) = UNINIT"
  shows "\<exists>k'. load_idt E k = Done (ExOk, k') \<and>
    (\<forall>vec. case map_of handler_table vec of
        None \<Rightarrow> gate_of E k' vec = None
      | Some (ist, h) \<Rightarrow> (\<exists>d. gate_of E k' vec = Some d \<and> descriptor_ptr d = handler_ptr E h \<and> id_selector d = cs_reg k))"
proof -
  obtain c d where "load_idt E k = Done (ExOk, k\<lparr>IDT := c, idtr := d\<rparr>)" "idt_ready E (cs_reg k) (k\<lparr>IDT := c, idtr := d\<rparr>)"
    using load_idt_fresh [OF assms] by blast
  then show ?thesis unfolding idt_ready_def
    by (intro exI [of _ "k\<lparr>IDT := c, idtr := d\<rparr>"]) (auto simp: installed_gate split: option.split)
qed

definition initial_icpu :: icpu where
  "initial_icpu = cpu.extend initial_cpu \<lparr>IDT = init_later_uninit [], ERR_CODE = Invalid\<rparr>"

lemma initial_icpu_uninit: "il_state (IDT initial_icpu) = UNINIT"
  by (simp add: initial_icpu_def cpu.extend_def init_later_uninit_def)

theorem idt_delivers_witness:
  "\<exists>k'. load_idt sample_env initial_icpu = Done (ExOk, k') \<and> gate_of sample_env k' 4 = None
     \<and> (\<exists>d. gate_of sample_env k' 14 = Some d \<and> descriptor_ptr d = handler_ptr sample_env (PanicWithCode ''PAGE FAULT''))"
proof -
  have "map_of handler_table 4 = None" "map_of handler_table 14 = Some (Some 1, PanicWithCode ''PAGE FAULT'')"
    by (simp_all add: handler_table_def IRQ_START_def)
  note tab = this
  obtain k' where k': "load_idt sample_env initial_icpu = Done (ExOk, k')"
    and all: "\<And>vec. case map_of handler_table vec of
        None \<Rightarrow> gate_of sample_env k' vec = None
      | Some (ist, h) \<Rightarrow> (\<exists>d. gate_of sample_env k' vec = Some d \<and> descriptor_ptr d = handler_ptr sample_env h \<and> id_selector d = cs_reg initial_icpu)"
    using idt_delivers [OF initial_icpu_uninit, of sample_env] by blast
  show ?thesis using k' all [of 4] all [of 14] by (auto simp: tab)
qed

text \<open>The table a selector error code refers to: bit 1 says the interrupt table, else bit 2 the local one.\<close>

lemma bit_set_iff: "n < 64 \<Longrightarrow> bit_set code n = bit code n"
  using or_exp_same [of n code] by (simp add: bit_set_def push_bit_of_1)

lemma gp_gate_table:
  "gp_gate errcode = (if bit errcode 1 then ''IDT'' else if bit errcode 2 then ''LDT'' else ''GDT'')"
proof -
  let ?s = "drop_bit 1 errcode AND 0b11 :: u64"
  have m: "?s = take_bit 2 (drop_bit 1 errcode)" using take_bit_eq_mask [of 2 "drop_bit 1 errcode"] by (simp add: mask_eq_exp_minus_1)
  have "take_bit 2 w = of_bool (bit w 0) + 2 * of_bool (bit w 1)" for w :: u64
    by (simp add: take_bit_Suc bit_Suc bit_0 mod2_eq_if numeral_2_eq_2)
  from this [of "drop_bit 1 errcode"]
  have "?s = of_bool (bit errcode 1) + 2 * of_bool (bit errcode 2)"
    unfolding m by (simp add: bit_drop_bit_eq numeral_2_eq_2)
  then show ?thesis by (auto simp: gp_gate_def Let_def)
qed

text \<open>
  The continuing exceptions: the handler prints one line without panicking, leaves everything
  outside the screen as it was, the interrupt depth included, and the interrupted code resumes after the given
  number of bytes: behind the two bytes of \<^verbatim>\<open>ud2\<close>, and right where a breakpoint returns.
\<close>

theorem cont_exceptions_resume:
  fixes k :: "'a icpu_scheme"
  assumes "vga_ok k"
  shows "\<exists>k'. cont_wrapper errcode inc frame k = Done (sf_ip frame + of_nat inc, k') \<and> vga_ok k'
    \<and> machine_flags k' = machine_flags k \<and> idtr k' = idtr k \<and> IDT k' = IDT k \<and> TIME k' = TIME k"
proof -
  let ?e = "if errcode = 3 then Breakpoint else if errcode = 6 then InvalidOpcode else Invalid"
  let ?k = "(savestate k)\<lparr>ERR_CODE := ?e\<rparr>"
  have "vga_ok ?k" using assms by (simp add: savestate_def vga_ok_def)
  then obtain k1 where k1: "cont frame ?k = Done k1" "screen_step ?k k1"
    unfolding cont_def using println_screen by blast
  have "vga.more k1 = vga.more ?k" using k1(2) by (simp add: screen_step_def)
  then have "idtr k1 = idtr k" "IDT k1 = IDT k" "TIME k1 = TIME k"
    by (cases k1; cases k; simp add: savestate_def)+
  moreover have "machine_flags k1 = machine_flags ?k" "vga_ok k1" using k1(2) by (simp_all add: screen_step_def)
  ultimately show ?thesis using k1(1)
    by (simp add: cont_wrapper_def Let_def restore_state_def savestate_def machine_flags_def vga_ok_def)
qed

lemma initial_icpu_ok: "vga_ok initial_icpu"
  using running_kbd_ok
  by (simp add: initial_icpu_def initial_cpu_def initial_fsk_def cpu.extend_def fsk.extend_def kbd.extend_def vga_ok_def
      running_kbd_def initial_kbd_def based_fdc_def initial_fdc_def initial_clock_def cleared_vga_def fdc.extend_def clock.extend_def
      vga.extend_def)

theorem cont_exceptions_resume_witness:
  "\<exists>k'. cont_wrapper 6 2 \<lparr>sf_ip = 0x1000, sf_cs = 8, sf_flags = 2, sf_sp = 0, sf_ss = 0\<rparr> initial_icpu = Done (0x1002, k')"
  using cont_exceptions_resume [OF initial_icpu_ok, of 6 2 "\<lparr>sf_ip = 0x1000, sf_cs = 8, sf_flags = 2, sf_sp = 0, sf_ss = 0\<rparr>"]
  by auto

end
