(* ===== verification/Speaker.thy ===== *)
theory Speaker
  imports Clock
begin

text \<open>
  kernel/src/speaker.rs: playing tones through channel 2 of the timer and the speaker port.
\<close>

section \<open>Operations\<close>

definition PLAY_BITS :: u8 where "PLAY_BITS = 0b11"

definition play :: "env \<Rightarrow> u32 \<Rightarrow> 'a kbd_scheme \<Rightarrow> 'a kbd_scheme run" where
  "play E freq k =
     (if \<not> PIT_INIT k then Done k
      else if freq = 0 then Panic
      else let freq = (ucast PIT_BASE_FREQ :: u32) div freq;
               k = writeb (port_addr PITCmd) 0b10110110 k;
               k = writeb (port_addr PITChannel2) (ucast freq) k;
               k = writeb (port_addr PITChannel2) (ucast (drop_bit 8 freq)) k;
               (val, k) = readb E (port_addr PCSpeaker) k
           in Done (if val \<noteq> val OR PLAY_BITS then writeb (port_addr PCSpeaker) (val OR PLAY_BITS) k else k))"

definition stop :: "env \<Rightarrow> 'a kbd_scheme \<Rightarrow> 'a kbd_scheme" where
  "stop E k =
     (let (val, k) = readb E (port_addr PCSpeaker) k
      in writeb (port_addr PCSpeaker) (val AND NOT PLAY_BITS) k)"

definition PULSE_LENGTH :: u64 where "PULSE_LENGTH = 6"

fun pulses :: "env \<Rightarrow> nat \<Rightarrow> u32 \<Rightarrow> 'a kbd_scheme \<Rightarrow> 'a kbd_scheme run" where
  "pulses E 0 freq k = Done k"
| "pulses E (Suc n) freq k =
     andThen (play E freq k) (\<lambda>k. andThen (wait E PULSE_LENGTH k)
       (\<lambda>k. andThen (wait E PULSE_LENGTH (stop E k)) (pulses E n freq)))"

definition play_special :: "env \<Rightarrow> u32 \<Rightarrow> u64 \<Rightarrow> bool \<Rightarrow> 'a kbd_scheme \<Rightarrow> 'a kbd_scheme run" where
  "play_special E freq millis rep k =
     (let ticks = millis div 13
      in if \<not> PIT_INIT k then Done k
         else if rep then pulses E (unat (ticks div (PULSE_LENGTH * 2))) freq k
         else andThen (play E freq k) (\<lambda>k. andThen (wait E ticks k) (\<lambda>k. Done (stop E k))))"

text \<open>A tune: frequency, milliseconds and whether the tone is pulsed.\<close>

fun play_tune :: "env \<Rightarrow> (u32 \<times> u64 \<times> bool) list \<Rightarrow> 'a kbd_scheme \<Rightarrow> 'a kbd_scheme run" where
  "play_tune E [] k = Done k"
| "play_tune E ((freq, millis, rep) # rest) k =
     andThen (play_special E freq millis rep k) (play_tune E rest)"

definition play_chime :: "env \<Rightarrow> 'a kbd_scheme \<Rightarrow> 'a kbd_scheme run" where
  "play_chime E = play_tune E [(600, 350, False), (620, 450, False), (600, 350, False), (780, 900, False)]"

definition song_rising :: "(u32 \<times> u64 \<times> bool) list" where
  "song_rising = [(400, 300, False), (430, 300, False), (450, 300, False), (500, 250, False), (550, 250, False)]"

definition song_beeping :: "(u32 \<times> u64 \<times> bool) list" where
  "song_beeping = [(450, 100, False), (400, 150, False), (500, 250, False), (550, 250, False)]"

definition play_song :: "env \<Rightarrow> 'a kbd_scheme \<Rightarrow> 'a kbd_scheme run" where
  "play_song E = play_tune E
     (song_rising @ song_beeping
      @ [(600, 100, False), (620, 100, False), (600, 100, False), (620, 100, False),
         (600, 100, False), (620, 100, False), (500, 100, False), (480, 100, False)]
      @ song_beeping @ song_rising @ song_beeping
      @ [(600, 900, True), (500, 800, False), (600, 900, True)]
      @ [(550, 100, False), (540, 100, False), (530, 100, False), (520, 100, False), (510, 100, False),
         (500, 100, False), (490, 100, False), (480, 100, False), (470, 100, False), (460, 100, False),
         (450, 1350, False)])"

section \<open>Playing a tone\<close>

text \<open>
  playing a frequency of at least 19 Hz programs channel 2 with the base frequency divided by
  it, whose low and high byte are written in this order and together are the divisor (nothing is
  cut off), and the speaker port is left with both play bits set: it is written only when they were not. A
  frequency of zero panics.
\<close>

theorem play_programs_divisor:
  fixes k :: "'a kbd_scheme"
  assumes "PIT_INIT k"
  shows "play E 0 k = Panic
    \<and> (19 \<le> freq \<longrightarrow>
       (let d = 1193180 div unat freq; l = (of_nat d :: u8); h = (of_nat (d div 256) :: u8);
            log = delayed_outs [(0x43, 0xB6), (0x42, l), (0x42, h)] @ io_log k;
            v = port_in E (Out 0x80 0 # log) 0x61;
            log = Inp 0x61 v # Out 0x80 0 # log
        in d < 2 ^ 16 \<and> unat l + 256 * unat h = d
         \<and> play E freq k = Done (k\<lparr>io_log := (if bit v 0 \<and> bit v 1 then log
                                             else Out 0x61 (v OR 0b11) # Out 0x80 0 # log)\<rparr>)))"
proof -
  have "play E freq k = Done (k\<lparr>io_log := (if bit v 0 \<and> bit v 1 then log
           else Out 0x61 (v OR 0b11) # Out 0x80 0 # log)\<rparr>) \<and> d < 2 ^ 16 \<and> unat l + 256 * unat h = d"
    if "19 \<le> freq" and d: "d = 1193180 div unat freq" and l: "l = (of_nat d :: u8)" and h: "h = (of_nat (d div 256) :: u8)"
      and log0: "log0 = delayed_outs [(0x43, 0xB6), (0x42, l), (0x42, h)] @ io_log k"
      and v: "v = port_in E (Out 0x80 0 # log0) 0x61" and log: "log = Inp 0x61 v # Out 0x80 0 # log0"
    for d l h log0 v log
  proof -
    have f: "19 \<le> unat freq" using that(1) by (simp add: word_le_nat_alt)
    then have "d \<le> 1193180 div 19" unfolding d by (intro div_le_mono2) simp_all
    then have d16: "d < 65536" by simp
    define q where "q = (ucast PIT_BASE_FREQ :: u32) div freq"
    have q: "unat q = d" by (simp add: q_def d unat_div PIT_BASE_FREQ_def)
    then have qd: "q = of_nat d" by (simp flip: q)
    have lo: "ucast q = l" using d16 by (simp add: l qd word_unat_eq_iff unat_of_nat unsigned_ucast_eq take_bit_eq_mod)
    have hi: "ucast (drop_bit 8 q) = h"
      using d16 q by (simp add: h word_unat_eq_iff unat_of_nat unsigned_ucast_eq take_bit_eq_mod unsigned_drop_bit_eq drop_bit_eq_div unat_div)
    have sum: "unat l + 256 * unat h = d"
      using d16 by (simp add: l h unat_of_nat)
    have nz: "freq \<noteq> 0" using f by auto
    have pb: "val = val OR 3 \<longleftrightarrow> bit val 0 \<and> bit val (Suc 0)" for val :: u8
      by (rule u8_exhaustive [of _ val]) code_simp
    show ?thesis
      using nz assms sum d16 unfolding play_def q_def [symmetric]
      by (simp add: writeb_eq readb_eq Let_def lo hi v log log0 pb PLAY_BITS_def)
  qed
  then show ?thesis using assms by (simp add: play_def Let_def)
qed

lemma running_kbd_pit: "PIT_INIT running_kbd" "ints_on running_kbd" "TIME running_kbd = 0"
  by (simp_all add: running_kbd_def initial_kbd_def based_fdc_def initial_fdc_def initial_clock_def
      fdc.extend_def clock.extend_def vga.extend_def)

theorem play_programs_divisor_witness:
  "play sample_env 0 running_kbd = Panic
   \<and> (\<exists>k'. play sample_env 600 running_kbd = Done k' \<and> (Out 0x42 0xC4) \<in> set (io_log k'))"
  using play_programs_divisor [OF running_kbd_pit(1), of sample_env 600] by (auto simp: Let_def)

section \<open>Playing for a while\<close>

lemma play_frame:
  fixes k :: "'a kbd_scheme"
  assumes "freq \<noteq> 0"
  shows "\<exists>log. play E freq k = Done (k\<lparr>io_log := log\<rparr>)"
proof (cases "PIT_INIT k")
  case False
  then have "play E freq k = Done (k\<lparr>io_log := io_log k\<rparr>)" by (simp add: play_def)
  then show ?thesis ..
next
  case True
  then show ?thesis using assms by (auto simp: play_def writeb_eq readb_eq Let_def intro!: exI)
qed

lemma log_undisturbed [simp]: "undisturbed k (k\<lparr>io_log := log\<rparr>)"
  by (simp add: undisturbed_def)

lemma stop_eq: "stop E k = (let v = port_in E (Out 0x80 0 # io_log k) 0x61 in
    k\<lparr>io_log := Out 0x61 (v AND NOT PLAY_BITS) # Out 0x80 0 # Inp 0x61 v # Out 0x80 0 # io_log k\<rparr>)"
  by (simp add: stop_def writeb_eq readb_eq Let_def)

text \<open>The last thing sent to the speaker switched it off.\<close>

definition speaker_off :: "'a kbd_scheme \<Rightarrow> bool" where
  "speaker_off k \<longleftrightarrow> (\<exists>v log. io_log k = Out 0x61 v # log \<and> \<not> bit v 0 \<and> \<not> bit v 1)"

lemma stop_off: "speaker_off (stop E k)"
  by (simp add: speaker_off_def stop_eq Let_def PLAY_BITS_def bit_simps)

lemma tone_duration:
  fixes k :: "'a kbd_scheme"
  assumes "timer_latched E" and "timer_wakes E" and "ints_on k" and "PIT_INIT k" and "freq \<noteq> 0"
    and "unat (millis div 13) + 1 < fuel E" and "unat (TIME k) + unat (millis div 13) + 5 < 2 ^ 64"
  shows "\<exists>k'. play_special E freq millis False k = Done k' \<and> undisturbed k k' \<and> speaker_off k'
    \<and> unat (TIME k) + unat (millis div 13) + 1 \<le> unat (TIME k')
    \<and> unat (TIME k') \<le> unat (TIME k) + unat (millis div 13) + 3"
proof -
  obtain log where p: "play E freq k = Done (k\<lparr>io_log := log\<rparr>)" using play_frame [OF assms(5)] by blast
  let ?k1 = "k\<lparr>io_log := log\<rparr>"
  obtain k2 where k2: "wait E (millis div 13) ?k1 = Done k2" "undisturbed ?k1 k2"
    "unat (TIME k) + unat (millis div 13) + 1 \<le> unat (TIME k2)"
    "unat (TIME k2) \<le> unat (TIME k) + unat (millis div 13) + 3"
    using wait_duration [of E ?k1 "millis div 13"] assms by auto
  have "undisturbed k k2" using k2(2) log_undisturbed by (rule undisturbed_trans [rotated])
  then have "undisturbed k (stop E k2)" using log_undisturbed by (auto simp: stop_eq Let_def intro: undisturbed_trans)
  moreover have "TIME (stop E k2) = TIME k2" by (simp add: stop_eq Let_def)
  moreover have "play_special E freq millis False k = Done (stop E k2)"
    using p k2(1) assms(4) by (simp add: play_special_def Let_def)
  ultimately show ?thesis using stop_off k2(3,4) by auto
qed

lemma tone_steps:
  fixes k :: "'a kbd_scheme"
  assumes "timer_latched E" and "timer_wakes E" and "\<forall>(f, m, r) \<in> set tune. f \<noteq> 0 \<and> \<not> r \<and> unat (m div 13) + 1 < fuel E"
    and "ints_on k" and "PIT_INIT k"
    and "unat (TIME k) + sum_list (map (\<lambda>(f, m, r). unat (m div 13) + 3) tune) + 5 < 2 ^ 64"
  shows "\<exists>k'. play_tune E tune k = Done k' \<and> undisturbed k k' \<and> (tune \<noteq> [] \<longrightarrow> speaker_off k')
    \<and> unat (TIME k) + sum_list (map (\<lambda>(f, m, r). unat (m div 13) + 1) tune) \<le> unat (TIME k')
    \<and> unat (TIME k') \<le> unat (TIME k) + sum_list (map (\<lambda>(f, m, r). unat (m div 13) + 3) tune)"
  using assms(3-6)
proof (induction tune arbitrary: k)
  case (Cons x tune)
  obtain f m r where x: "x = (f, m, r)" by (cases x)
  let ?t = "unat (m div 13)"
  obtain k1 where k1: "play_special E f m False k = Done k1" "undisturbed k k1" "speaker_off k1"
    "unat (TIME k) + ?t + 1 \<le> unat (TIME k1)" "unat (TIME k1) \<le> unat (TIME k) + ?t + 3"
    using tone_duration [OF assms(1,2) Cons.prems(2,3), of f m] Cons.prems(1,4) x by auto
  have "ints_on k1" "PIT_INIT k1" using k1(2) Cons.prems(2,3) by (simp_all add: undisturbed_def)
  with Cons.IH [of k1] Cons.prems(1,4) k1(5) x obtain k' where
    "play_tune E tune k1 = Done k'" "undisturbed k1 k'" "tune \<noteq> [] \<longrightarrow> speaker_off k'"
    "unat (TIME k1) + sum_list (map (\<lambda>(f, m, r). unat (m div 13) + 1) tune) \<le> unat (TIME k')"
    "unat (TIME k') \<le> unat (TIME k1) + sum_list (map (\<lambda>(f, m, r). unat (m div 13) + 3) tune)"
    by auto
  moreover have "play_tune E (x # tune) k = play_tune E tune k1" using k1(1) x Cons.prems(1) by simp
  ultimately show ?case
    using k1 x by (cases tune) (auto intro: undisturbed_trans)
qed simp

text \<open>
  with the timer running the boot chime ends, between 159 and 167 ticks after it started (its nominal length is
  2050 ms, but a millisecond counts as a thirteenth of a tick), with the speaker switched off and the other drivers' state untouched.
\<close>

theorem boot_chime_ends:
  fixes k :: "'a kbd_scheme"
  assumes "timer_latched E" and "timer_wakes E" and "ints_on k" and "PIT_INIT k"
    and "70 < fuel E" and "unat (TIME k) < 2 ^ 63"
  shows "\<exists>k'. play_chime E k = Done k' \<and> undisturbed k k' \<and> speaker_off k'
    \<and> unat (TIME k) + 159 \<le> unat (TIME k') \<and> unat (TIME k') \<le> unat (TIME k) + 167"
  using tone_steps [OF assms(1,2), of "[(600, 350, False), (620, 450, False), (600, 350, False), (780, 900, False)]" k]
    assms(3-6)
  by (simp add: play_chime_def del: play_tune.simps)

theorem boot_chime_ends_witness:
  "\<exists>k'. play_chime sample_env running_kbd = Done k' \<and> speaker_off k' \<and> 159 \<le> unat (TIME k')"
proof -
  have "70 < fuel sample_env" by (simp add: sample_env_def)
  from boot_chime_ends [OF sample_env_timer running_kbd_pit(2,1) this] show ?thesis
    by (auto simp: running_kbd_pit(3))
qed

end
