(* ===== verification/Sysinfo.thy ===== *)
theory Sysinfo
  imports Idt Screen Speaker
begin

text \<open>
  kernel/src/sysinfo.rs: the processor's vendor string and the report on the state of the kernel.
\<close>

section \<open>State\<close>

record sysk = icpu +
  VENDOR :: bytes
  PANICS :: u64

section \<open>The vendor string\<close>

text \<open>\<^verbatim>\<open>str::from_utf8\<close>: the well-formed byte sequences of UTF-8.\<close>

definition utf8_cont :: "u8 \<Rightarrow> bool" where "utf8_cont b \<longleftrightarrow> 0x80 \<le> b \<and> b \<le> 0xBF"

definition utf8_two :: "u8 \<Rightarrow> u8 \<Rightarrow> bool" where
  "utf8_two a b \<longleftrightarrow> 0xC2 \<le> a \<and> a \<le> 0xDF \<and> utf8_cont b"

definition utf8_three :: "u8 \<Rightarrow> u8 \<Rightarrow> u8 \<Rightarrow> bool" where
  "utf8_three a b c \<longleftrightarrow> 0xE0 \<le> a \<and> a \<le> 0xEF \<and> utf8_cont b \<and> utf8_cont c
     \<and> (a = 0xE0 \<longrightarrow> 0xA0 \<le> b) \<and> (a = 0xED \<longrightarrow> b \<le> 0x9F)"

definition utf8_four :: "u8 \<Rightarrow> u8 \<Rightarrow> u8 \<Rightarrow> u8 \<Rightarrow> bool" where
  "utf8_four a b c d \<longleftrightarrow> 0xF0 \<le> a \<and> a \<le> 0xF4 \<and> utf8_cont b \<and> utf8_cont c \<and> utf8_cont d
     \<and> (a = 0xF0 \<longrightarrow> 0x90 \<le> b) \<and> (a = 0xF4 \<longrightarrow> b \<le> 0x8F)"

fun from_utf8_ok :: "bytes \<Rightarrow> bool" where
  "from_utf8_ok [] \<longleftrightarrow> True"
| "from_utf8_ok (a # bs) \<longleftrightarrow>
     (a < 0x80 \<and> from_utf8_ok bs)
     \<or> (case bs of
           [] \<Rightarrow> False
         | b # bs \<Rightarrow>
             (utf8_two a b \<and> from_utf8_ok bs)
             \<or> (case bs of
                   [] \<Rightarrow> False
                 | c # bs \<Rightarrow>
                     (utf8_three a b c \<and> from_utf8_ok bs)
                     \<or> (case bs of [] \<Rightarrow> False | d # bs \<Rightarrow> utf8_four a b c d \<and> from_utf8_ok bs)))"

definition get_vendor_str :: "'a sysk_scheme \<Rightarrow> string" where
  "get_vendor_str k = (if from_utf8_ok (VENDOR k) then map (\<lambda>b. char_of (unat b)) (VENDOR k) else ''Unknown VStr'')"

text \<open>
  \<open>cpuid\<close> is what the instruction leaves in \<^verbatim>\<open>ebx\<close>, \<^verbatim>\<open>edx\<close> and \<^verbatim>\<open>ecx\<close>, or \<open>None\<close> if the
  flag that announces it cannot be toggled. Saving and restoring the registers around it is below this model.
\<close>

definition check_cpuid :: "(u32 \<times> u32 \<times> u32) option \<Rightarrow> 'a sysk_scheme \<Rightarrow> string exit_code \<times> 'a sysk_scheme" where
  "check_cpuid cpuid k =
     (case cpuid of
        None \<Rightarrow> (ExError ''Instruction not present'', k)
      | Some (ebx, edx, ecx) \<Rightarrow>
          let k = k\<lparr>VENDOR := to_le 4 ebx @ drop 4 (VENDOR k)\<rparr>;
              k = k\<lparr>VENDOR := take 4 (VENDOR k) @ to_le 4 edx @ drop 8 (VENDOR k)\<rparr>;
              k = k\<lparr>VENDOR := take 8 (VENDOR k) @ to_le 4 ecx\<rparr>
          in (ExOk, k))"

section \<open>System information\<close>

record system_info =
  si_sfk_version :: string
  si_patch_quote :: string
  si_cpu_vendor :: string
  si_debug :: bool
  si_floppy_offset :: "init_error + u16"
  si_floppy_space :: "init_error + u16"
  si_floppy_drive :: u8
  si_fdc_init :: bool
  si_floppyfs_init :: bool
  si_floppy_read_bytes :: u64
  si_floppy_written_bytes :: u64
  si_time :: u64
  si_time_secs :: u64
  si_date :: "init_error + rtime"
  si_gdt_init :: bool
  si_gdt_descriptor :: table_descriptor
  si_idt_init :: bool
  si_idt_descriptor :: table_descriptor
  si_pic_init :: bool
  si_pit_init :: bool
  si_kbd_init :: bool
  si_disable_enter :: bool

definition is_ok :: "'e + 'a \<Rightarrow> bool" where
  "is_ok r = (case r of Inl _ \<Rightarrow> False | Inr _ \<Rightarrow> True)"

text \<open>The kernel is modelled without the feature \<^verbatim>\<open>debug_info\<close>.\<close>

definition system_info_now :: "env \<Rightarrow> 'a sysk_scheme \<Rightarrow> system_info \<times> 'a sysk_scheme" where
  "system_info_now E k =
     (let (time, k) = get_time E k
      in (\<lparr>si_sfk_version = sfk_version E, si_patch_quote = patch_quote E,
           si_cpu_vendor = get_vendor_str k, si_debug = False,
           si_floppy_offset = init_later_read (BASE_OFFSET k), si_floppy_space = init_later_read (FLOPPY_SPACE k),
           si_floppy_drive = (if DRIVE_ONE k then 1 else 0), si_fdc_init = FLOPPY_INIT k,
           si_floppyfs_init = FLOPPYFS_INIT k, si_floppy_read_bytes = READ_BYTES k,
           si_floppy_written_bytes = WRITTEN_BYTES k,
           si_time = time, si_time_secs = time div 100, si_date = init_later_read (LAUNCH_TIME k),
           si_gdt_init = is_ok (init_later_read (GDT k)), si_gdt_descriptor = gdt_register k,
           si_idt_init = is_ok (init_later_read (IDT k)), si_idt_descriptor = idt_register k,
           si_pic_init = PIC_INIT k, si_pit_init = PIT_INIT k, si_kbd_init = KBD_INIT k,
           si_disable_enter = disable_enter E\<rparr>, k))"

definition unwrap_or :: "'a \<Rightarrow> 'e + 'a \<Rightarrow> 'a" where
  "unwrap_or d r = (case r of Inl _ \<Rightarrow> d | Inr a \<Rightarrow> a)"

definition uptime_str :: "u64 \<Rightarrow> string" where
  "uptime_str secs = ''('' @ dec_str (unat (secs div 3600)) @ ''h '' @ dec_str (unat (secs div 60 mod 60)) @ ''m ''
     @ dec_str (unat (secs mod 60)) @ ''s)''"

definition system_info_display :: "system_info \<Rightarrow> string" where
  "system_info_display s =
     ''Sunflower version: '' @ si_sfk_version s @ nl_str @ ''CPU Vendor: '' @ si_cpu_vendor s @ nl_str
     @ ''Debug build: '' @ bool_str (si_debug s) @ nl_str @ ''Launch time: ''
     @ (case si_date s of
          Inr time \<Rightarrow> time_display time @ nl_str
        | Inl e \<Rightarrow> ''Failed fetching time - '' @ init_error_display ''sunflower::time::Time'' e @ nl_str)
     @ ''Uptime: '' @ dec_str (unat (si_time s)) @ '' '' @ uptime_str (si_time_secs s) @ nl_str @ nl_str
     @ ''Disable enter: '' @ bool_str (si_disable_enter s) @ nl_str
     @ ''PIC initialised: '' @ bool_str (si_pic_init s) @ nl_str
     @ ''PIT initialised: '' @ bool_str (si_pit_init s) @ nl_str
     @ ''KBD initialised: '' @ bool_str (si_kbd_init s) @ nl_str
     @ ''GDT init: '' @ bool_str (si_gdt_init s) @ '' with '' @ table_descriptor_display (si_gdt_descriptor s) @ nl_str
     @ ''IDT init: '' @ bool_str (si_idt_init s) @ '' with '' @ table_descriptor_display (si_idt_descriptor s) @ nl_str
     @ nl_str @ ''Floppy offset: 0x'' @ hex_str (unat (unwrap_or 0 (si_floppy_offset s))) @ nl_str
     @ ''Floppy space: '' @ dec_str (unat (unwrap_or 0 (si_floppy_space s))) @ '' kB,'' @ nl_str
     @ ''Floppy drive number: '' @ dec_str (unat (si_floppy_drive s)) @ nl_str
     @ ''Floppy init: '' @ bool_str (si_fdc_init s) @ nl_str
     @ ''Floppyfs init: '' @ bool_str (si_floppyfs_init s) @ nl_str
     @ ''Floppy bytes read: '' @ dec_str (unat (si_floppy_read_bytes s)) @ nl_str
     @ ''Floppy bytes written: '' @ dec_str (unat (si_floppy_written_bytes s))"

section \<open>Properties\<close>

text \<open>
  Any twelve bytes the processor reports are stored whole, in the order \<^verbatim>\<open>ebx\<close>, \<^verbatim>\<open>edx\<close>,
  \<^verbatim>\<open>ecx\<close>, and the string handed out always has twelve characters; without the instruction the placeholder stays.
\<close>

theorem vendor_string:
  fixes k :: "'a sysk_scheme"
  assumes "length (VENDOR k) = 12"
  shows "VENDOR (snd (check_cpuid (Some (b, d, c)) k)) = to_le 4 b @ to_le 4 d @ to_le 4 c
    \<and> length (get_vendor_str (snd (check_cpuid r k))) = 12
    \<and> check_cpuid None k = (ExError ''Instruction not present'', k)"
  using assms by (simp add: check_cpuid_def get_vendor_str_def split: option.split prod.split)

definition initial_sysk :: sysk where
  "initial_sysk = icpu.extend initial_icpu \<lparr>VENDOR = str_bytes ''Unknown     '', PANICS = 0\<rparr>"

theorem vendor_string_witness:
  "VENDOR (snd (check_cpuid (Some (0x756E6547, 0x49656E69, 0x6C65746E)) initial_sysk)) = str_bytes ''GenuineIntel''"
proof -
  have "length (VENDOR initial_sysk) = 12" by (simp add: initial_sysk_def icpu.extend_def str_bytes_def)
  moreover have "to_le 4 (0x756E6547 :: u32) @ to_le 4 (0x49656E69 :: u32) @ to_le 4 (0x6C65746E :: u32) = str_bytes ''GenuineIntel''"
    by code_simp
  ultimately show ?thesis using vendor_string [of initial_sysk "0x756E6547" "0x49656E69" "0x6C65746E"] by metis
qed

text \<open>The report shows the hours, minutes and seconds of the uptime.\<close>

lemma uptime_parts:
  "unat secs = 3600 * unat (secs div 3600) + 60 * unat (secs div 60 mod 60) + unat (secs mod 60 :: u64)
    \<and> unat (secs div 60 mod 60) < 60 \<and> unat (secs mod 60) < 60"
proof -
  have "n = 3600 * (n div 3600) + 60 * (n div 60 mod 60) + n mod 60" for n :: nat
  proof -
    have "n div 3600 = n div 60 div 60" by (simp add: div_mult2_eq [symmetric])
    then show ?thesis using div_mult_mod_eq [of n 60] div_mult_mod_eq [of "n div 60" 60] by linarith
  qed
  then show ?thesis by (simp add: unat_div unat_mod)
qed

end
