(* ===== verification/Panic.thy ===== *)
theory Panic
  imports Sysinfo
begin

text \<open>
  kernel/src/panic.rs: what happens when the kernel panics. \<open>mem\<close> is the memory a stack trace reads
  (64 bit words by address), \<open>rbp\<close> and \<open>sp\<close> the frame and stack pointer. A panic does not return:
  \<open>kpanic\<close> ends in the reset that the escape key triggers, or waits for it.
\<close>

section \<open>Operations\<close>

text \<open>The frames of the linked list at \<open>stack\<close>, at most \<open>n\<close> of them.\<close>

fun trace_frames :: "(u64 \<Rightarrow> u64) \<Rightarrow> nat \<Rightarrow> nat \<Rightarrow> u64 \<Rightarrow> 'a vga_scheme \<Rightarrow> 'a vga_scheme run" where
  "trace_frames mem 0 idx stack k = Done k"
| "trace_frames mem (Suc n) idx stack k =
     (let next = mem stack; rip = mem (stack + 8)
      in if next = 0 then Done k
         else andThen (if rip \<noteq> 0 then println White (''  '' @ dec_str idx @ ''  '' @ ptr_str 8 rip) k else Done k)
                (trace_frames mem n (idx + 1) next))"

definition stack_trace :: "(u64 \<Rightarrow> u64) \<Rightarrow> u64 \<Rightarrow> nat \<Rightarrow> 'a vga_scheme \<Rightarrow> 'a vga_scheme run" where
  "stack_trace mem rbp frames k =
     andThen (println White (nl_str @ ''Stack trace (BP=0x'' @ ptr_str 0 rbp @ ''):'') k) (trace_frames mem frames 0 rbp)"

definition bit_str :: "bool \<Rightarrow> string" where
  "bit_str b = (if b then ''1'' else ''0'')"

definition panic_kernel_line :: "system_info \<Rightarrow> u64 \<Rightarrow> string" where
  "panic_kernel_line s panics =
     ''Kernel: '' @ bit_str (si_idt_init s) @ bit_str (si_gdt_init s) @ bit_str (si_pic_init s) @ bit_str (si_pit_init s)
     @ bit_str (si_kbd_init s) @ bit_str (si_fdc_init s) @ '' '' @ dec_str (unat (si_time s)) @ '' '' @ bit_str (si_debug s)
     @ '' '' @ dec_str (unat panics) @ '' '' @ si_sfk_version s"

definition panic_stack_text :: "(u64 \<Rightarrow> u64) \<Rightarrow> u64 \<Rightarrow> string" where
  "panic_stack_text mem sp =
     (let valof = (\<lambda>i. ptr_str 18 (mem (sp + 8 * i)))
      in nl_str @ ''Stack (SP=0x'' @ ptr_str 0 sp @ ''):'' @ nl_str
         @ ''  '' @ valof 0 @ ''  '' @ valof 1 @ ''  '' @ valof 2 @ nl_str
         @ ''  '' @ valof 3 @ ''  '' @ valof 4 @ ''  '' @ valof 5)"

text \<open>Everything \<^verbatim>\<open>kpanic\<close> does before it waits for a key; \<open>info\<close> prints the details.\<close>

definition panic_quiet :: "env \<Rightarrow> 'a sysk_scheme \<Rightarrow> 'a sysk_scheme" where
  "panic_quiet E k =
     (let k = stop E k;
          k = force_disable k;
          k = k\<lparr>ALLOW_ROW_0 := True\<rparr>
      in k\<lparr>BUFFER_HELD := False\<rparr>)"

definition panic_hardware_line :: "system_info \<Rightarrow> string" where
  "panic_hardware_line s =
     ''Hardware: '' @ si_cpu_vendor s @ '' '' @ dec_str (unat (unwrap_or 0 (si_floppy_space s))) @ '' ''"

definition panic_sysinfo :: "env \<Rightarrow> 'a sysk_scheme \<Rightarrow> 'a sysk_scheme run" where
  "panic_sysinfo E k =
     (let (sysinfo, k) = system_info_now E k;
          panics = PANICS k;
          k = k\<lparr>PANICS := PANICS k + 1\<rparr>
      in andThen (println White (panic_kernel_line sysinfo panics) k)
           (\<lambda>k. andThen (print (panic_hardware_line sysinfo) k)
             (\<lambda>k. case si_date sysinfo of
                    Inr d \<Rightarrow> println White (time_display d @ nl_str) k
                  | Inl e \<Rightarrow> println White (dec_str (unat (ie_state e)) @ nl_str) k)))"

definition panic_report ::
  "env \<Rightarrow> (u64 \<Rightarrow> u64) \<Rightarrow> u64 \<Rightarrow> string \<Rightarrow> u64 \<Rightarrow> ('a sysk_scheme \<Rightarrow> 'a sysk_scheme run) \<Rightarrow> 'a sysk_scheme \<Rightarrow> 'a sysk_scheme run" where
  "panic_report E mem rbp cause sp info k =
     (let k = panic_quiet E k
      in andThen (print (''============================='' @ nl_str @ ''  KERNEL PANIC: '') k)
          (\<lambda>k. andThen (println White (cause @ nl_str) k)
          (\<lambda>k. andThen (panic_sysinfo E k)
          (\<lambda>k. andThen (info k)
          (\<lambda>k. andThen (stack_trace mem rbp 6 k)
          (\<lambda>k. andThen (println White (panic_stack_text mem sp) k)
          (\<lambda>k. andThen (print (nl_str @ ''Press ESC to restart device'') k)
          (\<lambda>k. Done (update_visual_pos k)))))))))"

text \<open>The loop at the end of \<^verbatim>\<open>kpanic\<close>; it is left only for the reset.\<close>

fun esc_loop :: "env \<Rightarrow> nat \<Rightarrow> 'a sysk_scheme \<Rightarrow> 'a sysk_scheme run" where
  "esc_loop E 0 k = Hang"
| "esc_loop E (Suc n) k =
     (let ESC_SCANCODE_SET1 = 0x01; ESC_SCANCODE_SET2 = 0x76;
          (scancode, k) = readb E (port_addr PS2Data) k
      in if scancode = ESC_SCANCODE_SET1 \<or> scancode = ESC_SCANCODE_SET2 then Done k
         else esc_loop E n (poll E Spin k))"

definition kpanic ::
  "env \<Rightarrow> (u64 \<Rightarrow> u64) \<Rightarrow> u64 \<Rightarrow> string \<Rightarrow> u64 \<Rightarrow> ('a sysk_scheme \<Rightarrow> 'a sysk_scheme run) \<Rightarrow> 'a sysk_scheme \<Rightarrow> 'a sysk_scheme run" where
  "kpanic E mem rbp cause sp info k =
     andThen (panic_report E mem rbp cause sp info k) (\<lambda>k. andThen (esc_loop E (fuel E) k) (triple_fault E))"

section \<open>The forms of PANIC!\<close>

definition panic_exception ::
  "env \<Rightarrow> (u64 \<Rightarrow> u64) \<Rightarrow> u64 \<Rightarrow> string \<Rightarrow> (u64 \<Rightarrow> 'a sysk_scheme \<Rightarrow> 'a sysk_scheme run) \<Rightarrow> int_stack_frame \<Rightarrow> u64
   \<Rightarrow> 'a sysk_scheme \<Rightarrow> 'a sysk_scheme run" where
  "panic_exception E mem rbp cause info stackframe errcode =
     kpanic E mem rbp cause (sf_sp stackframe)
       (\<lambda>k. andThen (println White (''Instruction: 0x'' @ dec_str (unat (sf_ip stackframe))) k) (info errcode))"

definition panic_exception_noerror ::
  "env \<Rightarrow> (u64 \<Rightarrow> u64) \<Rightarrow> u64 \<Rightarrow> string \<Rightarrow> int_stack_frame \<Rightarrow> 'a sysk_scheme \<Rightarrow> 'a sysk_scheme run" where
  "panic_exception_noerror E mem rbp cause stackframe =
     kpanic E mem rbp cause (sf_sp stackframe) (println White (''Instruction: 0x'' @ dec_str (unat (sf_ip stackframe))))"

definition badbug :: "env \<Rightarrow> (u64 \<Rightarrow> u64) \<Rightarrow> u64 \<Rightarrow> u64 \<Rightarrow> string \<Rightarrow> 'a sysk_scheme \<Rightarrow> 'a sysk_scheme run" where
  "badbug E mem rbp rsp msg k = kpanic E mem rbp ''BADBUG'' rsp (println White msg) (cli k)"

record panic_info =
  pi_file :: string
  pi_line :: u32
  pi_column :: u32
  pi_message :: string

definition panic_handler :: "env \<Rightarrow> (u64 \<Rightarrow> u64) \<Rightarrow> u64 \<Rightarrow> u64 \<Rightarrow> panic_info \<Rightarrow> 'a sysk_scheme \<Rightarrow> 'a sysk_scheme run" where
  "panic_handler E mem rbp rsp p =
     badbug E mem rbp rsp (''External panic at '' @ pi_file p @ '':'' @ dec_str (unat (pi_line p)) @ '':''
       @ dec_str (unat (pi_column p)) @ nl_str @ pi_message p)"

section \<open>Properties\<close>

text \<open>
  What holds from the start of a panic on: the screen can be written, whoever held it, and the motor is off
  if the controller is known.
\<close>

definition panic_inv :: "u64 \<Rightarrow> 'a sysk_scheme \<Rightarrow> bool" where
  "panic_inv n k \<longleftrightarrow> vga_ok k \<and> \<not> BUFFER_HELD k \<and> PANICS k = n \<and> ((\<exists>b. base_known b k) \<longrightarrow> MOTOR_STATE k = MOTOR_OFF)"

lemma sysk_more:
  fixes k k' :: "'a sysk_scheme"
  assumes "vga.more k' = vga.more k"
  shows "PANICS k' = PANICS k" "MOTOR_STATE k' = MOTOR_STATE k" "BASE_OFFSET k' = BASE_OFFSET k"
  using assms by (cases k; cases k'; simp)+

lemma panic_inv_screen: "screen_stable (panic_inv n)"
proof -
  have "panic_inv n k'" if k: "panic_inv n k" and s: "screen_step k k'" for k k' :: "'a sysk_scheme"
  proof -
    have "vga.more k' = vga.more k" using s by (simp add: screen_step_def)
    note f = sysk_more [OF this]
    then show ?thesis using k s by (simp add: panic_inv_def screen_step_def base_known_def)
  qed
  moreover have "vga_ok k" if "panic_inv n k" for k :: "'a sysk_scheme" using that by (simp add: panic_inv_def)
  ultimately show ?thesis unfolding screen_stable_def by blast
qed

lemma returns_trace: "screen_stable P \<Longrightarrow> returns P (trace_frames mem n i s)"
proof (induction n arbitrary: i s)
  case 0
  show ?case by (simp add: returns_def)
next
  case (Suc n)
  have eq: "trace_frames mem (Suc n) i s = (\<lambda>k. if mem s = 0 then Done k
     else andThen (if mem (s + 8) \<noteq> 0 then println White (''  '' @ dec_str i @ ''  '' @ ptr_str 8 (mem (s + 8))) k else Done k)
            (trace_frames mem n (i + 1) (mem s)))"
    by (simp add: fun_eq_iff Let_def)
  show ?case unfolding eq
    by (intro returns_if returns_andThen returns_Done returns_println Suc.prems Suc.IH)
qed

lemma returns_stack_trace: "screen_stable P \<Longrightarrow> returns P (stack_trace mem rbp n)"
  unfolding stack_trace_def [abs_def] by (intro returns_andThen returns_println returns_trace)

lemma poll_motor_off:
  fixes k :: "'a kbd_scheme"
  assumes "MOTOR_STATE k = MOTOR_OFF" shows "MOTOR_STATE (poll E ev k) = MOTOR_OFF"
proof -
  have i: "MOTOR_STATE (take_irq E i k) = MOTOR_OFF" if "MOTOR_STATE k = MOTOR_OFF" for i and k :: "'a kbd_scheme"
  proof (cases i)
    case TimerIrq
    then show ?thesis using that by (simp add: timer_handler_eq decrease_motor_time_def motor_defs)
  next
    case RtcIrq
    then show ?thesis using that
      by (simp add: handler_defs writeb_eq writeb_nodummy_def readb_nodummy_def sync_time_to_rtc_def time_now_def
          read_cmos_reg_eq Let_def)
  qed (use that in \<open>simp_all add: handler_defs kbd_handler_def readb_nodummy_def writeb_eq Let_def sti_def cli_def\<close>)
  have "MOTOR_STATE (fold (take_irq E) is k) = MOTOR_OFF" if "MOTOR_STATE k = MOTOR_OFF" for "is" and k :: "'a kbd_scheme"
    using that by (induction "is" arbitrary: k) (simp_all add: i)
  then show ?thesis using assms by (simp add: poll_def Let_def)
qed

lemma sysk_kbd_more: "kbd.more k' = kbd.more k \<Longrightarrow> PANICS k' = PANICS (k :: 'a sysk_scheme)"
  by (cases k; cases k') simp

lemma panic_inv_poll:
  fixes k :: "'a sysk_scheme"
  assumes "panic_inv n k" shows "panic_inv n (poll E ev k)"
proof -
  have u: "undisturbed k (poll E ev k)" and s: "same_screen k (poll E ev k)" by (rule poll_frame(1,2))+
  have "PANICS (poll E ev k) = PANICS k" using u by (intro sysk_kbd_more) (simp add: undisturbed_def)
  then show ?thesis using assms u s same_screen_vga_ok [OF s] poll_motor_off [of k E ev]
    by (simp add: panic_inv_def same_screen_def undisturbed_def base_known_def)
qed

lemma panic_quiet_inv:
  assumes "vga_ok k" shows "panic_inv (PANICS k) (panic_quiet E k)"
proof -
  have off: "MOTOR_STATE (force_disable k) = MOTOR_OFF" if "base_known b k" for b and k :: "'b fdc_scheme"
    using that by (simp add: force_disable_def decrease_motor_time_def base_known_def add_offset_def send_disable_cmd_def
        motor_defs writeb_eq Let_def)
  have f: "vga_ok (force_disable k) = vga_ok k" "PANICS (force_disable k) = PANICS k" "BASE_OFFSET (force_disable k) = BASE_OFFSET k"
    for k :: "'a sysk_scheme"
    by (auto simp: force_disable_def decrease_motor_time_def send_disable_cmd_def writeb_eq Let_def vga_ok_def split: sum.split)
  have s: "vga_ok (stop E k) = vga_ok k" "PANICS (stop E k) = PANICS k"
    by (simp_all add: stop_def readb_eq writeb_eq Let_def vga_ok_def)
  show ?thesis using assms off [of _ "stop E k"] f [of "stop E k"] s
    by (auto simp: panic_inv_def panic_quiet_def Let_def vga_ok_def base_known_def)
qed

lemma panic_sysinfo_inv:
  assumes "panic_inv n k"
  shows "\<exists>k'. panic_sysinfo E k = Done k' \<and> panic_inv (n + 1) k'"
proof -
  obtain si k0 where si: "system_info_now E k = (si, k0)" by (cases "system_info_now E k")
  then have k0: "k0 = poll E ClockRead k" by (simp add: system_info_now_def get_time_def Let_def)
  let ?k = "k0\<lparr>PANICS := PANICS k0 + 1\<rparr>"
  have inv: "panic_inv (n + 1) ?k"
    using panic_inv_poll [OF assms, of E ClockRead] by (simp add: k0 panic_inv_def vga_ok_def base_known_def)
  let ?date = "\<lambda>k. case si_date si of Inr d \<Rightarrow> println White (time_display d @ nl_str) k
                  | Inl e \<Rightarrow> println White (dec_str (unat (ie_state e)) @ nl_str) k"
  have d: "returns (panic_inv (n + 1)) ?date"
    by (cases "si_date si") (simp_all add: returns_println [OF panic_inv_screen])
  have "returns (panic_inv (n + 1)) (\<lambda>k. andThen (println White (panic_kernel_line si (PANICS k0)) k)
      (\<lambda>k. andThen (print (panic_hardware_line si) k) ?date))"
    by (intro returns_andThen returns_println [OF panic_inv_screen] returns_print [OF panic_inv_screen] d)
  then show ?thesis using inv unfolding panic_sysinfo_def si Let_def prod.case returns_def by blast
qed

lemma panic_report_returns:
  assumes "vga_ok k" and "\<And>k. vga_ok k \<Longrightarrow> \<exists>k'. info k = Done k' \<and> screen_step k k'"
  shows "\<exists>k'. panic_report E mem rbp cause sp info k = Done k' \<and> panic_inv (PANICS k + 1) k'"
proof -
  let ?P = "panic_inv (PANICS k)" and ?Q = "panic_inv (PANICS k + 1)"
  have "returns ?P (\<lambda>k. andThen (print (''============================='' @ nl_str @ ''  KERNEL PANIC: '') k) (println White (cause @ nl_str)))"
    by (intro returns_andThen returns_println [OF panic_inv_screen] returns_print [OF panic_inv_screen])
  from returnsE [OF this panic_quiet_inv [OF assms(1)]] obtain k1 where
    k1: "andThen (print (''============================='' @ nl_str @ ''  KERNEL PANIC: '') (panic_quiet E k)) (println White (cause @ nl_str)) = Done k1"
    "?P k1" by blast
  obtain k2 where k2: "panic_sysinfo E k1 = Done k2" "?Q k2" using panic_sysinfo_inv [OF k1(2)] by blast
  have v: "?Q (update_visual_pos k)" if "?Q k" for k
    using that panic_inv_screen update_visual_screen unfolding screen_stable_def by blast
  have "returns ?Q (\<lambda>k. andThen (info k) (\<lambda>k. andThen (stack_trace mem rbp 6 k)
      (\<lambda>k. andThen (println White (panic_stack_text mem sp) k) (\<lambda>k. andThen (print (nl_str @ ''Press ESC to restart device'') k)
        (\<lambda>k. Done (update_visual_pos k))))))"
    by (intro returns_andThen returns_println [OF panic_inv_screen] returns_print [OF panic_inv_screen]
        returns_stack_trace [OF panic_inv_screen] returns_screen [OF panic_inv_screen] assms(2) returns_Done v)
  from returnsE [OF this k2(2)] obtain k3 where "andThen (info k2) (\<lambda>k. andThen (stack_trace mem rbp 6 k)
      (\<lambda>k. andThen (println White (panic_stack_text mem sp) k) (\<lambda>k. andThen (print (nl_str @ ''Press ESC to restart device'') k)
        (\<lambda>k. Done (update_visual_pos k))))) = Done k3" "?Q k3" by blast
  then show ?thesis using k1(1) k2(1) by (auto simp: panic_report_def Let_def andThen_eq_Done)
qed

lemma triple_fault_resets: "triple_fault E k = Hang"
  by (simp add: triple_fault_def gate_of_def table_descriptor_invalid_def)

lemma esc_loop_no_panic: "esc_loop E n k \<noteq> Panic"
  by (induction n arbitrary: k) (simp_all add: Let_def split_beta)

lemma kpanic_hangs:
  assumes "vga_ok k" and "\<And>k. vga_ok k \<Longrightarrow> \<exists>k'. info k = Done k' \<and> screen_step k k'"
  shows "kpanic E mem rbp cause sp info k = Hang"
proof -
  obtain k' where k': "panic_report E mem rbp cause sp info k = Done k'" using panic_report_returns [OF assms] by blast
  show ?thesis using esc_loop_no_panic [of E "fuel E" k']
    by (cases "esc_loop E (fuel E) k'") (simp_all add: kpanic_def k' triple_fault_resets)
qed

text \<open>
  C21: A kernel panic, from any state with a usable screen and whoever held the screen's buffer: the report
  is printed without a second panic, the panic is counted, the buffer is free and the motor is off if the controller is
  known. The panic itself never returns to the code that caused it.
\<close>

theorem kpanic_reports_and_never_returns:
  fixes k :: "'a sysk_scheme"
  assumes "vga_ok k" and "\<And>k. vga_ok k \<Longrightarrow> \<exists>k'. info k = Done k' \<and> screen_step k k'"
  shows "(\<exists>k'. panic_report E mem rbp cause sp info k = Done k' \<and> vga_ok k' \<and> \<not> BUFFER_HELD k' \<and> PANICS k' = PANICS k + 1
      \<and> ((\<exists>b. base_known b k') \<longrightarrow> MOTOR_STATE k' = MOTOR_OFF))
    \<and> kpanic E mem rbp cause sp info k = Hang"
proof -
  obtain k' where k': "panic_report E mem rbp cause sp info k = Done k'" "panic_inv (PANICS k + 1) k'"
    using panic_report_returns [OF assms] by blast
  then show ?thesis using kpanic_hangs [OF assms] by (auto simp: panic_inv_def)
qed

lemma initial_sysk_ok: "vga_ok initial_sysk"
  using initial_icpu_ok by (simp add: initial_sysk_def icpu.extend_def vga_ok_def)

theorem kpanic_reports_and_never_returns_witness:
  "kpanic sample_env (\<lambda>_. 0) 0 ''BADBUG'' 0 (println White ''test'') initial_sysk = Hang"
  using kpanic_reports_and_never_returns [of initial_sysk "println White ''test''", OF initial_sysk_ok println_screen] by blast

text \<open>Every form of the macro is such a panic.\<close>

lemma panic_forms_never_return:
  assumes "vga_ok k"
  shows "badbug E mem rbp rsp msg k = Hang"
    and "panic_exception_noerror E mem rbp cause frame k = Hang"
    and "panic_exception E mem rbp ''GP FAULT'' gp_errcode frame code k = Hang"
    and "panic_exception E mem rbp ''PAGE FAULT'' (pf_errcode cr2) frame code k = Hang"
    and "panic_handler E mem rbp rsp p k = Hang"
proof -
  have c: "vga_ok (cli k)" using assms by (simp add: cli_def vga_ok_def)
  have two: "\<exists>k'. andThen (println White s k) (println White t) = Done k' \<and> screen_step k k'" if ok: "vga_ok k" for s t and k :: "'a sysk_scheme"
  proof -
    obtain k1 where k1: "println White s k = Done k1" "screen_step k k1" using println_screen [OF ok] by blast
    obtain k2 where "println White t k1 = Done k2" "screen_step k1 k2" using println_screen [OF screen_step_ok [OF k1(2)]] by blast
    then show ?thesis using k1 screen_step_trans by auto
  qed
  show b: "badbug E mem rbp rsp msg k = Hang" for msg
    unfolding badbug_def by (rule kpanic_hangs [OF c println_screen])
  show "panic_exception_noerror E mem rbp cause frame k = Hang"
    unfolding panic_exception_noerror_def by (rule kpanic_hangs [OF assms println_screen])
  show "panic_exception E mem rbp ''GP FAULT'' gp_errcode frame code k = Hang"
    unfolding panic_exception_def gp_errcode_def by (rule kpanic_hangs [OF assms two])
  show "panic_exception E mem rbp ''PAGE FAULT'' (pf_errcode cr2) frame code k = Hang"
    unfolding panic_exception_def pf_errcode_def by (rule kpanic_hangs [OF assms two])
  show "panic_handler E mem rbp rsp p k = Hang" unfolding panic_handler_def by (rule b)
qed

end
