(* ===== verification/Keyboard.thy ===== *)
theory Keyboard
  imports Panic
begin

text \<open>
  kernel/src/interrupts/keyboard.rs and the poll loop of kernel/src/interrupts.rs: from the scancodes the interrupt handler
  stores to what is typed and to the system commands. The crates \<^verbatim>\<open>pc_keyboard\<close> (decoding of scancodes) and
  \<^verbatim>\<open>ps2\<close> (the controller) are parameters.
\<close>

section \<open>The decoder\<close>

datatype key_code = F1 | F2 | F3 | F4 | F5 | F6 | F7 | ArrowLeft | ArrowRight | ArrowUp | ArrowDown | OtherKey nat

datatype key_state = KeyUp | KeyDown | SingleShot

record key_event =
  ev_code :: key_code
  ev_state :: key_state

datatype decoded_key = RawKey key_code | Unicode u32

record modifiers =
  mod_ctrl :: bool
  mod_alt :: bool
  mod_capslock :: bool

record 's pc_keyboard =
  pk_add_byte :: "u8 \<Rightarrow> 's \<Rightarrow> (unit + key_event option) \<times> 's"
  pk_process_keyevent :: "key_event \<Rightarrow> 's \<Rightarrow> decoded_key option \<times> 's"
  pk_get_modifiers :: "'s \<Rightarrow> modifiers"
  pk_clear :: "'s \<Rightarrow> 's"

section \<open>The controller\<close>

datatype config_flag = DISABLE_KEYBOARD | ENABLE_MOUSE_INTERRUPT | ENABLE_TRANSLATE

text \<open>A configuration is all flags but the listed ones.\<close>

datatype ps2_op =
    DisableKeyboard | DisableMouse | ReadData | TestController | TestKeyboard | WriteConfig "config_flag list"
  | Echo | SetScancodeSet u8 | SetLedsNumLock | ResetAndSelfTest

text \<open>A call of the controller's driver: it uses the ports and fails with a printable error, or succeeds.\<close>

type_synonym ps2_controller = "ps2_op \<Rightarrow> io list \<Rightarrow> (string + unit) \<times> io list"

record kbd_init_error =
  kie_msg :: string
  kie_err :: "string option"

definition kbd_init_error_new :: "string \<Rightarrow> kbd_init_error" where
  "kbd_init_error_new msg = \<lparr>kie_msg = msg, kie_err = None\<rparr>"

definition kbd_init_error_display :: "kbd_init_error \<Rightarrow> string" where
  "kbd_init_error_display e = kie_msg e @ (case kie_err e of Some err \<Rightarrow> '' - '' @ err | None \<Rightarrow> '''')"

text \<open>The calls of \<^verbatim>\<open>init\<close>, each with the message of its failure; one result is ignored.\<close>

definition kbd_init_calls :: "(string option \<times> ps2_op) list" where
  "kbd_init_calls =
     [(Some ''Disable keyboard'', DisableKeyboard),
      (Some ''Disable mouse'', DisableMouse),
      (None, ReadData),
      (Some ''Controller test'', TestController),
      (Some ''Keyboard test'', TestKeyboard),
      (Some ''Set config'', WriteConfig [DISABLE_KEYBOARD, ENABLE_MOUSE_INTERRUPT, ENABLE_TRANSLATE]),
      (Some ''Keyboard Echo'', Echo),
      (Some ''Set scancode'', SetScancodeSet 2),
      (Some ''Set LEDS'', SetLedsNumLock),
      (Some ''Reset keyboard'', ResetAndSelfTest)]"

fun run_calls :: "ps2_controller \<Rightarrow> (string option \<times> ps2_op) list \<Rightarrow> 'a machine_scheme \<Rightarrow> (kbd_init_error + unit) \<times> 'a machine_scheme"
  where
  "run_calls ctl [] k = (Ok (), k)"
| "run_calls ctl ((msg, op) # rest) k =
     (let (r, log) = ctl op (io_log k);
          k = k\<lparr>io_log := log\<rparr>
      in case (r, msg) of
           (Inl e, Some m) \<Rightarrow> (Err \<lparr>kie_msg = m, kie_err = Some e\<rparr>, k)
         | _ \<Rightarrow> run_calls ctl rest k)"

definition kbd_init :: "ps2_controller \<Rightarrow> 'a machine_scheme \<Rightarrow> kbd_init_error exit_code \<times> 'a machine_scheme" where
  "kbd_init ctl k =
     (let k = sti k
      in if \<not> PIC_INIT k then (ExError (kbd_init_error_new ''The PIC ins't init!''), k)
         else case run_calls ctl kbd_init_calls k of
                (Inl e, k) \<Rightarrow> (ExError e, k)
              | (Inr _, k) \<Rightarrow> (ExOk, k\<lparr>KBD_INIT := True\<rparr>))"

section \<open>System commands\<close>

definition print_sysinfo :: "env \<Rightarrow> 'a sysk_scheme \<Rightarrow> 'a sysk_scheme run" where
  "print_sysinfo E k =
     (let k = swap k;
          k = clear k
      in andThen (draw_topbar E k)
          (\<lambda>k. andThen (println LightBlue (nl_str @ ''System information'') k)
          (\<lambda>k. let (info, k) = system_info_now E k
               in andThen (print (system_info_display info) k)
                   (\<lambda>k. let k = set_col 0 k;
                            k = set_row (BUFFER_HEIGHT - 1) k
                        in print ''Previous screen stored in alt buffer (Use SysCmd 6)'' k))))"

definition help_text :: string where
  "help_text =
     ''Sunflower is a smallish kernel written by me (janicria) using Rust and some'' @ nl_str
     @ ''inline assembly. It's open source, and's repository can be found at'' @ nl_str @ nl_str
     @ ''                    https://github.com/janicria/sunflower'' @ nl_str @ nl_str
     @ ''Right now there isn't really any form of user input besides from some basic'' @ nl_str
     @ ''ASCII screen drawing, but there are some builtin keyboard shortcuts which can'' @ nl_str
     @ ''be ran using Ctrl+Alt+FX, SysRq+FX or PrtScr+FX, where X can be either:'' @ nl_str @ nl_str
     @ ''         1 - Prints system information   2 - Clears the screen'' @ nl_str
     @ ''         3 - Beeps the PC speaker        4 - Triggers a kernel panic'' @ nl_str
     @ ''         5 - Restarts the device         6 - Swaps between text buffers'' @ nl_str
     @ ''         7 - Shows this help message''"

definition print_help :: "env \<Rightarrow> 'a sysk_scheme \<Rightarrow> 'a sysk_scheme run" where
  "print_help E k =
     (let k = swap k;
          k = clear k
      in andThen (draw_topbar E k)
          (\<lambda>k. andThen (println Pink (nl_str @ ''Welcome to Sunflower!! '' @ [CHR 0x01]) k) (println White help_text)))"

definition syscmd_held :: "modifiers \<Rightarrow> 'a kbd_scheme \<Rightarrow> bool" where
  "syscmd_held mods k \<longleftrightarrow> SYSRQ k \<or> mod_ctrl mods \<and> mod_alt mods"

definition check_syscmd :: "env \<Rightarrow> key_code \<Rightarrow> modifiers \<Rightarrow> 'a sysk_scheme \<Rightarrow> 'a sysk_scheme run" where
  "check_syscmd E key mods k =
     (if \<not> syscmd_held mods k then Done k
      else case key of
             F1 \<Rightarrow> print_sysinfo E k
           | F2 \<Rightarrow> draw_topbar E (clear k)
           | F3 \<Rightarrow> play_song E k
           | F4 \<Rightarrow> Panic
           | F5 \<Rightarrow> triple_fault E k
           | F6 \<Rightarrow> Done (swap k)
           | F7 \<Rightarrow> print_help E k
           | _ \<Rightarrow> Done k)"

section \<open>Typing\<close>

definition code_point :: "char \<Rightarrow> u32" where
  "code_point c = of_nat (of_char c)"

definition SHIFT_MAPPING :: "(u32 \<times> u32) list" where
  "SHIFT_MAPPING = map (\<lambda>(a, b). (code_point a, code_point b))
     [(CHR ''1'', CHR ''!''), (CHR ''2'', CHR ''@''), (CHR ''3'', CHR ''#''), (CHR ''4'', CHR ''$''), (CHR ''5'', CHR ''%''),
      (CHR ''6'', CHR ''^''), (CHR ''7'', CHR ''&''), (CHR ''8'', CHR ''*''), (CHR ''9'', CHR ''(''), (CHR ''0'', CHR '')''),
      (CHR ''-'', CHR ''_''), (CHR ''='', CHR ''+''), (CHR ''['', CHR ''{''), (CHR '']'', CHR ''}''), (CHR 0x5C, CHR ''|''),
      (CHR '';'', CHR '':''), (CHR 0x27, CHR 0x22), (CHR '','', CHR ''<''), (CHR ''.'', CHR ''>''), (CHR ''/'', CHR ''?''),
      (CHR 0x60, CHR ''~'')]"

definition to_ascii_lowercase :: "u32 \<Rightarrow> u32" where
  "to_ascii_lowercase c = (if 65 \<le> c \<and> c \<le> 90 then c + 32 else c)"

definition to_ascii_uppercase :: "u32 \<Rightarrow> u32" where
  "to_ascii_uppercase c = (if 97 \<le> c \<and> c \<le> 122 then c - 32 else c)"

text \<open>The character printed for a decoded one, given the shift keys and caps lock.\<close>

definition typed_char :: "bool \<Rightarrow> bool \<Rightarrow> u32 \<Rightarrow> u32" where
  "typed_char shift_held capslock key =
     (let (key, shifted) =
            (case find (\<lambda>s. fst s = key \<or> snd s = key) SHIFT_MAPPING of
               Some shift \<Rightarrow> (fst shift, Some (snd shift))
             | None \<Rightarrow> (to_ascii_lowercase key, None))
      in if shifted \<noteq> None \<and> shift_held then the shifted
         else if capslock \<noteq> shift_held then to_ascii_uppercase key
         else key)"

text \<open>A character as the bytes of its UTF-8 form.\<close>

definition utf8_str :: "u32 \<Rightarrow> string" where
  "utf8_str c =
     (let n = unat c
      in map char_of
          (if n < 0x80 then [n]
           else if n < 0x800 then [0xC0 + n div 64, 0x80 + n mod 64]
           else if n < 0x10000 then [0xE0 + n div 4096, 0x80 + n div 64 mod 64, 0x80 + n mod 64]
           else [0xF0 + n div 262144, 0x80 + n div 4096 mod 64, 0x80 + n div 64 mod 64, 0x80 + n mod 64]))"

definition print_char :: "env \<Rightarrow> u32 \<Rightarrow> modifiers \<Rightarrow> 'a kbd_scheme \<Rightarrow> 'a kbd_scheme run" where
  "print_char E key mods k =
     (if key = 0x8 \<or> key = 0x7F then delete_prev_char k
      else if key = 0x9 \<or> key = 0x1B \<or> (key = 10 \<and> disable_enter E) then Done k
      else let shift_held = SHIFT k \<noteq> 0
           in print (utf8_str (typed_char shift_held (mod_capslock mods) key)) k)"

fun check_arrows :: "key_code \<Rightarrow> 'a vga_scheme \<Rightarrow> 'a vga_scheme" where
  "check_arrows ArrowLeft k = shift_cursor ShiftLeft k"
| "check_arrows ArrowRight k = shift_cursor ShiftRight k"
| "check_arrows ArrowUp k = shift_cursor ShiftUp k"
| "check_arrows ArrowDown k = shift_cursor ShiftDown k"
| "check_arrows _ k = k"

definition track_keys :: "u8 \<Rightarrow> key_state \<Rightarrow> 'a kbd_scheme \<Rightarrow> 'a kbd_scheme" where
  "track_keys scancode st k =
     (let LSHIFT_SCANCODE = 0x12; RSHIFT_SCANCODE = 0x59; SYSRQ_SCANCODE = 0x7F; SYSRQ_SCANCODE_ALT = 0x7C;
          k = (if st = KeyDown
               then if scancode = LSHIFT_SCANCODE then k\<lparr>SHIFT := SHIFT k OR push_bit 0 1\<rparr>
                    else if scancode = RSHIFT_SCANCODE then k\<lparr>SHIFT := SHIFT k OR push_bit 1 1\<rparr>
                    else if scancode = SYSRQ_SCANCODE \<or> scancode = SYSRQ_SCANCODE_ALT then k\<lparr>SYSRQ := True\<rparr>
                    else k
               else k)
      in if st = KeyUp
         then if scancode = LSHIFT_SCANCODE then k\<lparr>SHIFT := SHIFT k AND NOT (push_bit 0 1)\<rparr>
              else if scancode = RSHIFT_SCANCODE then k\<lparr>SHIFT := SHIFT k AND NOT (push_bit 1 1)\<rparr>
              else if scancode = SYSRQ_SCANCODE \<or> scancode = SYSRQ_SCANCODE_ALT then k\<lparr>SYSRQ := False\<rparr>
              else k
         else k)"

definition keyboard_input ::
  "env \<Rightarrow> 's pc_keyboard \<Rightarrow> u8 \<Rightarrow> key_event \<Rightarrow> 's \<Rightarrow> 'a sysk_scheme \<Rightarrow> ('s \<times> 'a sysk_scheme) run" where
  "keyboard_input E pk scancode event s k =
     (let k = track_keys scancode (ev_state event) k
      in case pk_process_keyevent pk event s of
           (None, s) \<Rightarrow> Done (s, k)
         | (Some key, s) \<Rightarrow>
             let mods = pk_get_modifiers pk s
             in andThen (check_syscmd E (ev_code event) mods k)
                  (\<lambda>k. case key of
                         RawKey key \<Rightarrow> Done (s, check_arrows key k)
                       | Unicode key \<Rightarrow> andThen (print_char E key mods k) (\<lambda>k. Done (s, k))))"

section \<open>Polling\<close>

text \<open>The oldest scancode that was not handled yet.\<close>

definition next_scancode :: "'a kbd_scheme \<Rightarrow> (u8 option \<times> 'a kbd_scheme) run" where
  "next_scancode k =
     (let read_ptr = KBD_RPTR k;
          write_ptr = KBD_WPTR k
      in if write_ptr \<le> read_ptr then Done (None, k\<lparr>KBD_RPTR := write_ptr\<rparr>)
         else if length (KBD_BUF k) \<le> unat read_ptr then Panic
         else Done (Some (KBD_BUF k ! unat read_ptr), k\<lparr>KBD_RPTR := KBD_RPTR k + 1\<rparr>))"

definition poll_keyboard :: "env \<Rightarrow> 's pc_keyboard \<Rightarrow> 's \<times> 'a sysk_scheme \<Rightarrow> ('s \<times> 'a sysk_scheme) run" where
  "poll_keyboard E pk = (\<lambda>(s, k).
     andThen (next_scancode k)
       (\<lambda>(sc, k). case sc of
          None \<Rightarrow> Done (pk_clear pk s, k)
        | Some scancode \<Rightarrow>
            (case pk_add_byte pk scancode s of
               (Inr (Some event), s) \<Rightarrow> keyboard_input E pk scancode event s k
             | (_, s) \<Rightarrow> Done (s, k))))"

text \<open>The first \<open>n\<close> iterations of the endless loop.\<close>

fun kbd_poll_loop :: "env \<Rightarrow> 's pc_keyboard \<Rightarrow> nat \<Rightarrow> 's \<times> 'a sysk_scheme \<Rightarrow> ('s \<times> 'a sysk_scheme) run" where
  "kbd_poll_loop E pk 0 sk = Done sk"
| "kbd_poll_loop E pk (Suc n) sk =
     andThen (poll_keyboard E pk sk)
       (\<lambda>(s, k). andThen (hlt E k)
         (\<lambda>k. let (t, k) = get_time E k;
                  k = (if t mod 10 = 0 then update_visual_pos k else k)
              in kbd_poll_loop E pk n (s, k)))"

section \<open>What is typed\<close>

definition is_letter :: "u32 \<Rightarrow> bool" where
  "is_letter c \<longleftrightarrow> 65 \<le> c \<and> c \<le> 90 \<or> 97 \<le> c \<and> c \<le> 122"

lemma shift_mapping_pairs:
  "\<forall>(a, b) \<in> set SHIFT_MAPPING. \<not> is_letter a \<and> \<not> is_letter b \<and> to_ascii_uppercase a = a
     \<and> find (\<lambda>s. fst s = a \<or> snd s = a) SHIFT_MAPPING = Some (a, b)
     \<and> find (\<lambda>s. fst s = b \<or> snd s = b) SHIFT_MAPPING = Some (a, b)"
  by code_simp

lemma typed_char_unmapped:
  assumes "\<forall>(a, b) \<in> set SHIFT_MAPPING. c \<noteq> a \<and> c \<noteq> b"
  shows "typed_char sh caps c = (if caps \<noteq> sh then to_ascii_uppercase (to_ascii_lowercase c) else to_ascii_lowercase c)"
proof -
  have "find (\<lambda>s. fst s = c \<or> snd s = c) SHIFT_MAPPING = None"
    using assms by (auto simp: find_None_iff)
  then show ?thesis by (simp add: typed_char_def)
qed

lemma ascii_case:
  "is_letter c \<Longrightarrow> to_ascii_uppercase (to_ascii_lowercase c) = to_ascii_uppercase c"
  "\<not> is_letter c \<Longrightarrow> to_ascii_uppercase c = c" "\<not> is_letter c \<Longrightarrow> to_ascii_lowercase c = c"
  by (auto simp: is_letter_def to_ascii_uppercase_def to_ascii_lowercase_def word_le_nat_alt unat_word_ariths)

text \<open>
  C34: What a key types on the US layout, whatever form of it the decoder reports: a letter is upper case exactly if one of caps
  lock and shift is on; a key with two symbols types the upper one exactly if shift is held, caps lock having no effect; every other
  character is typed as it is.
\<close>

theorem typed_char_us_layout:
  "(is_letter c \<longrightarrow> typed_char sh caps c = (if caps \<noteq> sh then to_ascii_uppercase c else to_ascii_lowercase c))
   \<and> (\<forall>(a, b) \<in> set SHIFT_MAPPING. typed_char sh caps a = (if sh then b else a) \<and> typed_char sh caps b = (if sh then b else a))
   \<and> (\<not> is_letter c \<longrightarrow> (\<forall>(a, b) \<in> set SHIFT_MAPPING. c \<noteq> a \<and> c \<noteq> b) \<longrightarrow> typed_char sh caps c = c)"
proof (intro conjI impI)
  assume l: "is_letter c"
  then have "\<forall>(a, b) \<in> set SHIFT_MAPPING. c \<noteq> a \<and> c \<noteq> b" using shift_mapping_pairs by fast
  from typed_char_unmapped [OF this]
  show "typed_char sh caps c = (if caps \<noteq> sh then to_ascii_uppercase c else to_ascii_lowercase c)"
    using ascii_case(1) [OF l] by simp
next
  show "\<forall>(a, b) \<in> set SHIFT_MAPPING. typed_char sh caps a = (if sh then b else a) \<and> typed_char sh caps b = (if sh then b else a)"
  proof clarify
    fix a b assume "(a, b) \<in> set SHIFT_MAPPING"
    then have "to_ascii_uppercase a = a" "find (\<lambda>s. fst s = a \<or> snd s = a) SHIFT_MAPPING = Some (a, b)"
      "find (\<lambda>s. fst s = b \<or> snd s = b) SHIFT_MAPPING = Some (a, b)" using shift_mapping_pairs by fast+
    then show "typed_char sh caps a = (if sh then b else a) \<and> typed_char sh caps b = (if sh then b else a)"
      by (simp add: typed_char_def)
  qed
next
  assume "\<not> is_letter c" and "\<forall>(a, b) \<in> set SHIFT_MAPPING. c \<noteq> a \<and> c \<noteq> b"
  then show "typed_char sh caps c = c" by (simp add: typed_char_unmapped ascii_case)
qed

theorem typed_char_us_layout_witness:
  "typed_char True False (code_point (CHR ''q'')) = code_point (CHR ''Q'')
   \<and> typed_char True True (code_point (CHR ''Q'')) = code_point (CHR ''q'')
   \<and> typed_char True True (code_point (CHR ''7'')) = code_point (CHR ''&'')
   \<and> typed_char False True (code_point (CHR ''&'')) = code_point (CHR ''7'')"
proof -
  have l: "is_letter (code_point (CHR ''q''))" "is_letter (code_point (CHR ''Q''))" by code_simp+
  have u: "to_ascii_uppercase (code_point (CHR ''q'')) = code_point (CHR ''Q'')"
    "to_ascii_lowercase (code_point (CHR ''Q'')) = code_point (CHR ''q'')" by code_simp+
  have m: "(code_point (CHR ''7''), code_point (CHR ''&'')) \<in> set SHIFT_MAPPING" by code_simp
  have "typed_char True False (code_point (CHR ''q'')) = code_point (CHR ''Q'')"
    using typed_char_us_layout [of "code_point (CHR ''q'')" True False] l(1) u(1) by metis
  moreover have "typed_char True True (code_point (CHR ''Q'')) = code_point (CHR ''q'')"
    using typed_char_us_layout [of "code_point (CHR ''Q'')" True True] l(2) u(2) by metis
  moreover note bspec [OF conjunct1 [OF conjunct2 [OF typed_char_us_layout [of 0 True True]]] m]
    bspec [OF conjunct1 [OF conjunct2 [OF typed_char_us_layout [of 0 False True]]] m]
  ultimately show ?thesis by simp
qed

section \<open>Initialisation\<close>

text \<open>The calls of a prefix that fail with an error that is not ignored.\<close>

fun first_failure :: "ps2_controller \<Rightarrow> (string option \<times> ps2_op) list \<Rightarrow> io list \<Rightarrow> (string \<times> string) option" where
  "first_failure ctl [] log = None"
| "first_failure ctl ((msg, op) # rest) log =
     (case (ctl op log, msg) of
        ((Inl e, log), Some m) \<Rightarrow> Some (m, e)
      | ((_, log), _) \<Rightarrow> first_failure ctl rest log)"

lemma run_calls_outcome:
  "\<exists>log. run_calls ctl calls k = ((case first_failure ctl calls (io_log k) of
       None \<Rightarrow> Ok () | Some (m, e) \<Rightarrow> Err \<lparr>kie_msg = m, kie_err = Some e\<rparr>), k\<lparr>io_log := log\<rparr>)"
proof (induction calls arbitrary: k)
  case Nil
  show ?case by (rule exI [of _ "io_log k"]) simp
next
  case (Cons c calls)
  obtain m op where c: "c = (m, op)" by (cases c)
  obtain r log where r: "ctl op (io_log k) = (r, log)" by (cases "ctl op (io_log k)")
  show ?case using Cons.IH [of "k\<lparr>io_log := log\<rparr>"] by (cases r; cases m) (auto simp: c r)
qed

text \<open>
  C35: Initialising the keyboard sets its flag exactly if the interrupt controllers are initialised and every call succeeded whose result is
  not ignored; otherwise the error names the first call that failed. Interrupts are on afterwards and nothing else of the kernel's state changes.
\<close>

theorem kbd_init_outcome:
  assumes "\<not> KBD_INIT k"
  shows "\<exists>log. let (r, k') = kbd_init ctl k;
               fail = first_failure ctl kbd_init_calls (io_log k);
               ready = (PIC_INIT k \<and> fail = None)
      in k' = k\<lparr>ints_on := True, KBD_INIT := ready, io_log := log\<rparr>
         \<and> r = (if ready then ExOk
               else if PIC_INIT k then ExError \<lparr>kie_msg = fst (the fail), kie_err = Some (snd (the fail))\<rparr>
               else ExError (kbd_init_error_new ''The PIC ins't init!''))"
proof -
  obtain log where "run_calls ctl kbd_init_calls (sti k) = ((case first_failure ctl kbd_init_calls (io_log k) of
       None \<Rightarrow> Ok () | Some (m, e) \<Rightarrow> Err \<lparr>kie_msg = m, kie_err = Some e\<rparr>), (sti k)\<lparr>io_log := log\<rparr>)"
    using run_calls_outcome [of ctl kbd_init_calls "sti k"] by (auto simp: sti_def)
  then show ?thesis using assms
    by (cases "first_failure ctl kbd_init_calls (io_log k)")
      (auto simp: kbd_init_def sti_def split_beta intro!: exI [of _ "if PIC_INIT k then log else io_log k"])
qed

definition failing_echo :: ps2_controller where
  "failing_echo op log = ((if op = Echo then Inl ''NoResponse'' else Inr ()), log)"

theorem kbd_init_outcome_witness:
  "kbd_init_error_display (case fst (kbd_init failing_echo (initial_sysk\<lparr>PIC_INIT := True, KBD_INIT := False\<rparr>)) of ExError e \<Rightarrow> e)
     = ''Keyboard Echo - NoResponse''"
proof -
  have "first_failure failing_echo kbd_init_calls log = Some (''Keyboard Echo'', ''NoResponse'')" for log
    by (simp add: kbd_init_calls_def failing_echo_def)
  then show ?thesis using kbd_init_outcome [of "initial_sysk\<lparr>PIC_INIT := True, KBD_INIT := False\<rparr>" failing_echo]
    by (auto simp: split_beta Let_def kbd_init_error_display_def)
qed

end
