(* ===== verification/Kbd_Queue.thy ===== *)
theory Kbd_Queue
  imports Keyboard
begin

text \<open>
  The scancode buffer between the keyboard's interrupt handler, which writes it, and the poll loop, which reads it, as a queue.
\<close>

section \<open>A queue with a producer and a consumer\<close>

text \<open>
  A session of the two sides in any order: what the producer was given, what the consumer got. \<open>inc e s\<close> is what
  the producer's call \<open>put e\<close> stores in state \<open>s\<close>, if there is room.
\<close>

inductive session ::
  "('e \<Rightarrow> 's \<Rightarrow> 'x) \<Rightarrow> ('s \<Rightarrow> bool) \<Rightarrow> ('e \<Rightarrow> 's \<Rightarrow> 's) \<Rightarrow> ('s \<Rightarrow> ('x option \<times> 's) run) \<Rightarrow> 's \<Rightarrow> 'x list \<Rightarrow> 'x list \<Rightarrow> 's \<Rightarrow> bool"
  for inc room put get where
  session_end: "session inc room put get s [] [] s"
| session_put: "room s \<Longrightarrow> session inc room put get (put e s) xs ys s' \<Longrightarrow> session inc room put get s (inc e s # xs) ys s'"
| session_got: "get s = Done (Some y, s1) \<Longrightarrow> session inc room put get s1 xs ys s' \<Longrightarrow> session inc room put get s xs (y # ys) s'"
| session_idle: "get s = Done (None, s1) \<Longrightarrow> session inc room put get s1 xs ys s' \<Longrightarrow> session inc room put get s xs ys s'"

locale fifo_buffer =
  fixes inv :: "'s \<Rightarrow> bool" and pending :: "'s \<Rightarrow> 'x list" and inc :: "'e \<Rightarrow> 's \<Rightarrow> 'x" and room :: "'s \<Rightarrow> bool"
    and put :: "'e \<Rightarrow> 's \<Rightarrow> 's" and get :: "'s \<Rightarrow> ('x option \<times> 's) run"
  assumes put_law: "inv s \<Longrightarrow> room s \<Longrightarrow> inv (put e s) \<and> pending (put e s) = pending s @ [inc e s]"
    and get_empty: "inv s \<Longrightarrow> pending s = [] \<Longrightarrow> \<exists>s'. get s = Done (None, s') \<and> inv s' \<and> pending s' = []"
    and get_next: "inv s \<Longrightarrow> pending s = x # xs \<Longrightarrow> \<exists>s'. get s = Done (Some x, s') \<and> inv s' \<and> pending s' = xs"
begin

lemma get_cases:
  assumes "inv s" and "get s = Done (y, s')"
  shows "inv s' \<and> pending s = (case y of None \<Rightarrow> [] | Some x \<Rightarrow> [x]) @ pending s'"
  using get_empty [OF assms(1)] get_next [OF assms(1)] assms(2) by (cases "pending s") fastforce+

lemma in_order:
  "session inc room put get s xs ys s' \<Longrightarrow> inv s \<Longrightarrow> inv s' \<and> pending s @ xs = ys @ pending s'"
proof (induction rule: session.induct)
  case (session_put s e xs ys s')
  then show ?case using put_law [of s e] by simp
next
  case (session_got s y s1 xs ys s')
  then show ?case using get_cases [of s "Some y" s1] by simp
next
  case (session_idle s s1 xs ys s')
  then show ?case using get_cases [of s None s1] by simp
qed simp

text \<open>As many further calls as elements are left get all of them.\<close>

lemma drain:
  "inv s \<Longrightarrow> \<exists>s'. session inc room put get s [] (pending s) s' \<and> inv s' \<and> pending s' = []"
proof (induction "pending s" arbitrary: s)
  case Nil
  then show ?case using session_end by metis
next
  case (Cons x xs)
  from get_next [OF Cons.prems Cons.hyps(2) [symmetric]] obtain s1 where
    s1: "get s = Done (Some x, s1)" "inv s1" "pending s1 = xs" by blast
  from Cons.hyps(1) [OF s1(3) [symmetric] s1(2)] s1 Cons.hyps(2) session_got show ?case by metis
qed

end

section \<open>The scancode buffer is such a queue\<close>

definition kbd_pending :: "'a kbd_scheme \<Rightarrow> u8 list" where
  "kbd_pending k = map ((!) (KBD_BUF k)) [unat (KBD_RPTR k)..<unat (KBD_WPTR k)]"

definition kbd_buf_ok :: "'a kbd_scheme \<Rightarrow> bool" where
  "kbd_buf_ok k \<longleftrightarrow> length (KBD_BUF k) = 256 \<and> KBD_RPTR k \<le> KBD_WPTR k"

text \<open>The scancode the handler finds, and when it can be stored without the write pointer starting over.\<close>

definition incoming :: "env \<Rightarrow> 'a kbd_scheme \<Rightarrow> u8" where
  "incoming E k = port_in E (io_log k) 0x60"

definition kbd_room :: "'a kbd_scheme \<Rightarrow> bool" where
  "kbd_room k \<longleftrightarrow> KBD_INIT k \<and> KBD_WPTR k < 255"

lemma kbd_handler_eq:
  "KBD_INIT k \<Longrightarrow> kbd_handler E k = k\<lparr>ints_on := True, io_log := Inp 0x60 (incoming E k) # io_log k,
     KBD_WPTR := KBD_WPTR k + 1, KBD_BUF := (KBD_BUF k)[unat (KBD_WPTR k) := incoming E k], PREV_RESPONSE := incoming E k\<rparr>"
  by (simp add: kbd_handler_def readb_nodummy_def incoming_def cli_def sti_def Let_def)

lemma kbd_put:
  assumes "kbd_buf_ok k" and "kbd_room k"
  shows "kbd_buf_ok (kbd_handler E k) \<and> kbd_pending (kbd_handler E k) = kbd_pending k @ [incoming E k]"
proof -
  let ?r = "unat (KBD_RPTR k)" and ?w = "unat (KBD_WPTR k)"
  have w: "?w < 255" "?r \<le> ?w" using assms by (simp_all add: kbd_buf_ok_def kbd_room_def word_less_nat_alt word_le_nat_alt)
  then have inc: "unat (KBD_WPTR k + 1) = Suc ?w" by (simp add: unat_word_ariths)
  have "[?r..<Suc ?w] = [?r..<?w] @ [?w]" using w(2) by simp
  moreover have "map ((!) ((KBD_BUF k)[?w := x])) [?r..<?w] = map ((!) (KBD_BUF k)) [?r..<?w]" for x by simp
  ultimately show ?thesis
    using assms w inc by (simp add: kbd_handler_eq kbd_room_def kbd_pending_def kbd_buf_ok_def word_le_nat_alt)
qed

interpretation scq: fifo_buffer kbd_buf_ok kbd_pending incoming kbd_room kbd_handler next_scancode
proof
  fix k :: "'a kbd_scheme" and E
  assume "kbd_buf_ok k" and "kbd_room k"
  then show "kbd_buf_ok (kbd_handler E k) \<and> kbd_pending (kbd_handler E k) = kbd_pending k @ [incoming E k]" by (rule kbd_put)
next
  fix k :: "'a kbd_scheme"
  assume "kbd_buf_ok k" and "kbd_pending k = []"
  then show "\<exists>k'. next_scancode k = Done (None, k') \<and> kbd_buf_ok k' \<and> kbd_pending k' = []"
    by (auto simp: next_scancode_def kbd_buf_ok_def kbd_pending_def word_le_nat_alt)
next
  fix k :: "'a kbd_scheme" and x xs
  assume k: "kbd_buf_ok k" and p: "kbd_pending k = x # xs"
  let ?r = "unat (KBD_RPTR k)" and ?w = "unat (KBD_WPTR k)"
  have r: "?r < ?w" using p by (cases "?r < ?w") (simp_all add: kbd_pending_def)
  then have "[?r..<?w] = ?r # [Suc ?r..<?w]" by (simp add: upt_conv_Cons)
  then have x: "x = KBD_BUF k ! ?r" "xs = map ((!) (KBD_BUF k)) [Suc ?r..<?w]" using p by (simp_all add: kbd_pending_def)
  have w: "?w < 256" using unsigned_less [of "KBD_WPTR k", where 'a = nat] by simp
  then have "unat (KBD_RPTR k + 1) = Suc ?r" using r by (simp add: unat_word_ariths)
  then show "\<exists>k'. next_scancode k = Done (Some x, k') \<and> kbd_buf_ok k' \<and> kbd_pending k' = xs"
    using k r w x by (simp add: next_scancode_def kbd_buf_ok_def kbd_pending_def word_le_nat_alt Let_def)
qed

text \<open>
  C9: While the write pointer does not start over, the scancode buffer is a queue: however interrupts and polls
  interleave, the poll loop gets the scancodes in the order they arrived, none lost or duplicated, the rest is still pending, and as many further polls get all of it.
\<close>

theorem scancodes_in_order:
  fixes k :: "'a kbd_scheme"
  assumes "kbd_buf_ok k" and "session incoming kbd_room kbd_handler next_scancode k arrived handled k'"
  shows "kbd_pending k @ arrived = handled @ kbd_pending k'
    \<and> (\<exists>k''. session incoming kbd_room kbd_handler next_scancode k' [] (kbd_pending k') k'' \<and> kbd_pending k'' = [])"
  using scq.in_order [OF assms(2,1)] scq.drain [of k'] by blast

theorem scancodes_in_order_witness:
  "let k = initial_sysk\<lparr>KBD_INIT := True, KBD_BUF := replicate 256 0, KBD_RPTR := 0, KBD_WPTR := 0\<rparr>;
       k2 = kbd_handler sample_env (kbd_handler sample_env k)
   in \<exists>k'. next_scancode k2 = Done (Some (incoming sample_env k), k') \<and> kbd_pending k' = [incoming sample_env (kbd_handler sample_env k)]"
proof -
  define k where "k = initial_sysk\<lparr>KBD_INIT := True, KBD_BUF := replicate 256 0, KBD_RPTR := 0, KBD_WPTR := 0\<rparr>"
  let ?E = sample_env
  let ?k1 = "kbd_handler ?E k" and ?k2 = "kbd_handler ?E (kbd_handler ?E k)"
  have k: "kbd_buf_ok k" "kbd_pending k = []" "kbd_room k"
    by (simp_all add: k_def kbd_buf_ok_def kbd_pending_def kbd_room_def)
  then have r1: "kbd_room ?k1" by (simp add: k_def kbd_room_def kbd_handler_eq)
  note session_end [of incoming kbd_room kbd_handler next_scancode ?k2]
  from session_put [OF r1 this] have "session incoming kbd_room kbd_handler next_scancode ?k1 [incoming ?E ?k1] [] ?k2" .
  from session_put [OF k(3) this] have s: "session incoming kbd_room kbd_handler next_scancode k [incoming ?E k, incoming ?E ?k1] [] ?k2" .
  from scancodes_in_order [OF k(1) s] k(2) have p: "kbd_pending ?k2 = [incoming ?E k, incoming ?E ?k1]" by simp
  have "kbd_buf_ok ?k2" using scq.in_order [OF s k(1)] by blast
  from scq.get_next [OF this p] show ?thesis unfolding k_def Let_def by blast
qed

text \<open>
  The buffer is not circular for its reader: when the write pointer starts over, the next poll takes the pending scancodes, up to
  255 of them, and the one just stored for handled ones and drops them all.
\<close>

theorem scancodes_dropped_when_pointer_wraps:
  fixes k :: "'a kbd_scheme"
  assumes "KBD_INIT k" and "KBD_WPTR k = 255"
  shows "\<exists>k'. next_scancode (kbd_handler E k) = Done (None, k') \<and> KBD_RPTR k' = 0 \<and> KBD_WPTR k' = 0 \<and> kbd_pending k' = []"
proof -
  have "KBD_WPTR (kbd_handler E k) = 0" using assms by (simp add: kbd_handler_eq word_unat_eq_iff unat_word_ariths)
  then show ?thesis by (simp add: next_scancode_def kbd_pending_def Let_def)
qed

theorem scancodes_dropped_when_pointer_wraps_witness:
  "let k = initial_sysk\<lparr>KBD_INIT := True, KBD_BUF := replicate 256 7, KBD_RPTR := 250, KBD_WPTR := 255\<rparr>
   in kbd_pending k = [7, 7, 7, 7, 7] \<and> (\<exists>k'. next_scancode (kbd_handler sample_env k) = Done (None, k') \<and> kbd_pending k' = [])"
proof -
  let ?k = "initial_sysk\<lparr>KBD_INIT := True, KBD_BUF := replicate 256 7, KBD_RPTR := 250, KBD_WPTR := 255\<rparr>"
  have "[250..<255] = [250, 251, 252, 253, 254 :: nat]" by (simp add: upt_rec)
  then have "kbd_pending ?k = [7, 7, 7, 7, 7]" by (simp add: kbd_pending_def nth_replicate)
  then show ?thesis using scancodes_dropped_when_pointer_wraps [of ?k sample_env] by (simp add: Let_def) blast
qed

end
