(* ===== verification/Kbd_Safety.thy ===== *)
theory Kbd_Safety
  imports Kbd_Queue
begin

text \<open>
  The poll loop does not panic on its own: whatever the keyboard sends and however it is decoded, the kernel panics
  exactly when the system command that asks for it is typed.
\<close>

section \<open>Operations that may wait\<close>

text \<open>An operation that does not panic in a state with the property and keeps it when it returns.\<close>

definition guarded :: "('s \<Rightarrow> bool) \<Rightarrow> ('s \<Rightarrow> 's run) \<Rightarrow> bool" where
  "guarded P f \<longleftrightarrow> (\<forall>k. P k \<longrightarrow> f k \<noteq> Panic \<and> (\<forall>k'. f k = Done k' \<longrightarrow> P k'))"

lemma guarded_returns [intro]: "returns P f \<Longrightarrow> guarded P f"
  by (fastforce simp: returns_def guarded_def)

lemma guarded_Done [intro]: "(\<And>k. P k \<Longrightarrow> P (f k)) \<Longrightarrow> guarded P (\<lambda>k. Done (f k))"
  by (simp add: guarded_def)

lemma guarded_andThen [intro]:
  assumes "guarded P f" and "guarded P g"
  shows "guarded P (\<lambda>k. andThen (f k) g)"
proof -
  have "andThen (f k) g \<noteq> Panic \<and> (\<forall>k'. andThen (f k) g = Done k' \<longrightarrow> P k')" if "P k" for k
  proof (cases "f k")
    case (Done k1)
    then have "P k1" using assms(1) that unfolding guarded_def by blast
    then show ?thesis using assms(2) unfolding guarded_def Done andThen.simps by blast
  qed (use assms(1) that in \<open>auto simp: guarded_def\<close>)
  then show ?thesis unfolding guarded_def by blast
qed

lemma guardedD: "guarded P f \<Longrightarrow> P k \<Longrightarrow> f k \<noteq> Panic" "guarded P f \<Longrightarrow> P k \<Longrightarrow> f k = Done k' \<Longrightarrow> P k'"
  by (simp_all add: guarded_def)

section \<open>The state of a typing user\<close>

definition typing_ok :: "'a kbd_scheme \<Rightarrow> bool" where
  "typing_ok k \<longleftrightarrow> vga_ok k \<and> below_topbar k \<and> length (KBD_BUF k) = 256"

lemma KBD_BUF_more: "vga.more k' = vga.more k \<Longrightarrow> KBD_BUF k' = KBD_BUF (k :: 'a kbd_scheme)"
  by (cases k; cases k') simp

lemma typing_screen: "screen_stable typing_ok"
proof -
  have "typing_ok k'" if "typing_ok k" and s: "screen_step k k'" for k k' :: "'a kbd_scheme"
  proof -
    have "vga.more k' = vga.more k" using s by (simp add: screen_step_def)
    note KBD_BUF_more [OF this]
    then show ?thesis using that by (simp add: typing_ok_def screen_step_def)
  qed
  moreover have "vga_ok k" if "typing_ok k" for k :: "'a kbd_scheme" using that by (simp add: typing_ok_def)
  ultimately show ?thesis unfolding screen_stable_def by blast
qed

lemma typing_step: "typing_ok k \<Longrightarrow> screen_step k k' \<Longrightarrow> typing_ok k'"
  using typing_screen unfolding screen_stable_def by blast

lemma typing_log [simp]: "typing_ok (k\<lparr>io_log := log\<rparr>) = typing_ok k"
  by (simp add: typing_ok_def vga_ok_def below_topbar_def)

lemma typing_waiting [simp]: "typing_ok k \<Longrightarrow> typing_ok (set_waiting_char b k)"
  using vga_ok_waiting [of k b]
  by (simp add: typing_ok_def below_topbar_def set_waiting_char_def write_volatile_def Let_def split_beta)

lemma irq_buffer: "length (KBD_BUF (take_irq E i k)) = length (KBD_BUF k)"
proof (cases i)
  case TimerIrq
  have "KBD_BUF (decrease_motor_time k) = KBD_BUF k"
    by (auto simp: decrease_motor_time_def send_disable_cmd_def writeb_eq Let_def split: sum.splits)
  then show ?thesis using TimerIrq by (simp add: timer_handler_eq)
next
  case RtcIrq
  then show ?thesis
    by (simp add: handler_defs writeb_eq writeb_nodummy_def readb_nodummy_def sync_time_to_rtc_def time_now_def read_cmos_reg_eq Let_def)
qed (simp_all add: handler_defs kbd_handler_def readb_nodummy_def writeb_eq Let_def sti_def cli_def)

lemma typing_poll: "typing_ok k \<Longrightarrow> typing_ok (poll E ev k)"
proof -
  assume k: "typing_ok k"
  have "length (KBD_BUF (fold (take_irq E) is k)) = length (KBD_BUF k)" for "is" and k :: "'a kbd_scheme"
    by (induction "is" arbitrary: k) (simp_all add: irq_buffer)
  then have "length (KBD_BUF (poll E ev k)) = length (KBD_BUF k)" by (simp add: poll_def Let_def)
  moreover have "same_screen k (poll E ev k)" by (rule poll_frame(2))
  ultimately show ?thesis using k same_screen_vga_ok [of k "poll E ev k"]
    by (simp add: typing_ok_def same_screen_def below_topbar_def)
qed

lemma guarded_hlt: "guarded typing_ok (hlt E)"
  by (simp add: guarded_def hlt_def typing_poll)

lemma guarded_wait_loop: "guarded (typing_ok :: 'a kbd_scheme \<Rightarrow> bool) (wait_loop E n t)"
proof (induction n)
  case (Suc n)
  have eq: "wait_loop E (Suc n) t = (\<lambda>k :: 'a kbd_scheme. if TIME (poll E ClockRead k) < t
      then andThen (hlt E (poll E ClockRead k)) (wait_loop E n t) else Done (poll E ClockRead k))"
    by (simp add: fun_eq_iff get_time_def Let_def)
  have "guarded typing_ok (\<lambda>k :: 'a kbd_scheme. andThen (hlt E k) (wait_loop E n t))" by (rule guarded_andThen [OF guarded_hlt Suc.IH])
  then show ?case unfolding eq guarded_def using typing_poll by auto
qed (simp add: guarded_def)

lemma guarded_wait: "guarded (typing_ok :: 'a kbd_scheme \<Rightarrow> bool) (wait E ticks)"
proof -
  have "wait E ticks k \<noteq> Panic \<and> (\<forall>k'. wait E ticks k = Done k' \<longrightarrow> typing_ok k')" if k: "typing_ok k" for k :: "'a kbd_scheme"
  proof (cases "PIT_INIT k")
    case True
    let ?w = "poll E ClockRead (set_waiting_char True k)"
    have "guarded typing_ok (\<lambda>k :: 'a kbd_scheme. andThen (wait_loop E (fuel E) (TIME ?w + ticks + 1) k) (\<lambda>k. Done (set_waiting_char False k)))"
      by (intro guarded_andThen guarded_wait_loop guarded_Done typing_waiting)
    moreover have "typing_ok ?w" using k by (simp add: typing_poll)
    ultimately have "andThen (wait_loop E (fuel E) (TIME ?w + ticks + 1) ?w) (\<lambda>k. Done (set_waiting_char False k)) \<noteq> Panic \<and>
        (\<forall>k'. andThen (wait_loop E (fuel E) (TIME ?w + ticks + 1) ?w) (\<lambda>k. Done (set_waiting_char False k)) = Done k' \<longrightarrow> typing_ok k')"
      unfolding guarded_def by blast
    then show ?thesis using True by (simp add: wait_def get_time_def Let_def)
  qed (use k in \<open>simp add: wait_def\<close>)
  then show ?thesis unfolding guarded_def by blast
qed

section \<open>Tunes\<close>

lemma guarded_play: "freq \<noteq> 0 \<Longrightarrow> guarded typing_ok (play E freq)"
  using play_frame [of freq E] unfolding guarded_def by (metis run.distinct(1) run.inject typing_log)

lemma typing_stop [simp]: "typing_ok (stop E k) = typing_ok k"
  by (simp add: stop_eq Let_def)

lemma guarded_pulses: "freq \<noteq> 0 \<Longrightarrow> guarded (typing_ok :: 'a kbd_scheme \<Rightarrow> bool) (pulses E n freq)"
proof (induction n)
  case (Suc n)
  have stopped: "guarded typing_ok (\<lambda>k :: 'a kbd_scheme. andThen (wait E PULSE_LENGTH (stop E k)) (pulses E n freq))"
    using guarded_andThen [OF guarded_wait Suc.IH [OF Suc.prems]] typing_stop unfolding guarded_def by metis
  have eq: "pulses E (Suc n) freq = (\<lambda>k :: 'a kbd_scheme. andThen (play E freq k) (\<lambda>k. andThen (wait E PULSE_LENGTH k)
       (\<lambda>k. andThen (wait E PULSE_LENGTH (stop E k)) (pulses E n freq))))" by (simp add: fun_eq_iff)
  show ?case unfolding eq by (intro guarded_andThen guarded_play guarded_wait stopped Suc.prems)
qed (simp add: guarded_def)

lemma guarded_if [intro]:
  assumes "guarded P f" and "guarded P g"
  shows "guarded P (\<lambda>k. if b k then f k else g k)"
proof -
  have "(if b k then f k else g k) \<noteq> Panic \<and> (\<forall>k'. (if b k then f k else g k) = Done k' \<longrightarrow> P k')" if "P k" for k
    using guardedD [OF assms(1) that] guardedD [OF assms(2) that] by (cases "b k") auto
  then show ?thesis unfolding guarded_def by blast
qed

lemma guarded_tone: "freq \<noteq> 0 \<Longrightarrow> guarded typing_ok (play_special E freq millis rep)"
  unfolding play_special_def [abs_def] Let_def
  by (intro guarded_if guarded_andThen guarded_pulses guarded_play guarded_wait guarded_Done) simp_all

lemma guarded_tune: "\<forall>(f, _) \<in> set tune. f \<noteq> 0 \<Longrightarrow> guarded (typing_ok :: 'a kbd_scheme \<Rightarrow> bool) (play_tune E tune)"
proof (induction tune)
  case (Cons x tune)
  obtain f m r where x: "x = (f, m, r)" by (cases x)
  have eq: "play_tune E (x # tune) = (\<lambda>k :: 'a kbd_scheme. andThen (play_special E f m r k) (play_tune E tune))" by (simp add: fun_eq_iff x)
  have "f \<noteq> 0" "\<forall>(f, _) \<in> set tune. f \<noteq> 0" using Cons.prems x by simp_all
  then show ?case unfolding eq by (intro guarded_andThen guarded_tone Cons.IH)
qed (simp add: guarded_def)

lemma guarded_song: "guarded typing_ok (play_song E)"
  unfolding play_song_def by (rule guarded_tune) (simp add: song_rising_def song_beeping_def)

lemma guarded_chime: "guarded typing_ok (play_chime E)"
  unfolding play_chime_def by (rule guarded_tune) simp

section \<open>System commands and typing\<close>

lemma guarded_topbar: "guarded typing_ok (draw_topbar E)"
proof (intro guarded_returns returnsI)
  fix k :: "'a kbd_scheme" assume k: "typing_ok k"
  then have "vga_ok k" "\<not> ALLOW_ROW_0 k" by (simp_all add: typing_ok_def below_topbar_def)
  from draw_topbar_screen [OF this] show "\<exists>k'. draw_topbar E k = Done k' \<and> typing_ok k'" using typing_step [OF k] by blast
qed

lemmas guarded_print = guarded_returns [OF returns_print [OF typing_screen]]
lemmas guarded_println = guarded_returns [OF returns_println [OF typing_screen]]

lemma typing_ops:
  assumes "typing_ok k"
  shows "typing_ok (swap k)" "typing_ok (clear k)" "typing_ok (update_visual_pos k)" "typing_ok (set_col c k)" "typing_ok (set_row r k)"
    "typing_ok (shift_cursor d k)"
proof -
  have v: "vga_ok k" using assms by (simp add: typing_ok_def)
  note t = typing_step [OF assms]
  show "typing_ok (swap k)" by (rule t [OF swap_screen [OF v]])
  show "typing_ok (clear k)" by (rule t [OF clear_screen [OF v]])
  show "typing_ok (update_visual_pos k)" by (rule t [OF update_visual_screen [OF v]])
  show "typing_ok (set_col c k)" by (rule t [OF set_col_screen [OF v]])
  show "typing_ok (set_row r k)" by (rule t [OF set_row_screen [OF v]])
  show "typing_ok (shift_cursor d k)" by (rule t [OF shift_screen [OF v]])
qed

lemma guarded_after: "guarded P f \<Longrightarrow> (\<And>k. P k \<Longrightarrow> P (g k)) \<Longrightarrow> guarded P (\<lambda>k. f (g k))"
  unfolding guarded_def by blast

lemma guarded_print_help: "guarded typing_ok (print_help E)"
  unfolding print_help_def [abs_def] Let_def
  by (intro guarded_andThen guarded_println guarded_after [where g = "\<lambda>k. clear (swap k)"] guarded_topbar typing_ops)

lemma guarded_print_sysinfo: "guarded typing_ok (print_sysinfo E)"
proof -
  let ?bottom = "\<lambda>k. print ''Previous screen stored in alt buffer (Use SysCmd 6)'' (set_row (BUFFER_HEIGHT - 1) (set_col 0 k))"
  have e: "guarded typing_ok ?bottom"
    by (intro guarded_after [where f = "print _" and g = "\<lambda>k. set_row (BUFFER_HEIGHT - 1) (set_col 0 k)"] guarded_print typing_ops)
  have i: "guarded typing_ok (\<lambda>k :: 'a sysk_scheme. let (info, k) = system_info_now E k in andThen (print (system_info_display info) k) ?bottom)"
  proof -
    have "guarded typing_ok (\<lambda>k :: 'a sysk_scheme. andThen (print str k) ?bottom)" for str by (intro guarded_andThen guarded_print e)
    moreover have "typing_ok (snd (system_info_now E k))" if "typing_ok k" for k :: "'a sysk_scheme"
      using that typing_poll by (simp add: system_info_now_def get_time_def Let_def)
    ultimately show ?thesis unfolding guarded_def Let_def split_beta by blast
  qed
  show ?thesis unfolding print_sysinfo_def [abs_def] Let_def
    by (intro guarded_andThen guarded_println guarded_after [where g = "\<lambda>k. clear (swap k)"] guarded_topbar typing_ops
        i [unfolded Let_def])
qed

lemma syscmd_safe:
  fixes k :: "'a sysk_scheme"
  assumes "typing_ok k"
  shows "check_syscmd E key mods k = Panic \<longleftrightarrow> key = F4 \<and> syscmd_held mods k"
    and "check_syscmd E key mods k = Done k' \<Longrightarrow> typing_ok k'"
proof -
  have "if key = F4 \<and> syscmd_held mods k then check_syscmd E key mods k = Panic
    else check_syscmd E key mods k \<noteq> Panic \<and> (\<forall>k'. check_syscmd E key mods k = Done k' \<longrightarrow> typing_ok k')"
  proof (cases "syscmd_held mods k")
    case False
    then show ?thesis using assms by (simp add: check_syscmd_def)
  next
    case held: True
    show ?thesis
    proof (cases key)
      case F1
      then show ?thesis using held guardedD [OF guarded_print_sysinfo assms] by (simp add: check_syscmd_def)
    next
      case F2
      then show ?thesis using held guardedD [OF guarded_topbar typing_ops(2) [OF assms]] by (simp add: check_syscmd_def)
    next
      case F3
      then show ?thesis using held guardedD [OF guarded_song assms] by (simp add: check_syscmd_def)
    next
      case F7
      then show ?thesis using held guardedD [OF guarded_print_help assms] by (simp add: check_syscmd_def)
    qed (use held assms in \<open>simp_all add: check_syscmd_def triple_fault_resets typing_ops\<close>)
  qed
  then show "check_syscmd E key mods k = Panic \<longleftrightarrow> key = F4 \<and> syscmd_held mods k"
    and "check_syscmd E key mods k = Done k' \<Longrightarrow> typing_ok k'" by (auto split: if_splits)
qed

lemma print_char_safe: "guarded typing_ok (print_char E key mods)"
proof -
  have d: "guarded typing_ok delete_prev_char"
  proof (intro guarded_returns returnsI)
    fix k :: "'b kbd_scheme" assume k: "typing_ok k"
    then have "vga_ok k" "0 < CURSOR_row k" by (simp_all add: typing_ok_def below_topbar_def)
    from delete_prev_char_screen [OF this] show "\<exists>k'. delete_prev_char k = Done k' \<and> typing_ok k'" using typing_step [OF k] by blast
  qed
  have "print_char E key mods k \<noteq> Panic \<and> (\<forall>k'. print_char E key mods k = Done k' \<longrightarrow> typing_ok k')" if k: "typing_ok k" for k :: "'a kbd_scheme"
    using guardedD [OF d k] guardedD [OF guarded_print [where s = "\<lambda>_. utf8_str (typed_char (SHIFT k \<noteq> 0) (mod_capslock mods) key)"] k] k
    by (simp add: print_char_def Let_def)
  then show ?thesis unfolding guarded_def by blast
qed

lemma typing_fields [simp]:
  "typing_ok (k\<lparr>SHIFT := x\<rparr>) = typing_ok k" "typing_ok (k\<lparr>SYSRQ := y\<rparr>) = typing_ok k" "typing_ok (k\<lparr>KBD_RPTR := z\<rparr>) = typing_ok k"
  by (simp_all add: typing_ok_def vga_ok_def below_topbar_def)

lemma typing_track: "typing_ok k \<Longrightarrow> typing_ok (track_keys sc st k)"
  by (simp add: track_keys_def Let_def)

lemma typing_arrows: "typing_ok k \<Longrightarrow> typing_ok (check_arrows key k)"
  by (cases key) (simp_all add: typing_ops del: shift_cursor.simps)

text \<open>The only input that asks for a panic.\<close>

definition panic_requested :: "'s pc_keyboard \<Rightarrow> u8 \<Rightarrow> key_event \<Rightarrow> 's \<Rightarrow> 'a kbd_scheme \<Rightarrow> bool" where
  "panic_requested pk scancode event s k \<longleftrightarrow>
     (let (key, s) = pk_process_keyevent pk event s
      in key \<noteq> None \<and> ev_code event = F4 \<and> syscmd_held (pk_get_modifiers pk s) (track_keys scancode (ev_state event) k))"

lemma keyboard_input_safe:
  fixes k :: "'a sysk_scheme"
  assumes "typing_ok k"
  shows "(keyboard_input E pk sc ev s k = Panic \<longleftrightarrow> panic_requested pk sc ev s k)
    \<and> (\<forall>s' k'. keyboard_input E pk sc ev s k = Done (s', k') \<longrightarrow> typing_ok k')"
proof -
  let ?k = "track_keys sc (ev_state ev) k"
  have t: "typing_ok ?k" using assms by (rule typing_track)
  obtain key s1 where p: "pk_process_keyevent pk ev s = (key, s1)" by (cases "pk_process_keyevent pk ev s")
  show ?thesis
  proof (cases key)
    case None
    then show ?thesis using p t by (simp add: keyboard_input_def panic_requested_def Let_def)
  next
    case (Some key)
    let ?m = "pk_get_modifiers pk s1"
    note c = syscmd_safe [OF t, of E "ev_code ev" ?m]
    show ?thesis
    proof (cases "check_syscmd E (ev_code ev) ?m ?k")
      case (Done k1)
      then have k1: "typing_ok k1" using c by blast
      show ?thesis
      proof (cases key)
        case (RawKey r)
        then show ?thesis using p Some Done c k1 by (auto simp: keyboard_input_def panic_requested_def Let_def typing_arrows)
      next
        case (Unicode u)
        then show ?thesis using p Some Done c guardedD [OF print_char_safe k1, of E u ?m]
          by (cases "print_char E u ?m k1") (auto simp: keyboard_input_def panic_requested_def Let_def)
      qed
    qed (use p Some c in \<open>auto simp: keyboard_input_def panic_requested_def Let_def\<close>)
  qed
qed

section \<open>Polling\<close>

lemma poll_keyboard_outcome:
  fixes k :: "'a sysk_scheme"
  assumes "typing_ok k"
  shows "(poll_keyboard E pk (s, k) = Panic \<longleftrightarrow>
      (KBD_RPTR k < KBD_WPTR k \<and>
       (let sc = KBD_BUF k ! unat (KBD_RPTR k)
        in case pk_add_byte pk sc s of
             (Inr (Some ev), s') \<Rightarrow> panic_requested pk sc ev s' (k\<lparr>KBD_RPTR := KBD_RPTR k + 1\<rparr>)
           | _ \<Rightarrow> False)))
    \<and> (\<forall>s' k'. poll_keyboard E pk (s, k) = Done (s', k') \<longrightarrow> typing_ok k')"
proof (cases "KBD_WPTR k \<le> KBD_RPTR k")
  case True
  then show ?thesis using assms by (auto simp: poll_keyboard_def next_scancode_def)
next
  case False
  have "unat (KBD_RPTR k) < 256" using unsigned_less [of "KBD_RPTR k", where 'a = nat] by simp
  then have i: "\<not> length (KBD_BUF k) \<le> unat (KBD_RPTR k)" using assms by (simp add: typing_ok_def)
  let ?k = "k\<lparr>KBD_RPTR := KBD_RPTR k + 1\<rparr>" and ?sc = "KBD_BUF k ! unat (KBD_RPTR k)"
  have t: "typing_ok ?k" using assms by simp
  obtain r s1 where r: "pk_add_byte pk ?sc s = (r, s1)" by (cases "pk_add_byte pk ?sc s")
  have n: "next_scancode k = Done (Some ?sc, ?k)" using False i by (simp add: next_scancode_def Let_def)
  have p: "poll_keyboard E pk (s, k) = (case r of Inr (Some event) \<Rightarrow> keyboard_input E pk ?sc event s1 ?k | _ \<Rightarrow> Done (s1, ?k))"
    using r by (simp add: poll_keyboard_def n split: sum.split option.split)
  show ?thesis using False r t keyboard_input_safe [OF t, of E pk ?sc _ s1]
    by (auto simp: p split: sum.split option.split)
qed

text \<open>
  C20: Polling the keyboard keeps the screen and the buffer usable, and panics exactly if the scancode completes
  the press of F4 with the system command keys held: no other input, however it is decoded, can panic.
\<close>

theorem poll_keyboard_panics_iff_requested:
  fixes k :: "'a sysk_scheme"
  assumes "typing_ok k"
  shows "(poll_keyboard E pk (s, k) = Panic \<longleftrightarrow>
      (KBD_RPTR k < KBD_WPTR k \<and>
       (let sc = KBD_BUF k ! unat (KBD_RPTR k)
        in case pk_add_byte pk sc s of
             (Inr (Some ev), s') \<Rightarrow> panic_requested pk sc ev s' (k\<lparr>KBD_RPTR := KBD_RPTR k + 1\<rparr>)
           | _ \<Rightarrow> False)))
    \<and> (\<forall>s' k'. poll_keyboard E pk (s, k) = Done (s', k') \<longrightarrow> typing_ok k')"
  using assms by (rule poll_keyboard_outcome)

text \<open>A decoder that recognises nothing.\<close>

definition silent_keyboard :: "unit pc_keyboard" where
  "silent_keyboard = \<lparr>pk_add_byte = (\<lambda>_ s. (Inr None, s)), pk_process_keyevent = (\<lambda>_ s. (None, s)),
     pk_get_modifiers = (\<lambda>_. \<lparr>mod_ctrl = False, mod_alt = False, mod_capslock = False\<rparr>), pk_clear = id\<rparr>"

lemma initial_typing_ok: "typing_ok (initial_sysk\<lparr>KBD_BUF := replicate 256 0, CURSOR_row := 1, ALLOW_ROW_0 := False\<rparr>)"
  using initial_sysk_ok by (simp add: typing_ok_def vga_ok_def below_topbar_def)

theorem poll_keyboard_panics_iff_requested_witness:
  "poll_keyboard sample_env silent_keyboard ((), initial_sysk\<lparr>KBD_BUF := replicate 256 0, CURSOR_row := 1, ALLOW_ROW_0 := False\<rparr>) \<noteq> Panic"
  using poll_keyboard_panics_iff_requested [OF initial_typing_ok, of sample_env silent_keyboard "()"]
  by (simp add: silent_keyboard_def)

text \<open>The next scancode asks for a panic: it completes the press of F4 with the system command keys held.\<close>

definition panic_due :: "'s pc_keyboard \<Rightarrow> 's \<Rightarrow> 'a kbd_scheme \<Rightarrow> bool" where
  "panic_due pk s k \<longleftrightarrow> KBD_RPTR k < KBD_WPTR k \<and>
     (let sc = KBD_BUF k ! unat (KBD_RPTR k)
      in case pk_add_byte pk sc s of
           (Inr (Some ev), s') \<Rightarrow> panic_requested pk sc ev s' (k\<lparr>KBD_RPTR := KBD_RPTR k + 1\<rparr>)
         | _ \<Rightarrow> False)"

lemma poll_keyboard_due:
  fixes k :: "'a sysk_scheme"
  assumes "typing_ok k"
  shows "poll_keyboard E pk (s, k) = Panic \<longleftrightarrow> panic_due pk s k"
    and "poll_keyboard E pk (s, k) = Done (s', k') \<Longrightarrow> typing_ok k'"
  using poll_keyboard_outcome [OF assms, of E pk s] unfolding panic_due_def by blast+

text \<open>One iteration of the loop, and the rest of it.\<close>

lemma poll_loop_first:
  fixes k :: "'a sysk_scheme"
  assumes "typing_ok k" and "\<not> panic_due pk s k"
  shows "(\<forall>n. kbd_poll_loop E pk (Suc n) (s, k) = Hang)
    \<or> (\<exists>s1 k1. typing_ok k1 \<and> (\<forall>n. kbd_poll_loop E pk (Suc n) (s, k) = kbd_poll_loop E pk n (s1, k1)))"
proof (cases "poll_keyboard E pk (s, k)")
  case (Done x)
  obtain s1 k1 where x: "x = (s1, k1)" by (cases x)
  have k1: "typing_ok k1" using Done x by (intro poll_keyboard_due(2) [OF assms(1), of E pk s s1]) simp
  show ?thesis
  proof (cases "hlt E k1")
    case h: (Done k2)
    let ?k2 = "poll E ClockRead k2"
    let ?k3 = "if TIME ?k2 mod 10 = 0 then update_visual_pos ?k2 else ?k2"
    have "typing_ok ?k2" using guardedD(2) [OF guarded_hlt k1 h] by (rule typing_poll)
    then have "typing_ok ?k3" using typing_ops(3) [of ?k2] by (simp split: if_split)
    moreover have "kbd_poll_loop E pk (Suc n) (s, k) = kbd_poll_loop E pk n (s1, ?k3)" for n
      using Done x h by (simp add: get_time_def Let_def)
    ultimately show ?thesis by blast
  qed (use Done x guardedD(1) [OF guarded_hlt k1] in simp_all)
qed (use assms poll_keyboard_due(1) [OF assms(1), of E pk s] in simp_all)

text \<open>
  However long the kernel runs its poll loop, with whatever the keyboard sends and the interrupts that arrive in between, it
  panics exactly if one of its iterations finds a panic due, and the screen and the buffer stay usable.
\<close>

lemma poll_loop_panics_iff_due:
  fixes k :: "'a sysk_scheme"
  assumes "typing_ok k"
  shows "(kbd_poll_loop E pk n (s, k) = Panic \<longleftrightarrow>
      (\<exists>i < n. \<exists>s' k'. kbd_poll_loop E pk i (s, k) = Done (s', k') \<and> panic_due pk s' k'))
    \<and> (\<forall>s' k'. kbd_poll_loop E pk n (s, k) = Done (s', k') \<longrightarrow> typing_ok k')"
  using assms
proof (induction n arbitrary: s k)
  case (Suc n)
  let ?at = "\<lambda>s k i. \<exists>s' k'. kbd_poll_loop E pk i (s, k) = Done (s', k') \<and> panic_due pk s' k'"
  have split: "(\<exists>i < Suc n. ?at s k i) \<longleftrightarrow> ?at s k 0 \<or> (\<exists>i < n. ?at s k (Suc i))"
    by (rule Ex_less_Suc2)
  show ?case
  proof (cases "panic_due pk s k")
    case True
    then have "poll_keyboard E pk (s, k) = Panic" by (simp only: poll_keyboard_due(1) [OF Suc.prems, of E pk s])
    then have panic: "kbd_poll_loop E pk (Suc n) (s, k) = Panic" by simp
    have "?at s k 0" using True by simp
    then show ?thesis unfolding split panic by simp
  next
    case False
    then have no: "\<not> ?at s k 0" by simp
    from poll_loop_first [OF Suc.prems False, of E] show ?thesis
    proof (elim disjE exE conjE)
      assume "\<forall>n. kbd_poll_loop E pk (Suc n) (s, k) = Hang"
      then show ?thesis using no unfolding split by (simp del: kbd_poll_loop.simps)
    next
      fix s1 k1 assume k1: "typing_ok k1" and "\<forall>n. kbd_poll_loop E pk (Suc n) (s, k) = kbd_poll_loop E pk n (s1, k1)"
      then have step: "kbd_poll_loop E pk (Suc n) (s, k) = kbd_poll_loop E pk n (s1, k1)" for n by blast
      show ?thesis using Suc.IH [OF k1, of s1] no unfolding split step by blast
    qed
  qed
qed simp

end
