(* ===== verification/Startup.thy ===== *)
theory Startup
  imports Kbd_Safety
begin

text \<open>
  kernel/src/startup.rs and the entry point of kernel/src/main.rs: running the startup tasks in order, reporting each, and
  handing over to the poll loop.
\<close>

section \<open>Reporting a task\<close>

definition print_box :: "color \<Rightarrow> string \<Rightarrow> string \<Rightarrow> 'a vga_scheme \<Rightarrow> 'a vga_scheme run" where
  "print_box fg code name k =
     andThen (write_char 0x5B White Black k)
       (\<lambda>k. andThen (print_args ('' '' @ code @ '' '') fg Black k)
       (\<lambda>k. andThen (write_char 0x5D White Black k) (println Grey ('' '' @ name))))"

definition handle_exitcode :: "('e \<Rightarrow> string) \<Rightarrow> string \<Rightarrow> 'e exit_code \<Rightarrow> 'a vga_scheme \<Rightarrow> 'a vga_scheme run" where
  "handle_exitcode disp name exitcode k =
     (case exitcode of
        ExInfallible \<Rightarrow> print_box Cyan ''INF'' name k
      | ExOk \<Rightarrow> print_box Lime ''OK!'' name k
      | ExError e \<Rightarrow> andThen (print_box LightRed ''ERR'' name k) (println LightGrey (''error: '' @ disp e))
      | ExStop e \<Rightarrow> andThen (print_box Red ''STP'' name k) (\<lambda>_. Panic))"

definition run_task ::
  "('e \<Rightarrow> string) \<Rightarrow> string \<Rightarrow> ('a vga_scheme \<Rightarrow> ('e exit_code \<times> 'a vga_scheme) run) \<Rightarrow> 'a vga_scheme \<Rightarrow> 'a vga_scheme run" where
  "run_task disp name task k = andThen (task k) (\<lambda>(exitcode, k). handle_exitcode disp name exitcode k)"

section \<open>The entry point\<close>

text \<open>
  \<open>ctl\<close> is the controller driver's crate, \<open>cpuid\<close> what the instruction reports, \<open>pk\<close> the decoder's crate with its state \<open>s\<close>.
\<close>

definition core_tasks :: "env \<Rightarrow> ('a sysk_scheme \<Rightarrow> 'a sysk_scheme run) list" where
  "core_tasks E =
     [run_task (\<lambda>_ :: unit. '''') ''Connected VGA'' vga_init,
      run_task (load_register_error_display ''sunflower::interrupts::Idt'') ''Loaded IDT'' (load_idt E),
      run_task (init_error_display ''sunflower::gdt::Tss'') ''Prepared TSS load'' (\<lambda>k. Done (setup_tss E k)),
      run_task (load_register_error_display ''sunflower::gdt::Gdt'') ''Loaded GDT'' (load_gdt E),
      run_task load_tss_error_display ''Finished TSS load'' (load_tss E),
      run_task (\<lambda>_ :: unit. '''') ''Initialised PIC'' (\<lambda>k. Done (pic_init k)),
      run_task id ''Prepared RTC sync'' (\<lambda>k. Done (setup_rtc_int E k)),
      run_task id ''Set PIT frequency'' (\<lambda>k. Done (set_timer_interval k))]"

definition device_tasks :: "env \<Rightarrow> ps2_controller \<Rightarrow> (u32 \<times> u32 \<times> u32) option \<Rightarrow> ('a sysk_scheme \<Rightarrow> 'a sysk_scheme run) list" where
  "device_tasks E ctl cpuid =
     [run_task kbd_init_error_display ''Initialised keyboard'' (\<lambda>k. Done (kbd_init ctl k)),
      run_task id ''Checked CPUID'' (\<lambda>k. Done (check_cpuid cpuid k)),
      run_task rtc_sync_wait_error_display ''Finished RTC sync'' (wait_for_rtc_sync E),
      run_task floppy_error_display ''Initialised floppy drive'' (init_wrapper E),
      run_task fs_init_error_display ''Initialised floppyfs'' (init_floppyfs E)]"

fun run_all :: "('s \<Rightarrow> 's run) list \<Rightarrow> 's \<Rightarrow> 's run" where
  "run_all [] k = Done k"
| "run_all (task # tasks) k = andThen (task k) (run_all tasks)"

definition startup :: "env \<Rightarrow> ps2_controller \<Rightarrow> (u32 \<times> u32 \<times> u32) option \<Rightarrow> 'a sysk_scheme \<Rightarrow> 'a sysk_scheme run" where
  "startup E ctl cpuid = run_all (core_tasks E @ device_tasks E ctl cpuid)"

definition greet :: "env \<Rightarrow> 'a sysk_scheme \<Rightarrow> 'a sysk_scheme run" where
  "greet E k =
     andThen (draw_topbar E k)
       (\<lambda>k. andThen (println Green (nl_str @ ''All startup tasks completed! '' @ [CHR 0x01] @ nl_str) k)
       (\<lambda>k. play_chime E (update_visual_pos k)))"

text \<open>The poll loop never ends; \<open>n\<close> of its iterations are run.\<close>

definition kmain ::
  "env \<Rightarrow> ps2_controller \<Rightarrow> (u32 \<times> u32 \<times> u32) option \<Rightarrow> 's pc_keyboard \<Rightarrow> 's \<Rightarrow> nat \<Rightarrow> 'a sysk_scheme \<Rightarrow> ('s \<times> 'a sysk_scheme) run" where
  "kmain E ctl cpuid pk s n k =
     andThen (startup E ctl cpuid k) (\<lambda>k. andThen (greet E k) (\<lambda>k. kbd_poll_loop E pk n (s, k)))"

section \<open>From one task to the next\<close>

text \<open>A step that may not return, does not panic and takes one property to another; a step that returns.\<close>

definition leads :: "('s \<Rightarrow> bool) \<Rightarrow> ('s \<Rightarrow> 's run) \<Rightarrow> ('s \<Rightarrow> bool) \<Rightarrow> bool" where
  "leads P f Q \<longleftrightarrow> (\<forall>k. P k \<longrightarrow> f k \<noteq> Panic \<and> (\<forall>k'. f k = Done k' \<longrightarrow> Q k'))"

definition reaches :: "('s \<Rightarrow> bool) \<Rightarrow> ('s \<Rightarrow> 's run) \<Rightarrow> ('s \<Rightarrow> bool) \<Rightarrow> bool" where
  "reaches P f Q \<longleftrightarrow> (\<forall>k. P k \<longrightarrow> (\<exists>k'. f k = Done k' \<and> Q k'))"

lemma leads_guarded: "guarded P f \<Longrightarrow> leads P f P"
  by (simp add: guarded_def leads_def)

lemma leads_reaches: "reaches P f Q \<Longrightarrow> leads P f Q"
  unfolding reaches_def leads_def by fastforce

lemma leads_weaken: "leads P f Q \<Longrightarrow> (\<And>k. Q k \<Longrightarrow> R k) \<Longrightarrow> leads P f R"
  unfolding leads_def by blast

lemma leads_then:
  assumes "leads P f Q" and "leads Q g R" shows "leads P (\<lambda>k. andThen (f k) g) R"
proof -
  have "andThen (f k) g \<noteq> Panic \<and> (\<forall>k'. andThen (f k) g = Done k' \<longrightarrow> R k')" if "P k" for k
  proof (cases "f k")
    case (Done k1)
    then have "Q k1" using assms(1) that unfolding leads_def by blast
    then show ?thesis using assms(2) unfolding leads_def Done andThen.simps by blast
  qed (use assms(1) that in \<open>auto simp: leads_def\<close>)
  then show ?thesis unfolding leads_def by blast
qed

lemma reaches_then: "reaches P f Q \<Longrightarrow> reaches Q g R \<Longrightarrow> reaches P (\<lambda>k. andThen (f k) g) R"
  unfolding reaches_def by fastforce

lemma leads_all_Nil: "(\<And>k. P k \<Longrightarrow> Q k) \<Longrightarrow> leads P (run_all []) Q"
  by (simp add: leads_def)

lemma leads_all_Cons: "leads P t Q \<Longrightarrow> leads Q (run_all ts) R \<Longrightarrow> leads P (run_all (t # ts)) R"
  using leads_then [of P t Q "run_all ts" R] by (simp add: leads_def)

lemma reaches_all_Nil: "(\<And>k. P k \<Longrightarrow> Q k) \<Longrightarrow> reaches P (run_all []) Q"
  by (simp add: reaches_def)

lemma reaches_all_Cons: "reaches P t Q \<Longrightarrow> reaches Q (run_all ts) R \<Longrightarrow> reaches P (run_all (t # ts)) R"
  unfolding reaches_def by fastforce

lemma run_all_append: "run_all (a @ b) k = andThen (run_all a k) (run_all b)"
proof (induction a arbitrary: k)
  case (Cons t a)
  then show ?case by (cases "t k") simp_all
qed simp

text \<open>Reports only print.\<close>

lemma print_box_screen:
  assumes "vga_ok k" shows "\<exists>k'. print_box fg code name k = Done k' \<and> screen_step k k'"
proof -
  obtain k1 where k1: "write_char 0x5B White Black k = Done k1" "screen_step k k1" using write_char_screen [OF assms] by blast
  obtain k2 where k2: "print_args ('' '' @ code @ '' '') fg Black k1 = Done k2" "screen_step k1 k2"
    using print_args_screen [OF screen_step_ok [OF k1(2)]] by blast
  obtain k3 where k3: "write_char 0x5D White Black k2 = Done k3" "screen_step k2 k3"
    using write_char_screen [OF screen_step_ok [OF k2(2)]] by blast
  obtain k4 where k4: "println Grey ('' '' @ name) k3 = Done k4" "screen_step k3 k4"
    using println_screen [OF screen_step_ok [OF k3(2)]] by blast
  show ?thesis using k1 k2 k3 k4 by (auto simp: print_box_def intro: screen_step_trans)
qed

lemma handle_exitcode_screen:
  assumes "vga_ok k" and "\<And>e. r \<noteq> ExStop e"
  shows "\<exists>k'. handle_exitcode disp name r k = Done k' \<and> screen_step k k'"
proof (cases r)
  case (ExError e)
  obtain k1 where k1: "print_box LightRed ''ERR'' name k = Done k1" "screen_step k k1" using print_box_screen [OF assms(1)] by blast
  obtain k2 where "println LightGrey (''error: '' @ disp e) k1 = Done k2" "screen_step k1 k2"
    using println_screen [OF screen_step_ok [OF k1(2)]] by blast
  then show ?thesis using k1 ExError by (auto simp: handle_exitcode_def intro: screen_step_trans)
qed (use assms print_box_screen [OF assms(1)] in \<open>auto simp: handle_exitcode_def\<close>)

text \<open>A task that returns, and one that may wait, with the report.\<close>

lemma reaches_task:
  assumes "screen_stable Q" and "\<And>k. P k \<Longrightarrow> \<exists>r k'. task k = Done (r, k') \<and> Q k' \<and> (\<forall>e. r \<noteq> ExStop e)"
  shows "reaches P (run_task disp name task) Q"
  unfolding reaches_def
proof (intro allI impI)
  fix k assume "P k"
  then obtain r k1 where r: "task k = Done (r, k1)" "Q k1" "\<And>e. r \<noteq> ExStop e" using assms(2) by blast
  then obtain k2 where "handle_exitcode disp name r k1 = Done k2" "screen_step k1 k2"
    using handle_exitcode_screen [of k1 r] assms(1) unfolding screen_stable_def by blast
  moreover have "Q k2" using calculation(2) r(2) assms(1) unfolding screen_stable_def by blast
  ultimately show "\<exists>k'. run_task disp name task k = Done k' \<and> Q k'" using r(1) by (simp add: run_task_def)
qed

lemma leads_task:
  assumes "screen_stable Q" and "\<And>k. P k \<Longrightarrow> task k \<noteq> Panic"
    and "\<And>k r k'. P k \<Longrightarrow> task k = Done (r, k') \<Longrightarrow> Q k' \<and> (\<forall>e. r \<noteq> ExStop e)"
  shows "leads P (run_task disp name task) Q"
  unfolding leads_def
proof (intro allI impI)
  fix k assume P: "P k"
  show "run_task disp name task k \<noteq> Panic \<and> (\<forall>k'. run_task disp name task k = Done k' \<longrightarrow> Q k')"
  proof (cases "task k")
    case (Done x)
    obtain r k1 where x: "x = (r, k1)" by (cases x)
    then have q: "Q k1" "\<And>e. r \<noteq> ExStop e" using assms(3) [OF P] Done by blast+
    then obtain k2 where "handle_exitcode disp name r k1 = Done k2" "screen_step k1 k2"
      using handle_exitcode_screen [of k1 r] assms(1) unfolding screen_stable_def by blast
    moreover have "Q k2" using calculation(2) q(1) assms(1) unfolding screen_stable_def by blast
    ultimately show ?thesis using Done x by (simp add: run_task_def)
  qed (use assms(2) [OF P] in \<open>simp_all add: run_task_def\<close>)
qed

end
