(* ===== verification/Boot.thy ===== *)
theory Boot
  imports Startup
begin

text \<open>
  The startup tasks from the state the boot loader leaves: the stages they go through, that none of them panics, and what
  the kernel has when it starts polling the keyboard.
\<close>

section \<open>Stages\<close>

definition fs_fresh :: "'a fsk_scheme \<Rightarrow> bool" where
  "fs_fresh k \<longleftrightarrow> tbl_ok (INODE_TBL k) \<and> bmp_ok (BLOCK_BMP k)"

definition disk_fresh :: "'a fsk_scheme \<Rightarrow> bool" where
  "disk_fresh k \<longleftrightarrow> fdc_fresh k \<and> \<not> FLOPPY_INIT k \<and> fs_fresh k"

text \<open>
  What the boot loader leaves: no static initialised, the code segment \<open>cs\<close>. Before the first task the cursor may be in the row of the top bar.
\<close>

definition unbooted :: "u16 \<Rightarrow> 'a sysk_scheme \<Rightarrow> bool" where
  "unbooted cs k \<longleftrightarrow> cs_reg k = cs \<and> il_state (IDT k) = UNINIT \<and> il_state (GDT k) = UNINIT \<and> il_state (TSS k) = UNINIT \<and> disk_fresh k"

definition powered_on :: "u16 \<Rightarrow> 'a sysk_scheme \<Rightarrow> bool" where
  "powered_on cs k \<longleftrightarrow> vga_ok k \<and> \<not> ALLOW_ROW_0 k \<and> length (KBD_BUF k) = 256 \<and> unbooted cs k"

definition with_idt :: "env \<Rightarrow> u16 \<Rightarrow> 'a sysk_scheme \<Rightarrow> bool" where
  "with_idt E cs k \<longleftrightarrow> idt_ready E cs k \<and> il_state (GDT k) = UNINIT \<and> il_state (TSS k) = UNINIT \<and> disk_fresh k"

definition with_tss :: "env \<Rightarrow> u16 \<Rightarrow> 'a sysk_scheme \<Rightarrow> bool" where
  "with_tss E cs k \<longleftrightarrow> idt_ready E cs k \<and> il_state (GDT k) = UNINIT \<and> init_later_read (TSS k) = Ok (emergency_tss E) \<and> disk_fresh k"

definition with_gdt :: "env \<Rightarrow> u16 \<Rightarrow> 'a sysk_scheme \<Rightarrow> bool" where
  "with_gdt E cs k \<longleftrightarrow> idt_ready E cs k \<and> GDT k = \<lparr>il_cell = gdt_entries (Some (static_addr E ''TSS'')), il_state = INIT\<rparr> \<and> GDT_INIT k
     \<and> gdtr k = table_descriptor_new (8 * GDT_ENTRIES) (static_addr E ''GDT'') \<and> cs_reg k = 8
     \<and> init_later_read (TSS k) = Ok (emergency_tss E) \<and> disk_fresh k"

definition tables_ready :: "env \<Rightarrow> u16 \<Rightarrow> 'a sysk_scheme \<Rightarrow> bool" where
  "tables_ready E cs k \<longleftrightarrow> idt_ready E cs k \<and> gdt_ready E k"

definition core_ready :: "bool \<Rightarrow> bool \<Rightarrow> bool \<Rightarrow> env \<Rightarrow> u16 \<Rightarrow> 'a sysk_scheme \<Rightarrow> bool" where
  "core_ready pic rtc pit E cs k \<longleftrightarrow> tables_ready E cs k \<and> GDT_INIT k \<and> disk_fresh k
     \<and> (pic \<longrightarrow> PIC_INIT k) \<and> (rtc \<longrightarrow> RTC_IRQ_INIT k) \<and> (pit \<longrightarrow> PIT_INIT k \<and> ints_on k)"

lemmas stage_defs = unbooted_def with_idt_def with_tss_def with_gdt_def core_ready_def tables_ready_def disk_fresh_def fs_fresh_def
  fdc_fresh_def gdt_ready_def

section \<open>What the stages depend on\<close>

lemma kbd_more_fields:
  fixes k k' :: "'a sysk_scheme"
  assumes "kbd.more k' = kbd.more k"
  shows "IDT k' = IDT k" "idtr k' = idtr k" "GDT k' = GDT k" "gdtr k' = gdtr k" "TSS k' = TSS k" "cs_reg k' = cs_reg k"
    "task_reg k' = task_reg k" "INODE_TBL k' = INODE_TBL k" "BLOCK_BMP k' = BLOCK_BMP k"
  using assms by (cases k; cases k'; simp)+

lemma stage_screen:
  fixes Q :: "'a sysk_scheme \<Rightarrow> bool"
  assumes "\<And>k k'. vga.more k' = vga.more k \<Longrightarrow> machine_flags k' = machine_flags k \<Longrightarrow> Q k' = Q k"
  shows "screen_stable (\<lambda>k. typing_ok k \<and> Q k)"
proof -
  have "typing_ok k' \<and> Q k'" if k: "typing_ok k \<and> Q k" and s: "screen_step k k'" for k k' :: "'a sysk_scheme"
  proof -
    have "vga.more k' = vga.more k" "machine_flags k' = machine_flags k" using s by (simp_all add: screen_step_def)
    from assms [OF this] k typing_step [OF _ s] show ?thesis by blast
  qed
  moreover have "vga_ok k" if "typing_ok k \<and> Q k" for k :: "'a sysk_scheme" using that by (simp add: typing_ok_def)
  ultimately show ?thesis unfolding screen_stable_def by blast
qed

lemma screen_fields:
  fixes k k' :: "'a sysk_scheme"
  assumes "vga.more k' = vga.more k" and "machine_flags k' = machine_flags k"
  shows "IDT k' = IDT k" "idtr k' = idtr k" "GDT k' = GDT k" "gdtr k' = gdtr k" "TSS k' = TSS k" "cs_reg k' = cs_reg k"
    "task_reg k' = task_reg k" "INODE_TBL k' = INODE_TBL k" "BLOCK_BMP k' = BLOCK_BMP k"
    "BASE_OFFSET k' = BASE_OFFSET k" "FLOPPY_SPACE k' = FLOPPY_SPACE k" "DRIVE_ONE k' = DRIVE_ONE k"
    "ints_on k' = ints_on k" "GDT_INIT k' = GDT_INIT k" "PIC_INIT k' = PIC_INIT k" "PIT_INIT k' = PIT_INIT k"
    "FLOPPY_INIT k' = FLOPPY_INIT k" "RTC_IRQ_INIT k' = RTC_IRQ_INIT k"
proof -
  have m: "kbd.more k' = kbd.more k" using more_fields [OF assms(1)] by blast
  show "IDT k' = IDT k" "idtr k' = idtr k" "GDT k' = GDT k" "gdtr k' = gdtr k" "TSS k' = TSS k" "cs_reg k' = cs_reg k"
    "task_reg k' = task_reg k" "INODE_TBL k' = INODE_TBL k" "BLOCK_BMP k' = BLOCK_BMP k"
    by (rule kbd_more_fields [OF m])+
  show "BASE_OFFSET k' = BASE_OFFSET k" "FLOPPY_SPACE k' = FLOPPY_SPACE k" "DRIVE_ONE k' = DRIVE_ONE k"
    using more_fields [OF assms(1)] by blast+
  show "ints_on k' = ints_on k" "GDT_INIT k' = GDT_INIT k" "PIC_INIT k' = PIC_INIT k" "PIT_INIT k' = PIT_INIT k"
    "FLOPPY_INIT k' = FLOPPY_INIT k" "RTC_IRQ_INIT k' = RTC_IRQ_INIT k"
    using assms(2) unfolding machine_flags_def by blast+
qed

lemma stages_cong:
  fixes k k' :: "'a sysk_scheme"
  assumes "vga.more k' = vga.more k" and "machine_flags k' = machine_flags k"
  shows "unbooted cs k' = unbooted cs k" "with_idt E cs k' = with_idt E cs k" "with_tss E cs k' = with_tss E cs k"
    "with_gdt E cs k' = with_gdt E cs k" "core_ready a b c E cs k' = core_ready a b c E cs k"
    "(tables_ready E cs k' \<and> disk_fresh k') = (tables_ready E cs k \<and> disk_fresh k)"
    "(tables_ready E cs k' \<and> fs_fresh k') = (tables_ready E cs k \<and> fs_fresh k)" "tables_ready E cs k' = tables_ready E cs k"
  by (simp_all only: stage_defs idt_ready_def gate_of_def screen_fields [OF assms])

lemma stages_screen:
  "screen_stable (\<lambda>k. typing_ok k \<and> unbooted cs k)" "screen_stable (\<lambda>k. typing_ok k \<and> with_idt E cs k)"
  "screen_stable (\<lambda>k. typing_ok k \<and> with_tss E cs k)" "screen_stable (\<lambda>k. typing_ok k \<and> with_gdt E cs k)"
  "screen_stable (\<lambda>k. typing_ok k \<and> core_ready a b c E cs k)" "screen_stable (\<lambda>k. typing_ok k \<and> tables_ready E cs k \<and> disk_fresh k)"
  "screen_stable (\<lambda>k. typing_ok k \<and> tables_ready E cs k \<and> fs_fresh k)" "screen_stable (\<lambda>k. typing_ok k \<and> tables_ready E cs k)"
  by (rule stage_screen, erule (1) stages_cong)+

section \<open>The processor's tables and the timer\<close>

lemma typing_machine:
  "typing_ok (k\<lparr>ints_on := a\<rparr>) = typing_ok k" "typing_ok (k\<lparr>GDT_INIT := a\<rparr>) = typing_ok k" "typing_ok (k\<lparr>PIC_INIT := a\<rparr>) = typing_ok k"
  "typing_ok (k\<lparr>PIT_INIT := a\<rparr>) = typing_ok k" "typing_ok (k\<lparr>KBD_INIT := a\<rparr>) = typing_ok k" "typing_ok (k\<lparr>RTC_IRQ_INIT := a\<rparr>) = typing_ok k"
  by (simp_all add: typing_ok_def vga_ok_def below_topbar_def)

lemma typing_tables:
  fixes k :: "'a sysk_scheme"
  shows "typing_ok (k\<lparr>IDT := i\<rparr>) = typing_ok k" "typing_ok (k\<lparr>idtr := d\<rparr>) = typing_ok k" "typing_ok (k\<lparr>GDT := g\<rparr>) = typing_ok k"
    "typing_ok (k\<lparr>gdtr := d\<rparr>) = typing_ok k" "typing_ok (k\<lparr>TSS := t\<rparr>) = typing_ok k" "typing_ok (k\<lparr>cs_reg := c\<rparr>) = typing_ok k"
    "typing_ok (k\<lparr>task_reg := r\<rparr>) = typing_ok k" "typing_ok (k\<lparr>VENDOR := v\<rparr>) = typing_ok k"
  by (simp_all add: typing_ok_def vga_ok_def below_topbar_def)

lemma idt_ready_upd [simp]:
  "idt_ready E cs (k\<lparr>io_log := log\<rparr>) = idt_ready E cs k" "idt_ready E cs (k\<lparr>ints_on := a\<rparr>) = idt_ready E cs k"
  "idt_ready E cs (k\<lparr>GDT_INIT := a\<rparr>) = idt_ready E cs k" "idt_ready E cs (k\<lparr>PIC_INIT := a\<rparr>) = idt_ready E cs k"
  "idt_ready E cs (k\<lparr>PIT_INIT := a\<rparr>) = idt_ready E cs k" "idt_ready E cs (k\<lparr>KBD_INIT := a\<rparr>) = idt_ready E cs k"
  "idt_ready E cs (k\<lparr>RTC_IRQ_INIT := a\<rparr>) = idt_ready E cs k" "idt_ready E cs (k\<lparr>TSS := t\<rparr>) = idt_ready E cs k"
  "idt_ready E cs (k\<lparr>GDT := g\<rparr>) = idt_ready E cs k" "idt_ready E cs (k\<lparr>gdtr := d\<rparr>) = idt_ready E cs k"
  "idt_ready E cs (k\<lparr>cs_reg := c\<rparr>) = idt_ready E cs k" "idt_ready E cs (k\<lparr>task_reg := r\<rparr>) = idt_ready E cs k"
  "idt_ready E cs (k\<lparr>INODE_TBL := tbl\<rparr>) = idt_ready E cs k" "idt_ready E cs (k\<lparr>BLOCK_BMP := bmp\<rparr>) = idt_ready E cs k"
  "idt_ready E cs (k\<lparr>FLOPPYFS_INIT := a\<rparr>) = idt_ready E cs k"
  by (simp_all add: idt_ready_def gate_of_def)

lemma idt_ready_vendor [simp]: "idt_ready E cs (k\<lparr>VENDOR := v\<rparr>) = idt_ready E cs k"
  by (simp add: idt_ready_def gate_of_def)

lemma vga_task:
  assumes "powered_on cs k"
  shows "\<exists>(r :: unit exit_code) k'. vga_init k = Done (r, k') \<and> (typing_ok k' \<and> unbooted cs k') \<and> (\<forall>e. r \<noteq> ExStop e)"
proof -
  have k: "vga_ok k" "\<not> ALLOW_ROW_0 k" "length (KBD_BUF k) = 256" "unbooted cs k" using assms by (simp_all add: powered_on_def)
  then obtain k' where k': "vga_init k = Done (ExInfallible :: unit exit_code, k')" "screen_step k k'" "below_topbar k'"
    using vga_init_screen by blast
  have m: "vga.more k' = vga.more k" "machine_flags k' = machine_flags k" using k'(2) by (simp_all add: screen_step_def)
  have "typing_ok k'" using k'(2,3) k(3) KBD_BUF_more [OF m(1)] by (simp add: typing_ok_def screen_step_def)
  moreover have "unbooted cs k'" using k(4) stages_cong(1) [OF m] by simp
  ultimately show ?thesis using k'(1) by blast
qed

lemma idt_task:
  assumes "typing_ok k \<and> unbooted cs k"
  shows "\<exists>r k'. load_idt E k = Done (r, k') \<and> (typing_ok k' \<and> with_idt E cs k') \<and> (\<forall>e. r \<noteq> ExStop e)"
proof -
  have u: "il_state (IDT k) = UNINIT" "cs_reg k = cs" using assms by (simp_all add: unbooted_def)
  obtain c d where l: "load_idt E k = Done (ExOk, k\<lparr>IDT := c, idtr := d\<rparr>)" "idt_ready E cs (k\<lparr>IDT := c, idtr := d\<rparr>)"
    using load_idt_fresh [OF u(1), of E] u(2) by blast
  have "typing_ok (k\<lparr>IDT := c, idtr := d\<rparr>) \<and> with_idt E cs (k\<lparr>IDT := c, idtr := d\<rparr>)"
    using assms l(2) by (simp add: typing_tables unbooted_def with_idt_def disk_fresh_def fs_fresh_def fdc_fresh_def)
  then show ?thesis using l(1) by blast
qed

lemma tss_task:
  assumes "typing_ok k \<and> with_idt E cs k"
  shows "\<exists>r k'. Done (setup_tss E k) = Done (r, k') \<and> (typing_ok k' \<and> with_tss E cs k') \<and> (\<forall>e. r \<noteq> ExStop e)"
  using assms setup_tss_fresh [of k E] by (simp add: typing_tables stage_defs init_later_read_def)

lemma gdt_task:
  assumes "typing_ok k \<and> with_tss E cs k"
  shows "\<exists>r k'. load_gdt E k = Done (r, k') \<and> (typing_ok k' \<and> with_gdt E cs k') \<and> (\<forall>e. r \<noteq> ExStop e)"
  using assms load_gdt_fresh [of k E] by (simp add: typing_tables typing_machine stage_defs)

lemma load_tss_task:
  assumes "typing_ok k \<and> with_gdt E cs k"
  shows "\<exists>r k'. load_tss E k = Done (r, k') \<and> (typing_ok k' \<and> core_ready False False False E cs k') \<and> (\<forall>e. r \<noteq> ExStop e)"
  using assms load_tss_loaded [of k E] by (simp add: typing_tables stage_defs)

lemma pic_task:
  assumes "typing_ok k \<and> core_ready False False False E cs k"
  shows "\<exists>r k'. Done (pic_init k) = Done (r, k') \<and> (typing_ok k' \<and> core_ready True False False E cs k') \<and> (\<forall>e. r \<noteq> ExStop e)"
  using assms by (simp add: pic_init_def writeb_eq Let_def typing_machine stage_defs)

lemma rtc_task:
  assumes "typing_ok k \<and> core_ready True False False E cs k"
  shows "\<exists>r k'. Done (setup_rtc_int E k) = Done (r, k') \<and> (typing_ok k' \<and> core_ready True True False E cs k') \<and> (\<forall>e. r \<noteq> ExStop e)"
  using assms by (simp add: setup_rtc_int_def writeb_eq read_cmos_reg_eq sti_def cli_def Let_def typing_machine stage_defs)

lemma pit_task:
  assumes "typing_ok k \<and> core_ready True True False E cs k"
  shows "\<exists>r k'. Done (set_timer_interval k) = Done (r, k') \<and> (typing_ok k' \<and> core_ready True True True E cs k') \<and> (\<forall>e. r \<noteq> ExStop e)"
  using assms by (simp add: set_timer_interval_def writeb_eq sti_def Let_def typing_machine stage_defs)

lemma core_tasks_reach:
  "reaches (powered_on cs) (run_all (core_tasks E)) (\<lambda>k. typing_ok k \<and> core_ready True True True E cs k)"
  unfolding core_tasks_def
  by (rule reaches_all_Cons reaches_all_Nil reaches_task stages_screen vga_task idt_task tss_task gdt_task load_tss_task pic_task rtc_task
      pit_task | assumption)+

section \<open>What the devices are told\<close>
















section \<open>The devices\<close>

lemma kbd_task:
  assumes "typing_ok k \<and> core_ready True True True E cs k"
  shows "\<exists>r k'. Done (kbd_init ctl k) = Done (r, k') \<and> (typing_ok k' \<and> tables_ready E cs k' \<and> disk_fresh k') \<and> (\<forall>e. r \<noteq> ExStop e)"
proof -
  obtain r log where "run_calls ctl kbd_init_calls (sti k) = (r, (sti k)\<lparr>io_log := log\<rparr>)"
    using run_calls_outcome [of ctl kbd_init_calls "sti k"] by blast
  then show ?thesis using assms
    by (cases r) (simp_all add: kbd_init_def sti_def typing_machine stage_defs)
qed

lemma cpuid_task:
  assumes "typing_ok k \<and> tables_ready E cs k \<and> disk_fresh k"
  shows "\<exists>r k'. Done (check_cpuid cpuid k) = Done (r, k') \<and> (typing_ok k' \<and> tables_ready E cs k' \<and> disk_fresh k') \<and> (\<forall>e. r \<noteq> ExStop e)"
  using assms by (cases cpuid) (auto simp: check_cpuid_def typing_tables stage_defs Let_def split: prod.split)

text \<open>Interrupts do not change what the later tasks rely on.\<close>

lemma tables_more:
  fixes k k' :: "'a sysk_scheme"
  assumes "kbd.more k' = kbd.more k"
  shows "tables_ready E cs k' = tables_ready E cs k" "fs_fresh k' = fs_fresh k"
  by (simp_all only: stage_defs idt_ready_def gate_of_def kbd_more_fields [OF assms])

lemma disk_fresh_poll: "typing_ok k \<and> tables_ready E' cs k \<and> disk_fresh k \<Longrightarrow>
    typing_ok (poll E ev k) \<and> tables_ready E' cs (poll E ev k) \<and> disk_fresh (poll E ev k)" for k :: "'a sysk_scheme"
proof -
  assume k: "typing_ok k \<and> tables_ready E' cs k \<and> disk_fresh k"
  have u: "undisturbed k (poll E ev k)" by (rule poll_frame(1))
  then have "kbd.more (poll E ev k) = kbd.more k" by (simp add: undisturbed_def)
  note m = tables_more [OF this]
  have "fdc_fresh (poll E ev k) = fdc_fresh k" "FLOPPY_INIT (poll E ev k) = FLOPPY_INIT k"
    using u by (simp_all add: undisturbed_def fdc_fresh_def)
  then show ?thesis using k m typing_poll [of k] unfolding disk_fresh_def by blast
qed

lemma rtc_spin_stage:
  "typing_ok k \<and> tables_ready E' cs k \<and> disk_fresh k \<Longrightarrow> rtc_spin E n k \<noteq> Panic
    \<and> (\<forall>k'. rtc_spin E n k = Done k' \<longrightarrow> typing_ok k' \<and> tables_ready E' cs k' \<and> disk_fresh k')" for k :: "'a sysk_scheme"
proof (induction n arbitrary: k)
  case (Suc n)
  note IH = Suc.IH [OF disk_fresh_poll [OF Suc.prems, of E Spin]]
  show ?case
  proof (cases "RTC_SYNC_DONE k")
    case False
    then have "rtc_spin E (Suc n) k = rtc_spin E n (poll E Spin k)" by simp
    then show ?thesis using IH by presburger
  qed (use Suc.prems in simp)
qed simp

lemma rtc_sync_task:
  fixes k :: "'a sysk_scheme"
  assumes "typing_ok k \<and> tables_ready E' cs k \<and> disk_fresh k"
  shows "wait_for_rtc_sync E k \<noteq> Panic"
    "wait_for_rtc_sync E k = Done (r, k') \<Longrightarrow> (typing_ok k' \<and> tables_ready E' cs k' \<and> disk_fresh k') \<and> (\<forall>e. r \<noteq> ExStop e)"
proof -
  note sp = rtc_spin_stage [OF assms, of E "fuel E"]
  show "wait_for_rtc_sync E k \<noteq> Panic"
    using sp by (cases "rtc_spin E (fuel E) k") (auto simp: wait_for_rtc_sync_def split: sum.split)
  show "(typing_ok k' \<and> tables_ready E' cs k' \<and> disk_fresh k') \<and> (\<forall>e. r \<noteq> ExStop e)" if run: "wait_for_rtc_sync E k = Done (r, k')"
  proof (cases "RTC_IRQ_INIT k")
    case True
    then obtain k1 where k1: "rtc_spin E (fuel E) k = Done k1" using run by (auto simp: wait_for_rtc_sync_def andThen_eq_Done)
    then have "k' = k1 \<and> (\<forall>e. r \<noteq> ExStop e)"
      using run True by (cases "init_later_read (LAUNCH_TIME k1)") (auto simp: wait_for_rtc_sync_def)
    then show ?thesis using sp k1 by blast
  qed (use run assms in \<open>auto simp: wait_for_rtc_sync_def\<close>)
qed

lemma select_drive_frame:
  fixes k :: "'a kbd_scheme"
  assumes "select_drive E k = Done (r, k')"
  shows "vga_ok k' = vga_ok k \<and> below_topbar k' = below_topbar k \<and> KBD_BUF k' = KBD_BUF k \<and> kbd.more k' = kbd.more k"
proof -
  have i: "vga_ok k' = vga_ok k \<and> below_topbar k' = below_topbar k \<and> KBD_BUF k' = KBD_BUF k \<and> kbd.more k' = kbd.more k"
    if "init_statics sp b k = Done (r, k')" for sp b r and k k' :: "'a kbd_scheme"
    using that by (auto simp: init_statics_def throw_def ok_def Let_def vga_ok_def below_topbar_def split: sum.splits prod.splits)
  show ?thesis
    using assms
    by (auto simp: select_drive_def read_cmos_reg_eq Let_def try_then_eq_Done throw_def ok_def vga_ok_def below_topbar_def
        dest!: i split: option.splits)
qed

lemma floppy_task:
  fixes k :: "'a sysk_scheme"
  assumes "typing_ok k \<and> tables_ready E' cs k \<and> disk_fresh k"
  shows "init_wrapper E k \<noteq> Panic"
    "init_wrapper E k = Done (r, k') \<Longrightarrow> (typing_ok k' \<and> tables_ready E' cs k' \<and> fs_fresh k') \<and> (\<forall>e. r \<noteq> ExStop e)"
proof -
  obtain q k1 where sel: "select_drive E k = Done (q, k1)" using select_drive_returns by blast
  note f = select_drive_frame [OF sel]
  have k1: "vga_ok k1" "below_topbar k1" "length (KBD_BUF k1) = 256" using f assms by (simp_all add: typing_ok_def)
  note m1 = tables_more [OF conjunct2 [OF conjunct2 [OF conjunct2 [OF f]]]]
  have inv: "fdc_inv k1 k1" using k1(1) by (rule fdc_inv_refl)
  show "init_wrapper E k \<noteq> Panic"
    using triple_Panic [OF triple_bring_up inv, of E] sel
    by (cases q; cases "bring_up E k1") (auto simp: init_wrapper_def floppy_init_def try_then_def split: sum.splits)
  show "(typing_ok k' \<and> tables_ready E' cs k' \<and> fs_fresh k') \<and> (\<forall>e. r \<noteq> ExStop e)" if run: "init_wrapper E k = Done (r, k')"
  proof (cases q)
    case (Inl e)
    then have "r = ExError e" "k' = k1" using run sel by (simp_all add: init_wrapper_def floppy_init_def try_then_def)
    then show ?thesis using k1 m1(1) [of E' cs] m1(2) assms by (simp add: typing_ok_def disk_fresh_def)
  next
    case (Inr u)
    then have fi: "floppy_init E k = bring_up E k1" using sel by (simp add: floppy_init_def try_then_def)
    obtain x k2 where "bring_up E k1 = Done (x, k2)" using run by (auto simp: init_wrapper_def fi andThen_eq_Done)
    then have x: "bring_up E k1 = Done (x, k')" "\<forall>e. r \<noteq> ExStop e" using run by (cases x; simp add: init_wrapper_def fi; blast?)+
    have b: "brought_up k1 x k'" by (rule triple_Done [OF triple_bring_up inv x(1)])
    then have "kbd.more k' = kbd.more k1" by (simp add: brought_up_def)
    note m2 = tables_more [OF this]
    have "typing_ok k'" using b k1 by (simp add: brought_up_def typing_ok_def)
    then show ?thesis using m1(1) [of E' cs] m1(2) m2(1) [of E' cs] m2(2) assms x(2) by (simp add: disk_fresh_def)
  qed
qed

text \<open>Mounting, with the table and the bitmap as they were before.\<close>

lemma fs_frame_fresh:
  fixes k k0 :: "'a sysk_scheme"
  assumes "fs_frame k0 k" and "typing_ok k0 \<and> tables_ready E' cs k0 \<and> fs_fresh k0"
  shows "typing_ok k \<and> tables_ready E' cs k \<and> fs_fresh k"
proof -
  have "kbd.more k = kbd.more k0" using assms(1) by (simp add: fs_frame_def)
  note m = tables_more [OF this]
  have "typing_ok k" using assms by (simp add: fs_frame_def typing_ok_def)
  then show ?thesis using assms(2) m by blast
qed

lemma load_table_task:
  fixes k k0 :: "'a sysk_scheme"
  assumes "fs_frame k0 k" and "typing_ok k0 \<and> tables_ready E' cs k0 \<and> fs_fresh k0"
  shows "load_table E k \<noteq> Panic"
    "load_table E k = Done (r, k') \<Longrightarrow> (typing_ok k' \<and> tables_ready E' cs k') \<and> (\<forall>e. r \<noteq> ExStop e)"
proof -
  let ?rd = "floppyfs_read E INODE_START (replicate (SIZE_OF_INODE * INODES) 0) k"
  have fresh: "tbl_ok (INODE_TBL k)" "bmp_ok (BLOCK_BMP k)" using fs_frame_fresh [OF assms] by (simp_all add: fs_fresh_def)
  have np: "read_table (floppyfs_read E) (INODE_TBL k, BLOCK_BMP k, k) \<noteq> Panic"
  proof (cases ?rd)
    case (Done x)
    obtain q k1 where x: "x = (q, k1)" by (cases x)
    show ?thesis
    proof (cases q)
      case (Inr buf)
      show ?thesis using read_table_run [OF fresh, of "floppyfs_read E" k buf k1] Done x Inr by (auto split: if_splits)
    qed (use Done x in \<open>simp add: read_table_def throw_def\<close>)
  qed (use safe_Panic [OF safe_floppyfs_read assms(1)] in \<open>simp_all add: read_table_def\<close>)
  show "load_table E k \<noteq> Panic"
    using np by (cases "read_table (floppyfs_read E) (INODE_TBL k, BLOCK_BMP k, k)") (auto simp: load_table_def Let_def split: sum.splits)
  show "(typing_ok k' \<and> tables_ready E' cs k') \<and> (\<forall>e. r \<noteq> ExStop e)" if run: "load_table E k = Done (r, k')"
  proof -
    obtain q tbl bmp k1 where t: "read_table (floppyfs_read E) (INODE_TBL k, BLOCK_BMP k, k) = Done (q, (tbl, bmp, k1))"
      using run by (auto simp: load_table_def andThen_eq_Done)
    obtain x where "floppyfs_read E INODE_START (replicate (SIZE_OF_INODE * INODES) 0) k = Done (x, k1)"
      using read_table_drive [OF t] by blast
    then have "fs_frame k0 k1" using assms(1) by (rule safe_Done [OF safe_floppyfs_read, rotated])
    from fs_frame_fresh [OF this assms(2)] have k1: "typing_ok k1" "tables_ready E' cs k1" by blast+
    have "typing_ok (k1\<lparr>INODE_TBL := a, BLOCK_BMP := b, FLOPPYFS_INIT := c\<rparr>)" "typing_ok (k1\<lparr>INODE_TBL := a, BLOCK_BMP := b\<rparr>)"
      "tables_ready E' cs (k1\<lparr>INODE_TBL := a, BLOCK_BMP := b, FLOPPYFS_INIT := c\<rparr>)" "tables_ready E' cs (k1\<lparr>INODE_TBL := a, BLOCK_BMP := b\<rparr>)" for a b c
      using k1 by (simp_all add: typing_ok_def vga_ok_def below_topbar_def tables_ready_def gdt_ready_def)
    then show ?thesis using run t by (cases q) (auto simp: load_table_def)
  qed
qed

lemma mount_task:
  fixes k :: "'a sysk_scheme"
  assumes "typing_ok k \<and> tables_ready E' cs k \<and> fs_fresh k"
  shows "init_floppyfs E k \<noteq> Panic \<and>
    (\<forall>r k'. init_floppyfs E k = Done (r, k') \<longrightarrow> (typing_ok k' \<and> tables_ready E' cs k') \<and> (\<forall>e. r \<noteq> ExStop e))"
proof (cases "FLOPPY_INIT k")
  case False
  then show ?thesis using assms by (auto simp: init_floppyfs_def)
next
  case init: True
  have k: "fs_frame k k" using assms by (simp add: fs_frame_def typing_ok_def)
  show ?thesis
  proof (rule mount_rule [OF init k])
    show "Done (ExError e, k1) \<noteq> Panic \<and> (\<forall>r k'. Done (ExError e, k1) = Done (r, k') \<longrightarrow> (typing_ok k' \<and> tables_ready E' cs k') \<and> (\<forall>e. r \<noteq> ExStop e))"
      if "fs_frame k k1" for e k1 using fs_frame_fresh [OF that assms] by auto
    show "load_table E k1 \<noteq> Panic \<and> (\<forall>r k'. load_table E k1 = Done (r, k') \<longrightarrow> (typing_ok k' \<and> tables_ready E' cs k') \<and> (\<forall>e. r \<noteq> ExStop e))"
      if "fs_frame k k1" for k1 using load_table_task [OF that assms] by blast
  qed simp
qed

section \<open>The whole start\<close>

lemma device_tasks_lead:
  "leads (\<lambda>k. typing_ok k \<and> core_ready True True True E cs k) (run_all (device_tasks E ctl cpuid)) (\<lambda>k. typing_ok k \<and> tables_ready E cs k)"
  unfolding device_tasks_def
proof (intro leads_all_Cons leads_all_Nil)
  let ?ready = "\<lambda>k :: 'a sysk_scheme. typing_ok k \<and> tables_ready E cs k \<and> disk_fresh k"
  show "leads (\<lambda>k. typing_ok k \<and> core_ready True True True E cs k)
      (run_task kbd_init_error_display ''Initialised keyboard'' (\<lambda>k. Done (kbd_init ctl k))) ?ready"
    by (intro leads_reaches reaches_task stages_screen kbd_task)
  show "leads ?ready (run_task id ''Checked CPUID'' (\<lambda>k. Done (check_cpuid cpuid k))) ?ready"
    by (intro leads_reaches reaches_task stages_screen cpuid_task)
  show "leads ?ready (run_task rtc_sync_wait_error_display ''Finished RTC sync'' (wait_for_rtc_sync E)) ?ready"
    by (intro leads_task stages_screen rtc_sync_task)
  show "leads ?ready (run_task floppy_error_display ''Initialised floppy drive'' (init_wrapper E))
      (\<lambda>k :: 'a sysk_scheme. typing_ok k \<and> tables_ready E cs k \<and> fs_fresh k)"
    by (intro leads_task stages_screen floppy_task)
  show "leads (\<lambda>k. typing_ok k \<and> tables_ready E cs k \<and> fs_fresh k)
      (run_task fs_init_error_display ''Initialised floppyfs'' (init_floppyfs E)) (\<lambda>k :: 'a sysk_scheme. typing_ok k \<and> tables_ready E cs k)"
    by (intro leads_task stages_screen) (use mount_task in blast)+
qed

lemma startup_leads:
  "leads (powered_on cs) (startup E ctl cpuid) (\<lambda>k. typing_ok k \<and> tables_ready E cs k)"
  unfolding startup_def run_all_append [abs_def]
  by (rule leads_then [OF leads_reaches [OF core_tasks_reach] device_tasks_lead])

lemma greet_leads: "leads typing_ok (greet E) typing_ok"
proof -
  have "guarded typing_ok (\<lambda>k. play_chime E (update_visual_pos k))" by (rule guarded_after [OF guarded_chime]) (rule typing_ops)
  then show ?thesis unfolding greet_def [abs_def]
    by (intro leads_guarded guarded_andThen guarded_topbar guarded_println)
qed


text \<open>The state of the statics at boot.\<close>

definition boot_sysk :: sysk where
  "boot_sysk = initial_sysk\<lparr>ints_on := False, PIC_INIT := False, PIT_INIT := False, KBD_INIT := False, RTC_IRQ_INIT := False, GDT_INIT := False,
     buffer_connected := False, CURSOR_row := 0, CURSOR_column := 0, ALLOW_ROW_0 := False, KBD_BUF := replicate 256 0, BASE_OFFSET := init_later_uninit 0,
     FLOPPY_SPACE := init_later_uninit 0, DRIVE_ONE := False, FLOPPY_INIT := False\<rparr>"

lemma boot_sysk_ok: "powered_on 8 boot_sysk"
proof -
  have "unbooted 8 boot_sysk"
    by (simp add: boot_sysk_def stage_defs initial_sysk_def initial_icpu_def initial_cpu_def initial_fsk_def init_later_uninit_def
        icpu.extend_def cpu.extend_def fsk.extend_def kbd.extend_def)
  then show ?thesis using initial_sysk_ok by (simp add: powered_on_def boot_sysk_def vga_ok_def)
qed


text \<open>
  C1: From the state the boot loader leaves, the kernel starts and runs its poll loop, and whatever the hardware answers, whichever interrupts
  arrive and whatever is typed, it panics exactly if in one of the iterations run the next scancode completes the press of F4 with the
  system command keys held, which asks for it. Nothing before the loop panics, and while the loop runs the screen and the scancode buffer stay in order.
\<close>

theorem kmain_does_not_panic:
  fixes k :: "'a sysk_scheme"
  assumes "powered_on cs k"
  shows "(kmain E ctl cpuid pk s n k = Panic \<longleftrightarrow>
      (\<exists>i < n. \<exists>s' k'. kmain E ctl cpuid pk s i k = Done (s', k') \<and> panic_due pk s' k'))
    \<and> (\<forall>s' k'. kmain E ctl cpuid pk s n k = Done (s', k') \<longrightarrow> typing_ok k')"
proof (cases "startup E ctl cpuid k")
  case (Done k1)
  then have k1: "typing_ok k1" using startup_leads assms(1) unfolding leads_def by blast
  show ?thesis
  proof (cases "greet E k1")
    case g: (Done k2)
    then have "typing_ok k2" using greet_leads k1 unfolding leads_def by blast
    moreover have "kmain E ctl cpuid pk s i k = kbd_poll_loop E pk i (s, k2)" for i by (simp add: kmain_def Done g)
    ultimately show ?thesis using poll_loop_panics_iff_due [of k2 E pk n s] by simp
  qed (use Done greet_leads k1 in \<open>auto simp: leads_def kmain_def\<close>)
qed (use startup_leads [of cs E ctl cpuid] assms(1) in \<open>auto simp: leads_def kmain_def\<close>)

text \<open>A decoder that knows F4 (scancode 0Ch), with the system command keys held, and a keyboard controller whose calls all succeed.\<close>

definition f4_keyboard :: "unit pc_keyboard" where
  "f4_keyboard = \<lparr>pk_add_byte = (\<lambda>sc s. (Inr (if sc = 0x0C then Some \<lparr>ev_code = F4, ev_state = KeyDown\<rparr> else None), s)),
     pk_process_keyevent = (\<lambda>ev s. (Some (RawKey (ev_code ev)), s)),
     pk_get_modifiers = (\<lambda>_. \<lparr>mod_ctrl = True, mod_alt = True, mod_capslock = False\<rparr>), pk_clear = id\<rparr>"

definition working_ctl :: ps2_controller where
  "working_ctl op log = (Inr (), log)"

lemma f4_due:
  "panic_due f4_keyboard () (boot_sysk\<lparr>KBD_BUF := 0x0C # replicate 255 0, KBD_WPTR := 1, KBD_RPTR := 0, SYSRQ := True\<rparr>)"
  by (simp add: panic_due_def f4_keyboard_def panic_requested_def syscmd_held_def track_keys_def)

theorem kmain_does_not_panic_witness:
  "kmain sample_env working_ctl None f4_keyboard () 0 boot_sysk \<noteq> Panic
   \<and> (kmain sample_env working_ctl None f4_keyboard () 1000 boot_sysk = Panic \<longleftrightarrow>
       (\<exists>i < 1000. \<exists>k'. kmain sample_env working_ctl None f4_keyboard () i boot_sysk = Done ((), k') \<and> panic_due f4_keyboard () k'))
   \<and> (\<exists>k :: sysk. panic_due f4_keyboard () k)"
proof -
  have "kmain sample_env working_ctl None f4_keyboard () 0 boot_sysk \<noteq> Panic"
    using kmain_does_not_panic [OF boot_sysk_ok, where n = 0 and s = "()" and pk = f4_keyboard and E = sample_env and ctl = working_ctl and cpuid = None]
    by simp
  moreover have "kmain sample_env working_ctl None f4_keyboard () 1000 boot_sysk = Panic \<longleftrightarrow>
       (\<exists>i < 1000. \<exists>k'. kmain sample_env working_ctl None f4_keyboard () i boot_sysk = Done ((), k') \<and> panic_due f4_keyboard () k')"
    using kmain_does_not_panic [OF boot_sysk_ok, where n = 1000 and s = "()" and pk = f4_keyboard and E = sample_env and ctl = working_ctl and cpuid = None]
    by simp
  ultimately show ?thesis using f4_due by blast
qed

end
