(* ===== verification/Cont_Access.thy ===== *)
theory Cont_Access
  imports Irq
begin

text \<open>
  kernel/src/interrupts/cont_access.rs: a cell that may be used by ordinary code but not by interrupt handlers and not
  by a closure that already works on it. The contract it shares with \<^verbatim>\<open>ExclusiveMap\<close> of libutil is a locale.
\<close>

section \<open>Operations\<close>

record 'v cont_access =
  ca_data :: 'v
  ca_locked :: bool

definition cont_access_new :: "'v \<Rightarrow> 'v cont_access" where
  "cont_access_new v = \<lparr>ca_data = v, ca_locked = False\<rparr>"

text \<open>A failed check is a kernel panic.\<close>

definition check_access :: "'a machine_scheme \<Rightarrow> 'v cont_access \<Rightarrow> unit run" where
  "check_access k ca =
     (let locked = ca_locked ca;
          int_depth = INTERRUPT_DEPTH k
      in if locked \<or> int_depth \<noteq> 0 then Panic else Done ())"

text \<open>The closure may use anything, this cell included: it takes and returns the machine and the cell.\<close>

definition btemap ::
  "('a machine_scheme \<times> 'v cont_access \<Rightarrow> ('r \<times> 'a machine_scheme \<times> 'v cont_access) run)
   \<Rightarrow> 'a machine_scheme \<times> 'v cont_access \<Rightarrow> ('r \<times> 'a machine_scheme \<times> 'v cont_access) run" where
  "btemap f = (\<lambda>(k, ca).
     andThen (check_access k ca) (\<lambda>_.
       andThen (f (k, ca\<lparr>ca_locked := True\<rparr>)) (\<lambda>(res, k, ca). Done (res, k, ca\<lparr>ca_locked := False\<rparr>))))"

definition ca_write :: "'v \<Rightarrow> 'a machine_scheme \<times> 'v cont_access \<Rightarrow> (unit \<times> 'a machine_scheme \<times> 'v cont_access) run" where
  "ca_write val = (\<lambda>(k, ca). andThen (check_access k ca) (\<lambda>_. Done ((), k, ca\<lparr>ca_data := val\<rparr>)))"

definition ca_copy :: "'a machine_scheme \<times> 'v cont_access \<Rightarrow> ('v \<times> 'a machine_scheme \<times> 'v cont_access) run" where
  "ca_copy = (\<lambda>(k, ca). andThen (check_access k ca) (\<lambda>_. Done (ca_data ca, k, ca)))"

section \<open>The contract of an exclusively mapped cell\<close>

locale mapped_cell =
  fixes map_cell :: "('v \<Rightarrow> 'v \<times> 'v) \<Rightarrow> 'c \<Rightarrow> 'v option \<times> 'c"
    and contents :: "'c \<Rightarrow> 'v"
    and usable :: "'c \<Rightarrow> bool"
  assumes map_usable: "usable c \<Longrightarrow> fst (map_cell f c) = Some (fst (f (contents c)))
      \<and> contents (snd (map_cell f c)) = snd (f (contents c)) \<and> usable (snd (map_cell f c))"
    and map_unusable: "\<not> usable c \<Longrightarrow> map_cell f c = (None, c)"

context mapped_cell
begin

lemma map_read_back:
  "usable c \<Longrightarrow> fst (map_cell (\<lambda>v. (v, v)) (snd (map_cell (\<lambda>_. (w, w)) c))) = Some w"
  using map_usable [of c "\<lambda>_. (w, w)"] map_usable [of "snd (map_cell (\<lambda>_. (w, w)) c)" "\<lambda>v. (v, v)"] by simp

lemma map_sequence:
  "usable c \<Longrightarrow> contents (snd (map_cell g (snd (map_cell f c)))) = snd (g (snd (f (contents c))))"
  using map_usable [of c f] map_usable [of "snd (map_cell f c)" g] by simp

lemma map_fold:
  "usable c \<Longrightarrow> contents (fold (\<lambda>f c. snd (map_cell f c)) fs c) = fold (\<lambda>f v. snd (f v)) fs (contents c)
     \<and> usable (fold (\<lambda>f c. snd (map_cell f c)) fs c)"
proof (induction fs arbitrary: c)
  case (Cons f fs)
  then show ?case using map_usable [of c f] Cons.IH [of "snd (map_cell f c)"] by simp
qed simp

end

interpretation exmap: mapped_cell exmap_map em_cell "\<lambda>c. \<not> em_access c"
  by unfold_locales (simp_all add: exmap_map_free exmap_map_held)

text \<open>\<^verbatim>\<open>btemap\<close> with a closure that only uses the value it is given; a panic is the refusal.\<close>

definition btemap_value ::
  "('v \<Rightarrow> 'v \<times> 'v) \<Rightarrow> 'a machine_scheme \<times> 'v cont_access \<Rightarrow> 'v option \<times> 'a machine_scheme \<times> 'v cont_access" where
  "btemap_value f c =
     (case btemap (\<lambda>(k, ca). let (r, v) = f (ca_data ca) in Done (r, k, ca\<lparr>ca_data := v\<rparr>)) c of
        Done (r, c') \<Rightarrow> (Some r, c')
      | _ \<Rightarrow> (None, c))"

interpretation ca: mapped_cell btemap_value "\<lambda>c. ca_data (snd c)" "\<lambda>c. \<not> ca_locked (snd c) \<and> INTERRUPT_DEPTH (fst c) = 0"
  by unfold_locales
    (auto simp: btemap_value_def btemap_def check_access_def Let_def split_beta)

section \<open>Properties\<close>

text \<open>
  C40: A cell that is not locked, used outside of every interrupt handler, holds what was last written, over any sequence of
  closures, and copies it out unchanged; inside a handler, whose entry raises the depth, every
  access panics, and so does every access that a closure makes to the cell it is working on.
\<close>

theorem cont_access_guarded:
  fixes k :: "'a machine_scheme" and ca :: "'v cont_access"
  assumes "INTERRUPT_DEPTH k = 0" and "\<not> ca_locked ca"
  shows "ca_data (snd (fold (\<lambda>f c. snd (btemap_value f c)) fs (k, ca))) = fold (\<lambda>f v. snd (f v)) fs (ca_data ca)
    \<and> ca_write v (k, ca) = Done ((), k, ca\<lparr>ca_data := v\<rparr>) \<and> ca_copy (k, ca\<lparr>ca_data := v\<rparr>) = Done (v, k, ca\<lparr>ca_data := v\<rparr>)
    \<and> ca_copy (savestate k, ca) = Panic \<and> ca_write v (savestate k, ca) = Panic \<and> btemap f (savestate k, ca) = Panic
    \<and> btemap ca_copy (k, ca) = Panic \<and> btemap (ca_write v) (k, ca) = Panic \<and> btemap (btemap f) (k, ca) = Panic"
proof -
  have "ca_data (snd (fold (\<lambda>f c. snd (btemap_value f c)) fs (k, ca))) = fold (\<lambda>f v. snd (f v)) fs (ca_data ca)"
    using ca.map_fold [of "(k, ca)" fs] assms by simp
  then show ?thesis using assms
    by (simp add: ca_copy_def ca_write_def btemap_def check_access_def savestate_def)
qed

theorem cont_access_guarded_witness:
  "ca_copy (cleared_vga, cont_access_new (42 :: nat)) = Done (42, cleared_vga, cont_access_new 42)
   \<and> btemap (ca_write 15) (cleared_vga, cont_access_new (42 :: nat)) = Panic"
proof -
  let ?c = "cont_access_new (42 :: nat)"
  have c: "INTERRUPT_DEPTH cleared_vga = 0" "\<not> ca_locked ?c" "?c\<lparr>ca_data := 42\<rparr> = ?c"
    by (simp_all add: cleared_vga_def cont_access_new_def)
  have "ca_copy (cleared_vga, ?c\<lparr>ca_data := 42\<rparr>) = Done (42, cleared_vga, ?c\<lparr>ca_data := 42\<rparr>)"
    using cont_access_guarded [OF c(1,2)] by blast
  moreover have "btemap (ca_write 15) (cleared_vga, ?c) = Panic" using cont_access_guarded [OF c(1,2)] by blast
  ultimately show ?thesis unfolding c(3) by simp
qed

end
