(* ===== verification/Kernel_Tests.thy ===== *)
theory Kernel_Tests
  imports Lib_Tests Boot Cont_Access
begin

text \<open>
  Unit tests of the kernel (the modules \<^verbatim>\<open>tests\<close> of gdt.rs, interrupts.rs, interrupts/idt.rs, interrupts/cont_access.rs, time.rs and
  vga/cursor.rs), translated as programs over the model like those of the libraries. The kernel runs its tests after
  the startup tasks; the tests that look at the processor's tables are shown to pass in the state these tasks leave.
\<close>

section \<open>gdt.rs\<close>

definition gdt_structs_have_the_right_size :: "unit run" where
  "gdt_structs_have_the_right_size =
     (let segment_size = length (to_le 8 (seg_bits (segment_descriptor_new True)))
      in asserts [length (tss_as_bytes tss_default) = 104,
           segment_size = 8,
           length (ssd_as_bytes (new_tss 0)) = segment_size * 2,
           length (concat (map (\<lambda>d. to_le 8 (seg_bits d)) (gdt_entries None))) = segment_size * GDT_ENTRIES])"

definition cs_equals_static :: "'a cpu_scheme \<Rightarrow> unit run" where
  "cs_equals_static k =
     (case init_later_read (GDT k) of Inl _ \<Rightarrow> Panic | Inr _ \<Rightarrow> assert (cs_register k = CODE_SEGMENT_OFFSET))"

definition tss_segment_has_correct_ptr :: "env \<Rightarrow> 'a cpu_scheme \<Rightarrow> unit run" where
  "tss_segment_has_correct_ptr E k =
     (case init_later_read (TSS k) of
        Inl _ \<Rightarrow> Panic
      | Inr tss \<Rightarrow>
          let ptr = static_addr E ''TSS'';
              segment = new_tss ptr;
              segment_ptr = (ucast (ssd_offset_very_low segment) :: u64);
              segment_ptr = segment_ptr OR push_bit 16 (ucast (ssd_offset_low segment));
              segment_ptr = segment_ptr OR push_bit 24 (ucast (ssd_offset_medium segment));
              segment_ptr = segment_ptr OR push_bit 32 (ucast (ssd_offset_high segment))
          in assert (ptr = segment_ptr))"

definition ist_one_points_to_emergency_stack :: "env \<Rightarrow> 'a cpu_scheme \<Rightarrow> unit run" where
  "ist_one_points_to_emergency_stack E k =
     (case init_later_read (TSS k) of
        Inl _ \<Rightarrow> Panic
      | Inr tss \<Rightarrow>
          let stack_end_addr = static_addr E ''STACK'' + STACK_SIZE;
              ist1 = tss_ist tss ! 0
          in assert (ist1 = stack_end_addr))"

lemma gdt_structs_have_the_right_size_passes: "gdt_structs_have_the_right_size = Done ()"
  by (simp add: gdt_structs_have_the_right_size_def tss_as_bytes_def tss_default_def ssd_as_bytes_def gdt_entries_eq
      GDT_ENTRIES_def numeral_eq_Suc)

lemma segment_ptr_joined:
  "((ucast (ucast ptr :: u16) OR push_bit 16 (ucast (ucast (drop_bit 16 ptr) :: u8)))
     OR push_bit 24 (ucast (ucast (drop_bit 24 ptr) :: u8))) OR push_bit 32 (ucast (ucast (drop_bit 32 ptr) :: u32)) = (ptr :: u64)"
  (is "?w = _")
proof (rule bit_word_eqI)
  fix n assume "n < LENGTH(64)"
  then consider "n < 16" | "16 \<le> n" "n < 24" | "24 \<le> n" "n < 32" | "32 \<le> n" "n < 64" by fastforce
  then show "bit ?w n = bit ptr n" by cases (auto simp: bit_simps)
qed

lemma gdt_tests_pass:
  assumes "gdt_ready E k"
  shows "cs_equals_static k = Done ()" "tss_segment_has_correct_ptr E k = Done ()" "ist_one_points_to_emergency_stack E k = Done ()"
  using assms emergency_stack [of E]
  by (simp_all add: cs_equals_static_def tss_segment_has_correct_ptr_def ist_one_points_to_emergency_stack_def gdt_ready_def
      init_later_read_def cs_register_def CODE_SEGMENT_OFFSET_def new_tss_def Let_def segment_ptr_joined assert_def STACK_SIZE_def
      split: if_splits)

section \<open>interrupts.rs and interrupts/idt.rs\<close>

definition gate_as_bytes :: "interrupt_descriptor \<Rightarrow> bytes" where
  "gate_as_bytes d = to_le 2 (id_offset_low d) @ to_le 2 (id_selector d) @ to_le 1 (id_ist d) @ to_le 1 (id_attributes d)
     @ to_le 2 (id_offset_middle d) @ to_le 4 (id_offset_high d) @ to_le 4 (id_reserved d)"

definition stack_frame_as_bytes :: "int_stack_frame \<Rightarrow> bytes" where
  "stack_frame_as_bytes f = concat (map (to_le 8) [sf_ip f, sf_cs f, sf_flags f, sf_sp f, sf_ss f])"

definition idt_structs_have_the_right_size :: "int_stack_frame \<Rightarrow> interrupt_descriptor \<Rightarrow> unit run" where
  "idt_structs_have_the_right_size frame d =
     asserts [length (stack_frame_as_bytes frame) = 40,
       length (gate_as_bytes d) = 16,
       length (concat (map gate_as_bytes (replicate 256 d))) = length (gate_as_bytes d) * 256]"

definition descriptors_point_to_handlers :: "env \<Rightarrow> 'a icpu_scheme \<Rightarrow> unit run" where
  "descriptors_point_to_handlers E k =
     (case init_later_read (IDT k) of
        Inl _ \<Rightarrow> Panic
      | Inr idt \<Rightarrow>
          asserts [descriptor_ptr (idt ! 8) = handler_ptr E DoubleFaultHandler,
            descriptor_ptr (idt ! (IRQ_START + 0)) = handler_ptr E TimerHandler,
            descriptor_ptr (idt ! (IRQ_START + 1)) = handler_ptr E KbdWrapper,
            descriptor_ptr (idt ! (IRQ_START + 6)) = handler_ptr E FloppyHandler,
            descriptor_ptr (idt ! (IRQ_START + 7)) = handler_ptr E DummyHandler,
            descriptor_ptr (idt ! (IRQ_START + 8)) = handler_ptr E RtcHandler,
            descriptor_ptr (idt ! (IRQ_START + 15)) = handler_ptr E DummyHandler])"

text \<open>
  The instructions \<^verbatim>\<open>int3\<close> and \<^verbatim>\<open>ud2\<close>: each raises its exception, whose handler returns to the instruction pointer
  it computed. \<open>frame\<close> is the frame of the first.
\<close>

definition cont_handlers_continue :: "int_stack_frame \<Rightarrow> 'a icpu_scheme \<Rightarrow> 'a icpu_scheme run" where
  "cont_handlers_continue frame k =
     andThen (cont_wrapper 3 0 frame k) (\<lambda>(ip, k).
     andThen (cont_wrapper 6 2 (frame\<lparr>sf_ip := ip\<rparr>) k) (\<lambda>(ip, k). Done k))"

lemma idt_structs_have_the_right_size_passes: "idt_structs_have_the_right_size frame d = Done ()"
  by (simp add: idt_structs_have_the_right_size_def stack_frame_as_bytes_def gate_as_bytes_def length_concat sum_list_replicate)

lemma descriptors_point_to_handlers_passes:
  fixes k :: "'a icpu_scheme"
  assumes "il_state (IDT k) = UNINIT" and "load_idt E k = Done (r, k')"
  shows "descriptors_point_to_handlers E k' = Done ()"
proof -
  obtain idt where idt: "idt_new E (cs_reg k) = Done idt"
    "\<forall>i < 256. idt ! i = (case map_of handler_table i of None \<Rightarrow> interrupt_descriptor_default | Some p \<Rightarrow> installed E (cs_reg k) p)"
    using idt_new_table by blast
  have "init_later_read (IDT k') = Ok idt"
    using assms idt(1)
    by (auto simp: load_idt_def cs_register_def init_later_init_def init_later_read_def Let_def idt_load_def split: if_splits)
  then show ?thesis
    using idt(2) by (simp add: descriptors_point_to_handlers_def handler_table_def IRQ_START_def installed_gate)
qed

lemma cont_handlers_continue_passes:
  fixes k :: "'a icpu_scheme"
  assumes "vga_ok k"
  shows "\<exists>k'. cont_handlers_continue frame k = Done k' \<and> vga_ok k'"
proof -
  obtain k1 where k1: "cont_wrapper 3 0 frame k = Done (sf_ip frame + of_nat 0, k1)" "vga_ok k1"
    using cont_exceptions_resume [OF assms] by blast
  let ?f = "frame\<lparr>sf_ip := sf_ip frame + of_nat 0\<rparr>"
  obtain k2 where "cont_wrapper 6 2 ?f k1 = Done (sf_ip ?f + of_nat 2, k2)" "vga_ok k2"
    using cont_exceptions_resume [OF k1(2)] by blast
  with k1(1) show ?thesis by (simp add: cont_handlers_continue_def)
qed

section \<open>vga/cursor.rs and time.rs\<close>

definition clamp_removes_invalid_values :: "'a vga_scheme \<Rightarrow> 'a vga_scheme run" where
  "clamp_removes_invalid_values k =
     (let (row, col) = row_col k;
          row0 = ALLOW_ROW_0 k;
          k = set_row 0 (k\<lparr>ALLOW_ROW_0 := False\<rparr>)
      in andThen (assert (1 = fst (row_col k))) (\<lambda>_.
      let k = set_row 0 (k\<lparr>ALLOW_ROW_0 := True\<rparr>)
      in andThen (assert (0 = fst (row_col k))) (\<lambda>_.
      let k = set_row 255 k
      in andThen (assert (BUFFER_HEIGHT - 1 = fst (row_col k))) (\<lambda>_.
      let k = set_col 255 k
      in andThen (assert (BUFFER_WIDTH - 1 = snd (row_col k))) (\<lambda>_.
      Done ((set_col col (set_row row k))\<lparr>ALLOW_ROW_0 := row0\<rparr>))))))"

text \<open>Without the timer waiting and playing return at once; the test sets the flag and puts it back.\<close>

definition wait_services_require_pit :: "env \<Rightarrow> 'a kbd_scheme \<Rightarrow> 'a kbd_scheme run" where
  "wait_services_require_pit E k =
     (let init = PIT_INIT k;
          k = k\<lparr>PIT_INIT := False\<rparr>
      in andThen (wait E (- 1) k) (\<lambda>k. andThen (play_special E 0 (- 1) False k) (\<lambda>k. Done (k\<lparr>PIT_INIT := init\<rparr>))))"

text \<open>Both tests leave the state as they found it.\<close>

lemma clamp_removes_invalid_values_passes:
  assumes "CURSOR_row k < 25" and "CURSOR_column k < 80"
  shows "clamp_removes_invalid_values k = Done k"
  using assms
  by (cases k) (auto simp: clamp_removes_invalid_values_def row_col_def set_row_def set_col_def clamp_row_col_def Let_def dim_defs
      assert_def min_def max_def word_le_nat_alt word_less_nat_alt)

lemma wait_services_require_pit_passes: "wait_services_require_pit E k = Done k"
  by (cases k) (simp add: wait_services_require_pit_def wait_def play_special_def Let_def)

section \<open>interrupts/cont_access.rs\<close>

text \<open>
  In a test build a failed check is counted in \<^verbatim>\<open>CONT_ACCESS_PANICS\<close> and the access goes on. The state of these tests is
  the interrupt depth, the counter and the cell; the closures of the tests read the value and do not change it.
\<close>

record ca_test =
  test_depth :: u32
  CONT_ACCESS_PANICS :: u8
  test_ca :: "u32 cont_access"

definition check_access_test :: "ca_test \<Rightarrow> ca_test" where
  "check_access_test s =
     (let locked = ca_locked (test_ca s);
          int_depth = test_depth s
      in if locked \<or> int_depth \<noteq> 0 then s\<lparr>CONT_ACCESS_PANICS := CONT_ACCESS_PANICS s + 1\<rparr> else s)"

definition copy_test :: "ca_test \<Rightarrow> (u32 \<times> ca_test) run" where
  "copy_test s = (let s = check_access_test s in Done (ca_data (test_ca s), s))"

definition write_test :: "u32 \<Rightarrow> ca_test \<Rightarrow> (unit \<times> ca_test) run" where
  "write_test val s = (let s = check_access_test s in Done ((), s\<lparr>test_ca := (test_ca s)\<lparr>ca_data := val\<rparr>\<rparr>))"

definition btemap_test :: "(u32 \<Rightarrow> ca_test \<Rightarrow> ('r \<times> ca_test) run) \<Rightarrow> ca_test \<Rightarrow> ('r \<times> ca_test) run" where
  "btemap_test f s =
     (let s = check_access_test s;
          s = s\<lparr>test_ca := (test_ca s)\<lparr>ca_locked := True\<rparr>\<rparr>
      in andThen (f (ca_data (test_ca s)) s) (\<lambda>(res, s). Done (res, s\<lparr>test_ca := (test_ca s)\<lparr>ca_locked := False\<rparr>\<rparr>)))"

text \<open>Where the check passes, the test build does what the kernel does; where it does not, the kernel panics.\<close>

lemma test_build_agrees:
  fixes k :: "'a machine_scheme"
  assumes "INTERRUPT_DEPTH k = test_depth s" and "ca = test_ca s"
  shows "ca_copy (k, ca) = (if check_access_test s = s then andThen (copy_test s) (\<lambda>(v, s). Done (v, k, test_ca s)) else Panic)"
    and "ca_write v (k, ca) = (if check_access_test s = s then andThen (write_test v s) (\<lambda>(u, s). Done (u, k, test_ca s)) else Panic)"
proof -
  have "s\<lparr>CONT_ACCESS_PANICS := CONT_ACCESS_PANICS s + 1\<rparr> \<noteq> s" by (cases s) simp
  then have "check_access_test s = s \<longleftrightarrow> \<not> (ca_locked ca \<or> INTERRUPT_DEPTH k \<noteq> 0)"
    using assms by (auto simp: check_access_test_def Let_def)
  then show "ca_copy (k, ca) = (if check_access_test s = s then andThen (copy_test s) (\<lambda>(v, s). Done (v, k, test_ca s)) else Panic)"
    and "ca_write v (k, ca) = (if check_access_test s = s then andThen (write_test v s) (\<lambda>(u, s). Done (u, k, test_ca s)) else Panic)"
    using assms by (auto simp: ca_copy_def ca_write_def check_access_def copy_test_def write_test_def)
qed

definition assert_fails :: "u8 \<Rightarrow> ca_test \<Rightarrow> ca_test run" where
  "assert_fails fails s =
     andThen (copy_test s) (\<lambda>(_, s).
     andThen (write_test 15 s) (\<lambda>(_, s).
     andThen (btemap_test (\<lambda>_ s. Done ((), s)) s) (\<lambda>(_, s).
     andThen (assert (CONT_ACCESS_PANICS s = fails)) (\<lambda>_. Done s))))"

text \<open>The tests start with no interrupt being handled, and reset the counter.\<close>

definition ca_test_start :: "u8 \<Rightarrow> ca_test" where
  "ca_test_start panics = \<lparr>test_depth = 0, CONT_ACCESS_PANICS = panics, test_ca = cont_access_new 42\<rparr>"

definition badbug_on_ints :: "u8 \<Rightarrow> unit run" where
  "badbug_on_ints panics =
     (let s = (ca_test_start panics)\<lparr>CONT_ACCESS_PANICS := 0\<rparr>
      in andThen (assert_fails 0 s) (\<lambda>s.
         andThen (assert_fails 3 (s\<lparr>test_depth := test_depth s + 1\<rparr>)) (\<lambda>s.
         andThen (assert_fails 3 (s\<lparr>test_depth := test_depth s - 1\<rparr>)) (\<lambda>_. Done ()))))"

definition badbug_on_locked :: "u8 \<Rightarrow> unit run" where
  "badbug_on_locked panics =
     (let s = (ca_test_start panics)\<lparr>CONT_ACCESS_PANICS := 0\<rparr>
      in andThen (btemap_test (\<lambda>_. copy_test) s) (\<lambda>(_, s).
         andThen (btemap_test write_test s) (\<lambda>(_, s). assert (CONT_ACCESS_PANICS s = 2))))"

definition everything_works_fine :: "u8 \<Rightarrow> unit run" where
  "everything_works_fine panics =
     andThen (copy_test (ca_test_start panics)) (\<lambda>(v, s).
     andThen (assert (v = 42)) (\<lambda>_.
     andThen (btemap_test (\<lambda>ans s. andThen (assert (ans = 42)) (\<lambda>u. Done (u, s))) s) (\<lambda>(_, s).
     andThen (write_test 87 s) (\<lambda>(_, s).
     andThen (copy_test s) (\<lambda>(v, s).
     andThen (assert (v = 87)) (\<lambda>_.
     andThen (btemap_test (\<lambda>ans s. Done (ans, s)) s) (\<lambda>(v, s). assert (v = 87))))))))"

lemmas ca_test_defs = assert_fails_def copy_test_def write_test_def btemap_test_def check_access_test_def ca_test_start_def
  cont_access_new_def assert_def

lemma cont_access_tests_pass:
  "badbug_on_ints panics = Done ()" "badbug_on_locked panics = Done ()" "everything_works_fine panics = Done ()"
  by (simp_all add: badbug_on_ints_def badbug_on_locked_def everything_works_fine_def ca_test_defs Let_def)

section \<open>After the startup tasks\<close>

text \<open>
  once the kernel's core startup tasks have run, the tests of the processor's tables, of the cursor, of the continuing
  exceptions and of waiting without a timer pass in the state they left, and those of the cells that
  interrupt handlers must not use pass whatever their counter was.
\<close>

theorem kernel_unit_tests_pass:
  fixes k :: "'a sysk_scheme"
  assumes "powered_on cs k"
  shows "\<exists>k'. run_all (core_tasks E) k = Done k'
    \<and> cs_equals_static k' = Done () \<and> tss_segment_has_correct_ptr E k' = Done () \<and> ist_one_points_to_emergency_stack E k' = Done ()
    \<and> clamp_removes_invalid_values k' = Done k' \<and> wait_services_require_pit E k' = Done k'
    \<and> (\<exists>k2. cont_handlers_continue frame k' = Done k2)
    \<and> gdt_structs_have_the_right_size = Done () \<and> idt_structs_have_the_right_size frame d = Done ()
    \<and> badbug_on_ints panics = Done () \<and> badbug_on_locked panics = Done () \<and> everything_works_fine panics = Done ()"
proof -
  obtain k' where k': "run_all (core_tasks E) k = Done k'" "typing_ok k'" "core_ready True True True E cs k'"
    using core_tasks_reach [where cs = cs and E = E and 'a = 'a] assms unfolding reaches_def by blast
  then have g: "gdt_ready E k'" and v: "vga_ok k'" by (simp_all add: core_ready_def tables_ready_def typing_ok_def)
  then have "CURSOR_row k' < 25" "CURSOR_column k' < 80" by (simp_all add: vga_ok_def)
  note c = clamp_removes_invalid_values_passes [OF this]
  obtain k2 where "cont_handlers_continue frame k' = Done k2" using cont_handlers_continue_passes [OF v] by blast
  then show ?thesis
    using k'(1) gdt_tests_pass [OF g] c wait_services_require_pit_passes [of E k'] gdt_structs_have_the_right_size_passes
      idt_structs_have_the_right_size_passes cont_access_tests_pass
    by blast
qed

theorem kernel_unit_tests_pass_witness:
  "\<exists>k'. run_all (core_tasks sample_env) boot_sysk = Done k' \<and> cs_equals_static k' = Done ()"
  using kernel_unit_tests_pass [OF boot_sysk_ok, of sample_env] by blast

end
