(* ===== verification/Test_Harness.thy ===== *)
theory Test_Harness
  imports Kernel_Tests
begin

text \<open>
  kernel/src/tests.rs and what test builds add to printing (vga/print.rs) and to the panic handlers (panic.rs), with the
  tests of time.rs and floppy/motor.rs that look at the running clock. The serial port is the crate uart_16550: a parameter. A test is a
  computation that returns or panics with a message; in test builds a panic ends the run with QEMU's error code.
\<close>

section \<open>Printing and leaving\<close>

record 's uart =
  uart_init :: "'s \<Rightarrow> 's run"
  uart_send :: "u8 \<Rightarrow> 's \<Rightarrow> 's run"

fun write_serial_bytes :: "'s uart \<Rightarrow> bytes \<Rightarrow> 's \<Rightarrow> 's run" where
  "write_serial_bytes U [] k = Done k"
| "write_serial_bytes U (byte # bytes) k = andThen (uart_send U byte k) (write_serial_bytes U bytes)"

definition write_serial :: "'s uart \<Rightarrow> string \<Rightarrow> 's \<Rightarrow> 's run" where
  "write_serial U s = write_serial_bytes U (str_bytes s)"

text \<open>\<^verbatim>\<open>write!\<close> hands the pieces of a formatted text to the writer one by one; each goes to the screen and then to the port.\<close>

definition write_str_test :: "('a vga_scheme) uart \<Rightarrow> string \<Rightarrow> 'a vga_scheme \<Rightarrow> 'a vga_scheme run" where
  "write_str_test U s k = andThen (print_args s White Black k) (write_serial U s)"

fun print_test :: "('a vga_scheme) uart \<Rightarrow> string list \<Rightarrow> 'a vga_scheme \<Rightarrow> 'a vga_scheme run" where
  "print_test U [] k = Done k"
| "print_test U (s # ss) k = andThen (write_str_test U s k) (print_test U ss)"

definition println_test :: "('a vga_scheme) uart \<Rightarrow> string list \<Rightarrow> 'a vga_scheme \<Rightarrow> 'a vga_scheme run" where
  "println_test U ss = print_test U (ss @ [nl_str])"

text \<open>\<open>hang\<close> and what calls it do not return; the result is the state in which the processor stays halted.\<close>

definition hang :: "'a machine_scheme \<Rightarrow> 'a machine_scheme run" where
  "hang k = Done (cli k)"

definition SUCCESS_EXIT_CODE :: u8 where "SUCCESS_EXIT_CODE = 0x42"

definition exit_qemu :: "bool \<Rightarrow> 'a machine_scheme \<Rightarrow> 'a machine_scheme run" where
  "exit_qemu error k = hang (writeb_nodummy (port_addr QemuExit) (SUCCESS_EXIT_CODE + (if error then 1 else 0)) k)"

section \<open>Running tests\<close>

datatype 's test = Test (type_name: string) (test_fn: "('s, string, unit) fallible")

definition test_test :: "('a vga_scheme) uart \<Rightarrow> ('a vga_scheme) test \<Rightarrow> ('a vga_scheme, string, unit) fallible" where
  "test_test U t =
     run_then (print_test U [''test '', type_name t, '' ''])
       (try_then (test_fn t) (\<lambda>_. run_then (println_test U [''- passed'']) (ok ())))"

fun for_each_test :: "('a vga_scheme) uart \<Rightarrow> ('a vga_scheme) test list \<Rightarrow> ('a vga_scheme, string, unit) fallible" where
  "for_each_test U [] k = ok () k"
| "for_each_test U (t # ts) k = try_then (test_test U t) (\<lambda>_. for_each_test U ts) k"

text \<open>The panic handler of test builds, with the panic's message.\<close>

definition panic_handler_test :: "('a vga_scheme) uart \<Rightarrow> string \<Rightarrow> 'a vga_scheme \<Rightarrow> 'a vga_scheme run" where
  "panic_handler_test U info k =
     andThen (println_test U [''- failed, see failure cause below'' @ nl_str, info] k) (exit_qemu True)"

text \<open>The page fault handler of test builds.\<close>

definition page_fault_test :: "('a vga_scheme) uart \<Rightarrow> 'a vga_scheme \<Rightarrow> 'a vga_scheme run" where
  "page_fault_test U k =
     andThen (println_test U [''test stack overflow causes #PF - passed''] k) (\<lambda>k.
     andThen (println_test U [nl_str @ ''It looks like you didn't break anything!''] k) (exit_qemu False))"

text \<open>After the last test the stack is pushed to until it ends, which raises a page fault.\<close>

definition run_tests :: "('a vga_scheme) uart \<Rightarrow> ('a vga_scheme) test list \<Rightarrow> 'a vga_scheme \<Rightarrow> 'a vga_scheme run" where
  "run_tests U tests k =
     andThen (uart_init U k) (\<lambda>k.
     andThen (println_test U [nl_str @ ''Running unit tests...''] k) (\<lambda>k.
     andThen (for_each_test U tests k) (\<lambda>(r, k).
       case r of Inl info \<Rightarrow> panic_handler_test U info k | Inr _ \<Rightarrow> page_fault_test U k)))"

section \<open>The verdict\<close>

text \<open>What the harness needs of the serial port: initialising it and sending return, and change nothing but what the port's registers saw.\<close>

definition uart_works :: "('a machine_scheme) uart \<Rightarrow> bool" where
  "uart_works U \<longleftrightarrow> (\<forall>k. \<exists>l. uart_init U k = Done (k\<lparr>io_log := l\<rparr>)) \<and> (\<forall>b k. \<exists>l. uart_send U b k = Done (k\<lparr>io_log := l\<rparr>))"

text \<open>A property of states that printing keeps.\<close>

definition steady :: "('a vga_scheme \<Rightarrow> bool) \<Rightarrow> bool" where
  "steady R \<longleftrightarrow> (\<forall>k. R k \<longrightarrow> vga_ok k) \<and> (\<forall>k k'. R k \<longrightarrow> screen_step k k' \<longrightarrow> R k') \<and> (\<forall>k l. R k \<longrightarrow> R (k\<lparr>io_log := l\<rparr>))"

lemma steadyD:
  assumes "steady R" and "R k"
  shows "vga_ok k" "screen_step k k' \<Longrightarrow> R k'" "R (k\<lparr>io_log := l\<rparr>)"
  using assms unfolding steady_def by blast+

definition test_passes :: "('s \<Rightarrow> bool) \<Rightarrow> 's test \<Rightarrow> bool" where
  "test_passes R t \<longleftrightarrow> (\<forall>k. R k \<longrightarrow> (\<exists>k'. test_fn t k = Done (Ok (), k') \<and> R k'))"

definition test_fails :: "('s \<Rightarrow> bool) \<Rightarrow> 's test \<Rightarrow> bool" where
  "test_fails R t \<longleftrightarrow> (\<forall>k. R k \<longrightarrow> (\<exists>info k'. test_fn t k = Done (Err info, k') \<and> R k'))"

lemma write_serial_returns:
  assumes "uart_works U" and "steady R"
  shows "R k \<Longrightarrow> \<exists>k'. write_serial U s k = Done k' \<and> R k'"
proof -
  have "R k \<Longrightarrow> \<exists>k'. write_serial_bytes U bs k = Done k' \<and> R k'" for bs k
  proof (induction bs arbitrary: k)
    case (Cons b bs)
    obtain l where "uart_send U b k = Done (k\<lparr>io_log := l\<rparr>)" using assms(1) unfolding uart_works_def by blast
    moreover obtain k' where "write_serial_bytes U bs (k\<lparr>io_log := l\<rparr>) = Done k'" "R k'"
      using Cons.IH [OF steadyD(3) [OF assms(2) Cons.prems]] by blast
    ultimately show ?case by simp
  qed simp
  then show "R k \<Longrightarrow> ?thesis" by (simp add: write_serial_def)
qed

lemma print_test_returns:
  assumes "uart_works U" and "steady R"
  shows "R k \<Longrightarrow> \<exists>k'. print_test U ss k = Done k' \<and> R k'"
proof (induction ss arbitrary: k)
  case (Cons s ss)
  obtain k1 where k1: "print_args s White Black k = Done k1" "screen_step k k1"
    using print_args_screen [OF steadyD(1) [OF assms(2) Cons.prems]] by blast
  have "R k1" by (rule steadyD(2) [OF assms(2) Cons.prems k1(2)])
  from write_serial_returns [OF assms this] obtain k2 where "write_serial U s k1 = Done k2" "R k2" by blast
  then show ?case using k1(1) Cons.IH by (simp add: write_str_test_def)
qed simp

lemma println_test_returns: "uart_works U \<Longrightarrow> steady R \<Longrightarrow> R k \<Longrightarrow> \<exists>k'. println_test U ss k = Done k' \<and> R k'"
  unfolding println_test_def by (rule print_test_returns)

lemma for_each_test_result:
  assumes "uart_works U" and "steady R"
  shows "R k \<Longrightarrow> \<forall>t \<in> set ts. test_passes R t \<or> test_fails R t \<Longrightarrow>
    \<exists>r k'. for_each_test U ts k = Done (r, k') \<and> R k' \<and> (r = Ok () \<longleftrightarrow> (\<forall>t \<in> set ts. test_passes R t))"
proof (induction ts arbitrary: k)
  case (Cons t ts)
  obtain k1 where k1: "print_test U [''test '', type_name t, '' ''] k = Done k1" "R k1"
    using print_test_returns [OF assms Cons.prems(1)] by blast
  show ?case
  proof (cases "test_passes R t")
    case True
    with k1(2) obtain k2 where k2: "test_fn t k1 = Done (Ok (), k2)" "R k2" unfolding test_passes_def by blast
    obtain k3 where k3: "println_test U [''- passed''] k2 = Done k3" "R k3" using println_test_returns [OF assms k2(2)] by blast
    have "test_test U t k = Done (Ok (), k3)"
      using k1(1) k2(1) k3(1) by (simp add: test_test_def run_then_def try_then_def ok_def)
    then show ?thesis using Cons.IH [OF k3(2)] Cons.prems(2) True by (auto simp: try_then_def)
  next
    case False
    then obtain info k2 where k2: "test_fn t k1 = Done (Err info, k2)" "R k2"
      using Cons.prems(2) k1(2) unfolding test_fails_def by (auto simp del: print_test.simps)
    then have "test_test U t k = Done (Err info, k2)" using k1(1) by (simp add: test_test_def run_then_def try_then_def)
    then show ?thesis using k2(2) False by (auto simp: try_then_def)
  qed
qed (simp add: ok_def)

lemma exit_qemu_log: "\<exists>k'. exit_qemu error k = Done k' \<and> \<not> ints_on k' \<and> io_log k' = Out 0xF4 (if error then 0x43 else 0x42) # io_log k"
  by (simp add: exit_qemu_def hang_def cli_def writeb_nodummy_def SUCCESS_EXIT_CODE_def)

text \<open>
  The run always comes to an end, with interrupts disabled, and the last thing it does is to write
  QEMU's exit code: the success code if every test passes, and the one after it as soon as one panics.
\<close>

lemma run_tests_verdict:
  assumes "uart_works U" and "steady R" and "R k" and "\<forall>t \<in> set ts. test_passes R t \<or> test_fails R t"
  shows "\<exists>k' l. run_tests U ts k = Done k' \<and> \<not> ints_on k'
    \<and> io_log k' = Out 0xF4 (if \<forall>t \<in> set ts. test_passes R t then 0x42 else 0x43) # l"
proof -
  obtain l where l: "uart_init U k = Done (k\<lparr>io_log := l\<rparr>)" using assms(1) unfolding uart_works_def by blast
  from println_test_returns [OF assms(1,2) steadyD(3) [OF assms(2,3)]] obtain k1
    where k1: "println_test U [nl_str @ ''Running unit tests...''] (k\<lparr>io_log := l\<rparr>) = Done k1" "R k1" by blast
  obtain r k2 where k2: "for_each_test U ts k1 = Done (r, k2)" "R k2" "r = Ok () \<longleftrightarrow> (\<forall>t \<in> set ts. test_passes R t)"
    using for_each_test_result [OF assms(1,2) k1(2) assms(4)] by blast
  note print = println_test_returns [OF assms(1,2)]
  show ?thesis
  proof (cases r)
    case (Inl info)
    obtain k3 where k3: "println_test U [''- failed, see failure cause below'' @ nl_str, info] k2 = Done k3"
      using print [OF k2(2)] by blast
    then have "run_tests U ts k = exit_qemu True k3"
      using l k1(1) k2(1) Inl by (simp add: run_tests_def panic_handler_test_def)
    then show ?thesis using exit_qemu_log [of True k3] k2(3) Inl by auto
  next
    case (Inr u)
    obtain k3 where k3: "println_test U [''test stack overflow causes #PF - passed''] k2 = Done k3" "R k3"
      using print [OF k2(2)] by blast
    obtain k4 where k4: "println_test U [nl_str @ ''It looks like you didn't break anything!''] k3 = Done k4"
      using print [OF k3(2)] by blast
    have "run_tests U ts k = exit_qemu False k4"
      using l k1(1) k2(1) k3(1) k4 Inr by (simp add: run_tests_def page_fault_test_def)
    then show ?thesis using exit_qemu_log [of False k4] k2(3) Inr by auto
  qed
qed

text \<open>
  The outcome of the \<open>i\<close>-th test, with what ran before it: the state it was started in may depend on every earlier test. A test may
  change the state in any way that leaves the screen usable, and must return or panic.
\<close>

definition nth_test :: "('a vga_scheme) uart \<Rightarrow> ('a vga_scheme) test list \<Rightarrow> nat \<Rightarrow> ('a vga_scheme, string, unit) fallible" where
  "nth_test U ts i =
     try_then (for_each_test U (take i ts))
       (\<lambda>_. run_then (print_test U [''test '', type_name (ts ! i), '' '']) (test_fn (ts ! i)))"

definition returning_test :: "('a vga_scheme) test \<Rightarrow> bool" where
  "returning_test t \<longleftrightarrow> (\<forall>k. vga_ok k \<longrightarrow> (\<exists>r k'. test_fn t k = Done (r, k') \<and> vga_ok k'))"

lemma steady_screen: "steady vga_ok"
  by (auto simp: steady_def screen_step_def vga_ok_def)

lemma for_each_first:
  assumes U: "uart_works U"
  shows "vga_ok k \<Longrightarrow> \<forall>t \<in> set ts. returning_test t \<Longrightarrow>
    (\<exists>k'. vga_ok k' \<and> for_each_test U ts k = Done (Ok (), k') \<and> (\<forall>i < length ts. \<exists>k1. nth_test U ts i k = Done (Ok (), k1)))
    \<or> (\<exists>i < length ts. \<exists>info k1. vga_ok k1 \<and> for_each_test U ts k = Done (Err info, k1) \<and> nth_test U ts i k = Done (Err info, k1)
        \<and> (\<forall>j < i. \<exists>k2. nth_test U ts j k = Done (Ok (), k2)))"
proof (induction ts arbitrary: k)
  case (Cons t ts)
  obtain k1 where k1: "print_test U [''test '', type_name t, '' ''] k = Done k1" "vga_ok k1"
    using print_test_returns [OF U steady_screen Cons.prems(1)] by blast
  obtain r k2 where k2: "test_fn t k1 = Done (r, k2)" "vga_ok k2" using Cons.prems(2) k1(2) by (auto simp: returning_test_def)
  have first: "nth_test U (t # ts) 0 k = Done (r, k2)"
    using k1(1) k2(1) by (simp add: nth_test_def run_then_def try_then_def ok_def del: print_test.simps)
  show ?case
  proof (cases r)
    case (Inl info)
    then have "for_each_test U (t # ts) k = Done (Err info, k2)"
      using k1(1) k2(1) by (simp add: test_test_def run_then_def try_then_def del: print_test.simps)
    then show ?thesis using first Inl k2(2) by (intro disjI2 exI [of _ 0]) simp
  next
    case (Inr u)
    obtain k3 where k3: "println_test U [''- passed''] k2 = Done k3" "vga_ok k3" using println_test_returns [OF U steady_screen k2(2)] by blast
    have one: "test_test U t k = Done (Ok (), k3)"
      using k1(1) k2(1) k3(1) Inr by (simp add: test_test_def run_then_def try_then_def ok_def del: print_test.simps)
    then have rest: "for_each_test U (t # ts) k = for_each_test U ts k3" "\<And>i. nth_test U (t # ts) (Suc i) k = nth_test U ts i k3"
      by (simp_all add: nth_test_def try_then_def)
    have "nth_test U (t # ts) 0 k = Done (Ok (), k2)" using first Inr by simp
    note less = All_less_Suc2 [of _ "\<lambda>i. \<exists>k1. nth_test U (t # ts) i k = Done (Ok (), k1)"]
    have "\<forall>t \<in> set ts. returning_test t" using Cons.prems(2) by simp
    from Cons.IH [OF k3(2) this] show ?thesis
    proof (elim disjE)
      assume "\<exists>i < length ts. \<exists>info k1. vga_ok k1 \<and> for_each_test U ts k3 = Done (Err info, k1) \<and> nth_test U ts i k3 = Done (Err info, k1)
        \<and> (\<forall>j < i. \<exists>k2. nth_test U ts j k3 = Done (Ok (), k2))"
      then obtain i info k4 where i: "i < length ts" "vga_ok k4" "for_each_test U ts k3 = Done (Err info, k4)"
        "nth_test U ts i k3 = Done (Err info, k4)" "\<forall>j < i. \<exists>k2. nth_test U ts j k3 = Done (Ok (), k2)" by blast
      then have "\<forall>j < Suc i. \<exists>k2. nth_test U (t # ts) j k = Done (Ok (), k2)" unfolding less rest(2) using first Inr by simp
      then show ?thesis using i rest by (intro disjI2 exI [of _ "Suc i"]) simp
    next
      assume "\<exists>k'. vga_ok k' \<and> for_each_test U ts k3 = Done (Ok (), k') \<and> (\<forall>i < length ts. \<exists>k1. nth_test U ts i k3 = Done (Ok (), k1))"
      then show ?thesis unfolding rest(1) length_Cons less rest(2) using first Inr by simp
    qed
  qed
qed (simp add: ok_def)

text \<open>
  C39: the verdict of a run of tests. Started with a usable screen, on tests each of which returns or panics and leaves the screen usable, whatever
  else it changes, the run comes to an end with interrupts disabled, and the last thing it does is to write QEMU's exit code: the
  success code 42h exactly if every test of this run passed; otherwise the first test that panics ends the run, no test after it is started, its
  message is reported and the code is 43h.
\<close>

theorem test_run_verdict:
  assumes "uart_works U" and "vga_ok k" and "\<forall>t \<in> set ts. returning_test t"
  shows "\<exists>k0 k' l. andThen (uart_init U k) (println_test U [nl_str @ ''Running unit tests...'']) = Done k0
    \<and> run_tests U ts k = Done k' \<and> \<not> ints_on k'
    \<and> ((\<forall>i < length ts. \<exists>k1. nth_test U ts i k0 = Done (Ok (), k1)) \<and> io_log k' = Out 0xF4 0x42 # l
       \<or> (\<exists>i < length ts. \<exists>info k1. (\<forall>j < i. \<exists>k2. nth_test U ts j k0 = Done (Ok (), k2)) \<and> nth_test U ts i k0 = Done (Err info, k1)
           \<and> run_tests U ts k = panic_handler_test U info k1 \<and> io_log k' = Out 0xF4 0x43 # l))"
proof -
  obtain l where l: "uart_init U k = Done (k\<lparr>io_log := l\<rparr>)" using assms(1) unfolding uart_works_def by blast
  note print = println_test_returns [OF assms(1) steady_screen]
  obtain k0 where k0: "println_test U [nl_str @ ''Running unit tests...''] (k\<lparr>io_log := l\<rparr>) = Done k0" "vga_ok k0"
    using print [OF steadyD(3) [OF steady_screen assms(2)]] by blast
  have start: "andThen (uart_init U k) (println_test U [nl_str @ ''Running unit tests...'']) = Done k0" using l k0(1) by simp
  from for_each_first [OF assms(1) k0(2) assms(3)] show ?thesis
  proof (elim disjE exE conjE)
    fix k2 assume k2: "vga_ok k2" "for_each_test U ts k0 = Done (Ok (), k2)" and all: "\<forall>i < length ts. \<exists>k1. nth_test U ts i k0 = Done (Ok (), k1)"
    obtain k3 where k3: "println_test U [''test stack overflow causes #PF - passed''] k2 = Done k3" "vga_ok k3" using print [OF k2(1)] by blast
    obtain k4 where k4: "println_test U [nl_str @ ''It looks like you didn't break anything!''] k3 = Done k4" using print [OF k3(2)] by blast
    have "run_tests U ts k = exit_qemu False k4" using l k0(1) k2(2) k3(1) k4 by (simp add: run_tests_def page_fault_test_def)
    then show ?thesis using exit_qemu_log [of False k4] start all by auto
  next
    fix i info k1
    assume i: "i < length ts" "vga_ok k1" "for_each_test U ts k0 = Done (Err info, k1)" "nth_test U ts i k0 = Done (Err info, k1)"
      "\<forall>j < i. \<exists>k2. nth_test U ts j k0 = Done (Ok (), k2)"
    have run: "run_tests U ts k = panic_handler_test U info k1" using l k0(1) i(3) by (simp add: run_tests_def)
    obtain k3 where "println_test U [''- failed, see failure cause below'' @ nl_str, info] k1 = Done k3" using print [OF i(2)] by blast
    then have "run_tests U ts k = exit_qemu True k3" unfolding run by (simp add: panic_handler_test_def)
    moreover obtain k4 where k4: "exit_qemu True k3 = Done k4" "\<not> ints_on k4" "io_log k4 = Out 0xF4 0x43 # io_log k3" using exit_qemu_log [of True k3] by auto
    ultimately show ?thesis using start i run by (intro exI [of _ k0] exI [of _ k4] exI [of _ "io_log k3"]) auto
  qed
qed

section \<open>The kernel's tests\<close>

text \<open>A test that only looks at the state, and one that also changes it; the message of a failed assertion is \<open>info\<close>.\<close>

definition looking_test :: "string \<Rightarrow> string \<Rightarrow> ('s \<Rightarrow> unit run) \<Rightarrow> 's test" where
  "looking_test name info f = Test name (\<lambda>k. case f k of Done u \<Rightarrow> ok () k | Panic \<Rightarrow> throw info k | Hang \<Rightarrow> Hang)"

definition changing_test :: "string \<Rightarrow> string \<Rightarrow> ('s \<Rightarrow> 's run) \<Rightarrow> 's test" where
  "changing_test name info f = Test name (\<lambda>k. case f k of Done k' \<Rightarrow> ok () k' | Panic \<Rightarrow> throw info k | Hang \<Rightarrow> Hang)"

definition kernel_tests :: "env \<Rightarrow> int_stack_frame \<Rightarrow> interrupt_descriptor \<Rightarrow> u8 \<Rightarrow> string \<Rightarrow> ('a sysk_scheme) test list" where
  "kernel_tests E frame d panics info =
     [looking_test ''gdt::tests::structs_have_the_right_size'' info (\<lambda>k. gdt_structs_have_the_right_size),
      looking_test ''gdt::tests::cs_equals_static'' info cs_equals_static,
      looking_test ''gdt::tests::tss_segment_has_correct_ptr'' info (tss_segment_has_correct_ptr E),
      looking_test ''gdt::tests::ist_one_points_to_emergency_stack'' info (ist_one_points_to_emergency_stack E),
      looking_test ''interrupts::idt::tests::structs_have_the_right_size'' info (\<lambda>k. idt_structs_have_the_right_size frame d),
      looking_test ''interrupts::cont_access::tests::badbug_on_ints'' info (\<lambda>k. badbug_on_ints panics),
      looking_test ''interrupts::cont_access::tests::badbug_on_locked'' info (\<lambda>k. badbug_on_locked panics),
      looking_test ''interrupts::cont_access::tests::everything_works_fine'' info (\<lambda>k. everything_works_fine panics),
      changing_test ''time::tests::wait_services_require_pit'' info (wait_services_require_pit E),
      changing_test ''vga::cursor::tests::clamp_removes_invalid_values'' info clamp_removes_invalid_values]"

text \<open>States that differ from \<open>k0\<close> in the screen and the log only.\<close>

definition like_on_screen :: "'a vga_scheme \<Rightarrow> 'a vga_scheme \<Rightarrow> bool" where
  "like_on_screen k0 k \<longleftrightarrow> vga_ok k \<and> vga.more k = vga.more k0"

lemma steady_like_on_screen: "steady (like_on_screen k0)"
  by (auto simp: steady_def like_on_screen_def screen_step_def vga_ok_def)

lemma gdt_ready_like:
  fixes k0 k :: "'a sysk_scheme"
  shows "like_on_screen k0 k \<Longrightarrow> gdt_ready E k = gdt_ready E k0"
  by (cases k0; cases k) (simp add: like_on_screen_def gdt_ready_def)

lemma passing:
  "(\<And>k. R k \<Longrightarrow> f k = Done ()) \<Longrightarrow> test_passes R (looking_test name info f)"
  "(\<And>k. R k \<Longrightarrow> g k = Done k) \<Longrightarrow> test_passes R (changing_test name info g)"
  by (simp_all add: test_passes_def looking_test_def changing_test_def ok_def)

lemma kernel_tests_pass:
  fixes k0 :: "'a sysk_scheme"
  assumes "gdt_ready E k0"
  shows "\<forall>t \<in> set (kernel_tests E frame d panics info). test_passes (like_on_screen k0) t"
proof -
  have g: "gdt_ready E k" if "like_on_screen k0 k" for k using gdt_ready_like [OF that] assms by simp
  have c: "CURSOR_row k < 25" "CURSOR_column k < 80" if "like_on_screen k0 k" for k using that by (simp_all add: like_on_screen_def vga_ok_def)
  show ?thesis
    unfolding kernel_tests_def
    by (simp add: passing gdt_tests_pass [OF g] cont_access_tests_pass gdt_structs_have_the_right_size_passes
        idt_structs_have_the_right_size_passes wait_services_require_pit_passes clamp_removes_invalid_values_passes [OF c])
qed

text \<open>
  In the state that the first eight startup tasks leave, the ten tests of \<open>kernel_tests\<close> pass, also together with others that
  leave everything but the screen and the log alone and always pass or always panic.
\<close>

theorem kernel_tests_run:
  fixes k :: "'a sysk_scheme"
  assumes "powered_on cs k" and "uart_works U"
  shows "\<exists>k1. run_all (core_tasks E) k = Done k1 \<and> vga_ok k1
    \<and> (\<forall>ts. (\<forall>t \<in> set ts. test_passes (like_on_screen k1) t \<or> test_fails (like_on_screen k1) t) \<longrightarrow>
         (\<exists>k2 l. run_tests U (kernel_tests E frame d panics info @ ts) k1 = Done k2 \<and> \<not> ints_on k2
            \<and> io_log k2 = Out 0xF4 (if \<forall>t \<in> set ts. test_passes (like_on_screen k1) t then 0x42 else 0x43) # l))"
proof -
  obtain k1 where k1: "run_all (core_tasks E) k = Done k1" "typing_ok k1" "core_ready True True True E cs k1"
    using core_tasks_reach [where cs = cs and E = E and 'a = 'a] assms(1) unfolding reaches_def by blast
  then have "gdt_ready E k1" and start: "like_on_screen k1 k1"
    by (simp_all add: core_ready_def tables_ready_def typing_ok_def like_on_screen_def)
  note pass = kernel_tests_pass [OF this(1), of frame d panics info]
  have "\<exists>k2 l. run_tests U (kernel_tests E frame d panics info @ ts) k1 = Done k2 \<and> \<not> ints_on k2
      \<and> io_log k2 = Out 0xF4 (if \<forall>t \<in> set ts. test_passes (like_on_screen k1) t then 0x42 else 0x43) # l"
    if "\<forall>t \<in> set ts. test_passes (like_on_screen k1) t \<or> test_fails (like_on_screen k1) t" for ts
    using run_tests_verdict [OF assms(2) steady_like_on_screen start, of "kernel_tests E frame d panics info @ ts"] pass that
    by (simp add: ball_Un)
  with k1(1) start show ?thesis unfolding like_on_screen_def by blast
qed

definition sample_uart :: "('a machine_scheme) uart" where
  "sample_uart = \<lparr>uart_init = (\<lambda>k. Done (k\<lparr>io_log := Out 0x3F9 0 # io_log k\<rparr>)),
     uart_send = (\<lambda>b k. Done (k\<lparr>io_log := Out 0x3F8 b # io_log k\<rparr>))\<rparr>"

lemma sample_uart_works: "uart_works sample_uart"
  by (auto simp: uart_works_def sample_uart_def)

text \<open>A run whose second test panics.\<close>

theorem test_run_verdict_witness:
  "\<exists>k' l. run_tests sample_uart [Test ''first'' (ok ()), Test ''broken'' (throw ''assertion failed''), Test ''last'' (ok ())] boot_sysk = Done k'
     \<and> \<not> ints_on k' \<and> io_log k' = Out 0xF4 0x43 # l"
proof -
  let ?ts = "[Test ''first'' (ok ()), Test ''broken'' (throw ''assertion failed''), Test ''last'' (ok ())] :: sysk test list"
  have "try_then m (\<lambda>_. run_then p (throw e)) k0 \<noteq> Done (Ok (), k1)" for m :: "(sysk, string, unit) fallible" and p e k0 k1
    by (auto simp: try_then_eq_Done run_then_def andThen_eq_Done throw_def)
  then have "nth_test sample_uart ?ts 1 k0 \<noteq> Done (Ok (), k1)" for k0 k1 by (simp add: nth_test_def)
  then have "\<not> (\<forall>i < length ?ts. \<exists>k1. nth_test sample_uart ?ts i k0 = Done (Ok (), k1))" for k0 by (auto intro!: exI [of _ 1])
  moreover have "\<forall>t \<in> set ?ts. returning_test t" by (simp add: returning_test_def ok_def throw_def)
  moreover have "vga_ok boot_sysk" using boot_sysk_ok by (simp add: powered_on_def)
  ultimately show ?thesis using test_run_verdict [OF sample_uart_works, of boot_sysk ?ts] by blast
qed

theorem kernel_tests_run_witness:
  "\<exists>k1 k2 l. run_all (core_tasks sample_env) boot_sysk = Done k1
     \<and> run_tests sample_uart (kernel_tests sample_env \<lparr>sf_ip = 0, sf_cs = 0, sf_flags = 0, sf_sp = 0, sf_ss = 0\<rparr> interrupt_descriptor_default 0 []
           @ [Test ''broken'' (throw ''assertion failed'')]) k1 = Done k2
     \<and> io_log k2 = Out 0xF4 0x43 # l"
proof -
  let ?t = "Test ''broken'' (throw ''assertion failed'') :: sysk test"
  have "test_fails R ?t" for R by (simp add: test_fails_def throw_def)
  moreover have "\<not> test_passes (like_on_screen k1) ?t" if "vga_ok k1" for k1
    using that by (auto simp: test_passes_def throw_def like_on_screen_def)
  moreover obtain k1 where "run_all (core_tasks sample_env) boot_sysk = Done k1" "vga_ok k1"
    and run: "\<forall>ts. (\<forall>t \<in> set ts. test_passes (like_on_screen k1) t \<or> test_fails (like_on_screen k1) t) \<longrightarrow>
         (\<exists>k2 l. run_tests sample_uart (kernel_tests sample_env \<lparr>sf_ip = 0, sf_cs = 0, sf_flags = 0, sf_sp = 0, sf_ss = 0\<rparr> interrupt_descriptor_default 0 [] @ ts) k1 = Done k2 \<and> \<not> ints_on k2
            \<and> io_log k2 = Out 0xF4 (if \<forall>t \<in> set ts. test_passes (like_on_screen k1) t then 0x42 else 0x43) # l)"
    using kernel_tests_run [OF boot_sysk_ok sample_uart_works, of sample_env "\<lparr>sf_ip = 0, sf_cs = 0, sf_flags = 0, sf_sp = 0, sf_ss = 0\<rparr>" interrupt_descriptor_default 0 "[]"]
    by blast
  ultimately show ?thesis using run [rule_format, of "[?t]"] by auto
qed

section \<open>Tests of the running clock\<close>

definition wait_waits_for_correct_time :: "env \<Rightarrow> 'a kbd_scheme \<Rightarrow> 'a kbd_scheme run" where
  "wait_waits_for_correct_time E k =
     andThen (wait E 1 k) (\<lambda>k.
     let (time, k) = get_time E k
     in andThen (wait E 15 k) (\<lambda>k.
        let (now, k) = get_time E k
        in andThen (assert (now - 15 - time < 3)) (\<lambda>_. Done k)))"

definition rtc_contains_sane_values :: "env \<Rightarrow> 'a clock_scheme \<Rightarrow> unit run" where
  "rtc_contains_sane_values E k =
     (case init_later_read (LAUNCH_TIME k) of
        Inl _ \<Rightarrow> Panic
      | Inr time \<Rightarrow>
          asserts [t_year time - century E * 100 < 100,
            t_month time \<noteq> 0 \<and> t_month time \<le> 12,
            t_day time \<noteq> 0 \<and> t_day time \<le> 31,
            t_hour time < 24,
            t_min time < 60,
            t_sec time < 60])"

text \<open>Ticks that arrive only while the processor is halted, as the first test relies on.\<close>

definition ticks_while_halted :: "env \<Rightarrow> bool" where
  "ticks_while_halted E \<longleftrightarrow> (\<forall>l. TimerIrq \<notin> set (irqs E (ClockRead # l)))"

lemma wait_while_halted:
  fixes k :: "'a kbd_scheme"
  assumes E: "timer_latched E" "timer_wakes E" "ticks_while_halted E" and "ints_on k" "PIT_INIT k"
    and "unat ticks + 1 < fuel E" and "unat (TIME k) + unat ticks + 5 < 2 ^ 64"
  shows "\<exists>k'. wait E ticks k = Done k' \<and> ints_on k' \<and> PIT_INIT k'
    \<and> unat (TIME k) + unat ticks + 1 \<le> unat (TIME k') \<and> unat (TIME k') \<le> unat (TIME k) + unat ticks + 2"
proof -
  let ?w = "set_waiting_char True k"
  let ?k1 = "poll E ClockRead ?w"
  let ?target = "TIME ?k1 + ticks + 1"
  note w = set_waiting_frame [where b = True and k = k]
  have iw: "ints_on ?w" using assms(4) w by simp
  have "count_list (irqs E (ClockRead # io_log ?w)) TimerIrq = 0" using E(3) by (simp add: ticks_while_halted_def count_list_0_iff)
  then have t1: "unat (TIME ?k1) = unat (TIME k)"
    using poll_time [OF E(1) iw, of ClockRead] assms(7) w(2) by simp
  then have tgt: "unat ?target = unat (TIME k) + unat ticks + 1" using assms(7) by (simp add: unat_word_ariths)
  have i1: "ints_on ?k1" using iw poll_frame(1) [of ?w E ClockRead] by (simp add: undisturbed_def)
  obtain k2 where k2: "wait_loop E (fuel E) ?target ?k1 = Done k2" "unat ?target \<le> unat (TIME k2)" "unat (TIME k2) \<le> unat ?target + 1"
    using wait_loop_time [OF E(1,2) i1, of ?target "fuel E"] tgt t1 assms(6,7) by auto
  then have run: "wait E ticks k = Done (set_waiting_char False k2)" using assms(5) by (simp add: wait_def get_time_def Let_def)
  from wait_frame(1) [OF this] run k2 tgt assms(4,5) show ?thesis by (auto simp: set_waiting_frame undisturbed_def)
qed

lemma read_while_halted:
  fixes k :: "'a kbd_scheme"
  assumes "timer_latched E" "ticks_while_halted E" and "ints_on k" and "unat (TIME k) < 2 ^ 64 - 1"
  shows "\<exists>k'. get_time E k = (TIME k, k') \<and> TIME k' = TIME k \<and> ints_on k' \<and> PIT_INIT k' = PIT_INIT k"
proof -
  let ?k1 = "poll E ClockRead k"
  have "count_list (irqs E (ClockRead # io_log k)) TimerIrq = 0" using assms(2) by (simp add: ticks_while_halted_def count_list_0_iff)
  then have "TIME ?k1 = TIME k" using poll_time [OF assms(1,3,4), of ClockRead] by (simp add: word_unat_eq_iff)
  moreover have "ints_on ?k1" "PIT_INIT ?k1 = PIT_INIT k" using poll_frame(1) [of k E ClockRead] assms(3) by (simp_all add: undisturbed_def)
  ultimately show ?thesis by (simp add: get_time_def Let_def)
qed

text \<open>
  The test of \<^verbatim>\<open>wait\<close> passes when the timer runs and ticks arrive only while the processor is halted. With ticks at other times it may
  fail, which is why it starts by waiting for one.
\<close>

lemma wait_waits_for_correct_time_passes:
  fixes k :: "'a kbd_scheme"
  assumes "timer_latched E" "timer_wakes E" "ticks_while_halted E" and "ints_on k" "PIT_INIT k"
    and "16 < fuel E" and "unat (TIME k) + 100 < 2 ^ 64"
  shows "\<exists>k'. wait_waits_for_correct_time E k = Done k'"
proof -
  obtain k1 where k1: "wait E 1 k = Done k1" "ints_on k1" "PIT_INIT k1" "unat (TIME k1) \<le> unat (TIME k) + 3"
    using wait_while_halted [OF assms(1-5), of 1] assms(6,7) by auto
  obtain k2 where k2: "get_time E k1 = (TIME k1, k2)" "TIME k2 = TIME k1" "ints_on k2" "PIT_INIT k2"
    using read_while_halted [OF assms(1,3) k1(2)] k1(3,4) assms(7) by auto
  obtain k3 where k3: "wait E 15 k2 = Done k3" "ints_on k3" "unat (TIME k1) + 16 \<le> unat (TIME k3)" "unat (TIME k3) \<le> unat (TIME k1) + 17"
    using wait_while_halted [OF assms(1-3) k2(3,4), of 15] assms(6,7) k1(4) k2(2) by auto
  obtain k4 where k4: "get_time E k3 = (TIME k3, k4)"
    using read_while_halted [OF assms(1,3) k3(2)] k3(4) k1(4) assms(7) by auto
  define n where "n = unat (TIME k3) - unat (TIME k1) - 15"
  then have n: "unat (TIME k3) = unat (TIME k1) + 15 + n" "n \<le> 2" using k3(3,4) by simp_all
  have "TIME k3 = of_nat (unat (TIME k3))" by simp
  also have "\<dots> = TIME k1 + 15 + of_nat n" unfolding n(1) by simp
  finally have "TIME k3 - 15 - TIME k1 = of_nat n" by simp
  moreover have "of_nat n < (3 :: u64)" using n(2) by (simp add: word_less_nat_alt unat_of_nat)
  ultimately show ?thesis
    using k1(1) k2(1) k3(1) k4 by (simp add: wait_waits_for_correct_time_def assert_def)
qed

subsection \<open>The motor\<close>

fun repeat :: "nat \<Rightarrow> ('s \<Rightarrow> 's run) \<Rightarrow> 's \<Rightarrow> 's run" where
  "repeat 0 f k = Done k"
| "repeat (Suc n) f k = andThen (f k) (repeat n f)"

text \<open>\<open>_ = enable_motor()\<close> ignores the result.\<close>

definition enable_motor_ignored :: "env \<Rightarrow> 'a kbd_scheme \<Rightarrow> 'a kbd_scheme run" where
  "enable_motor_ignored E k = andThen (enable_motor E k) (\<lambda>(r, k). Done k)"

definition disable_motor_keeps_motor_running :: "env \<Rightarrow> 'a kbd_scheme \<Rightarrow> 'a kbd_scheme run" where
  "disable_motor_keeps_motor_running E k =
     andThen (enable_motor_ignored E k) (\<lambda>k.
     andThen (wait E 1 (disable_motor k)) (\<lambda>k.
     let (time, k) = get_time E k
     in andThen (repeat 16 (enable_motor_ignored E) k) (\<lambda>k.
        andThen (wait E 1 k) (\<lambda>k.
        let (now, k) = get_time E k
        in andThen (assert (now - time < 5)) (\<lambda>_. Done (disable_motor k))))))"

text \<open>A motor that keeps running at least until the clock shows \<open>c\<close>.\<close>

definition spins :: "nat \<Rightarrow> 'a kbd_scheme \<Rightarrow> bool" where
  "spins c k \<longleftrightarrow> MOTOR_STATE k \<noteq> MOTOR_OFF \<and> (MOTOR_STATE k = MOTOR_DISABLING \<longrightarrow> c \<le> unat (TIME k) + unat (MOTOR_TIME_LEFT k))"

lemma spins_irq:
  fixes k :: "'a kbd_scheme"
  assumes "spins c k"
  shows "i \<noteq> TimerIrq \<Longrightarrow> spins c (take_irq E i k)"
    and "unat (TIME k) < c \<Longrightarrow> unat (TIME k) < 2 ^ 64 - 1 \<Longrightarrow> spins c (take_irq E TimerIrq k)"
proof -
  assume "i \<noteq> TimerIrq"
  then show "spins c (take_irq E i k)" using assms
    by (cases i) (auto simp: spins_def handler_defs kbd_handler_def readb_nodummy_def writeb_nodummy_def writeb_eq
        sti_def cli_def sync_time_to_rtc_def time_now_def read_cmos_reg_eq Let_def)
next
  assume t: "unat (TIME k) < c" "unat (TIME k) < 2 ^ 64 - 1"
  have time: "unat (TIME k + 1) = unat (TIME k) + 1" using t(2) by (simp add: unat_word_ariths)
  show "spins c (take_irq E TimerIrq k)"
  proof (cases "MOTOR_STATE k = MOTOR_DISABLING")
    case True
    then have left: "MOTOR_TIME_LEFT k \<noteq> 0" using assms t(1) by (auto simp: spins_def)
    then have "unat (MOTOR_TIME_LEFT k - 1) = unat (MOTOR_TIME_LEFT k) - 1" by (rule unat_minus_one)
    moreover have "0 < unat (MOTOR_TIME_LEFT k)" using left by (simp add: unat_gt_0)
    ultimately show ?thesis
      using True left assms time by (simp add: timer_handler_eq decrease_motor_time_def spins_def Let_def)
  next
    case False
    then show ?thesis using assms by (simp add: timer_handler_eq decrease_motor_time_def spins_def)
  qed
qed

lemma spins_irqs:
  fixes k :: "'a kbd_scheme"
  shows "TimerIrq \<notin> set is \<Longrightarrow> spins c k \<Longrightarrow> spins c (fold (take_irq E) is k)"
    and "count_list is TimerIrq \<le> 1 \<Longrightarrow> unat (TIME k) < c \<Longrightarrow> unat (TIME k) < 2 ^ 64 - 1 \<Longrightarrow> spins c k \<Longrightarrow> spins c (fold (take_irq E) is k)"
proof -
  show none: "TimerIrq \<notin> set is \<Longrightarrow> spins c k \<Longrightarrow> spins c (fold (take_irq E) is k)" for "is" and k :: "'a kbd_scheme"
    by (induction "is" arbitrary: k) (auto simp: spins_irq(1))
  show "count_list is TimerIrq \<le> 1 \<Longrightarrow> unat (TIME k) < c \<Longrightarrow> unat (TIME k) < 2 ^ 64 - 1 \<Longrightarrow> spins c k \<Longrightarrow> spins c (fold (take_irq E) is k)"
  proof (induction "is" arbitrary: k)
    case (Cons i "is")
    show ?case
    proof (cases "i = TimerIrq")
      case True
      then have "TimerIrq \<notin> set is" using Cons.prems(1) by (auto simp: count_list_0_iff)
      then show ?thesis using none spins_irq(2) [OF Cons.prems(4,2,3), of E] True by simp
    next
      case False
      then have "TIME (take_irq E i k) = TIME k" "spins c (take_irq E i k)"
        using take_irq_frame [of k E i] spins_irq(1) [OF Cons.prems(4) False] by simp_all
      then show ?thesis using Cons.IH [of "take_irq E i k"] Cons.prems(1-3) False by simp
    qed
  qed simp
qed

lemma spins_poll:
  assumes "timer_latched E" and "spins c k" and "unat (TIME k) < c" and "c < 2 ^ 64"
  shows "spins c (poll E ev k)"
proof -
  let ?k = "k\<lparr>io_log := ev # io_log k\<rparr>"
  have "count_list (irqs E (ev # io_log k)) TimerIrq \<le> 1" using assms(1) by (simp add: timer_latched_def)
  moreover have "spins c ?k" using assms(2) by (simp add: spins_def)
  ultimately have "spins c (fold (take_irq E) (irqs E (ev # io_log k)) ?k)" using assms(3,4) by (intro spins_irqs(2)) simp_all
  then show ?thesis using \<open>spins c ?k\<close> by (simp add: poll_def Let_def)
qed

lemma spins_wait_loop:
  fixes k :: "'a kbd_scheme"
  assumes E: "timer_latched E" and c: "unat target < c" "c < 2 ^ 64"
  shows "spins c k \<Longrightarrow> ints_on k \<Longrightarrow> unat (TIME k) \<le> unat target \<Longrightarrow> wait_loop E n target k = Done k' \<Longrightarrow> spins c k'"
proof (induction n arbitrary: k)
  case (Suc n)
  let ?k1 = "poll E ClockRead k"
  let ?k2 = "poll E Halt ?k1"
  have k1: "spins c ?k1" "ints_on ?k1"
    using spins_poll [OF E Suc.prems(1)] Suc.prems(2,3) c poll_frame(1) [of k E ClockRead] by (simp_all add: undisturbed_def)
  show ?case
  proof (cases "TIME ?k1 < target")
    case True
    then have t: "unat (TIME ?k1) < unat target" by (simp add: word_less_nat_alt)
    have k2: "spins c ?k2" "ints_on ?k2"
      using spins_poll [OF E k1(1)] k1(2) t c poll_frame(1) [of ?k1 E Halt] by (simp_all add: undisturbed_def)
    have "count_list (irqs E (Halt # io_log ?k1)) TimerIrq \<le> 1" using E by (simp add: timer_latched_def)
    then have "unat (TIME ?k2) \<le> unat target" using poll_time [OF E k1(2), of Halt] t c by simp
    with Suc.IH [OF k2] Suc.prems(4) True k1(2) show ?thesis by (simp add: get_time_def hlt_def Let_def)
  next
    case False
    then show ?thesis using Suc.prems(4) k1(1) by (simp add: get_time_def Let_def)
  qed
qed simp

lemma spins_waiting: "spins c (set_waiting_char b k) = spins c k"
proof -
  have "MOTOR_TIME_LEFT (set_waiting_char b k) = MOTOR_TIME_LEFT k"
    by (simp add: set_waiting_char_def write_volatile_def Let_def split_beta)
  then show ?thesis by (simp add: spins_def set_waiting_frame)
qed

lemma spins_wait:
  fixes k :: "'a kbd_scheme"
  assumes E: "timer_latched E" and k: "ints_on k" "PIT_INIT k" "spins c k" and c: "unat (TIME k) + unat ticks + 2 < c" "c < 2 ^ 64"
    and run: "wait E ticks k = Done k'"
  shows "spins c k'"
proof -
  let ?w = "set_waiting_char True k"
  let ?k1 = "poll E ClockRead ?w"
  obtain k2 where k2: "wait_loop E (fuel E) (TIME ?k1 + ticks + 1) ?k1 = Done k2" "k' = set_waiting_char False k2"
    using run k(2) by (auto simp: wait_def get_time_def Let_def andThen_eq_Done)
  have w: "ints_on ?w" "spins c ?w" "TIME ?w = TIME k" using k by (simp_all add: set_waiting_frame spins_waiting)
  have "count_list (irqs E (ClockRead # io_log ?w)) TimerIrq \<le> 1" using E by (simp add: timer_latched_def)
  then have t: "unat (TIME ?k1) \<le> unat (TIME k) + 1" using poll_time [OF E w(1), of ClockRead] w(3) c by simp
  then have tgt: "unat (TIME ?k1 + ticks + 1) = unat (TIME ?k1) + unat ticks + 1" using c by (simp add: unat_word_ariths)
  have "spins c ?k1" "ints_on ?k1"
    using spins_poll [OF E w(2)] w(1,3) c poll_frame(1) [of ?w E ClockRead] by (simp_all add: undisturbed_def)
  from spins_wait_loop [OF E _ c(2) this _ k2(1)] tgt t c(1) show ?thesis unfolding k2(2) spins_waiting by simp
qed

lemma spinning_motor_enabled:
  fixes k :: "'a kbd_scheme"
  assumes "spins c k"
  shows "\<exists>k'. enable_motor_ignored E k = Done k' \<and> spins c k' \<and> TIME k' = TIME k \<and> ints_on k' = ints_on k \<and> PIT_INIT k' = PIT_INIT k"
  using assms by (auto simp: enable_motor_ignored_def enable_motor_def ok_def spins_def motor_defs)

lemma spinning_motor_enabled_often:
  fixes k :: "'a kbd_scheme"
  shows "spins c k \<Longrightarrow> \<exists>k'. repeat n (enable_motor_ignored E) k = Done k' \<and> spins c k' \<and> TIME k' = TIME k \<and> ints_on k' = ints_on k \<and> PIT_INIT k' = PIT_INIT k"
proof (induction n arbitrary: k)
  case (Suc n)
  from spinning_motor_enabled [OF Suc.prems, of E] obtain k1 where k1: "enable_motor_ignored E k = Done k1" "spins c k1"
    "TIME k1 = TIME k" "ints_on k1 = ints_on k" "PIT_INIT k1 = PIT_INIT k" by blast
  from Suc.IH [OF k1(2)] k1 show ?case by auto
qed simp

lemma enable_motor_returns:
  fixes k :: "'a kbd_scheme"
  assumes E: "timer_latched E" "timer_wakes E" "ticks_while_halted E" "51 < fuel E"
    and k: "ints_on k" "PIT_INIT k" "unat (TIME k) + 60 < 2 ^ 64"
  shows "\<exists>k'. enable_motor_ignored E k = Done k' \<and> ints_on k' \<and> PIT_INIT k' \<and> unat (TIME k') \<le> unat (TIME k) + 52"
proof (cases "MOTOR_STATE k = MOTOR_OFF")
  case True
  show ?thesis
  proof (cases "add_offset DigitalOutputRegister k")
    case (Inl e)
    then show ?thesis using True k by (simp add: enable_motor_ignored_def enable_motor_def send_enable_cmd_def throw_def)
  next
    case (Inr p)
    define k1 where "k1 = (if DRIVE_ONE k then writeb p 0b100101 k else writeb p 0b010100 k)\<lparr>MOTOR_STATE := MOTOR_ON\<rparr>"
    have "ints_on k1" "PIT_INIT k1" "TIME k1 = TIME k" using k by (simp_all add: k1_def writeb_eq)
    with wait_while_halted [OF E(1-3) this(1,2), of 50] E(4) k(3) obtain k2
      where k2: "wait E 50 k1 = Done k2" "ints_on k2" "PIT_INIT k2" "unat (TIME k2) \<le> unat (TIME k) + 52"
      by auto
    have "enable_motor E k = run_then (wait E 50) (ok ()) k1"
      using True Inr by (simp add: enable_motor_def send_enable_cmd_def Let_def k1_def)
    then show ?thesis using k2 by (simp add: enable_motor_ignored_def run_then_def ok_def)
  qed
next
  case False
  then show ?thesis using k by (auto simp: enable_motor_ignored_def enable_motor_def ok_def)
qed

text \<open>The test of the motor passes when the timer runs and ticks arrive only while the processor is halted.\<close>

lemma disable_motor_keeps_motor_running_passes:
  fixes k :: "'a kbd_scheme"
  assumes E: "timer_latched E" "timer_wakes E" "ticks_while_halted E" "51 < fuel E"
    and k: "ints_on k" "PIT_INIT k" "unat (TIME k) + 200 < 2 ^ 64"
  shows "\<exists>k'. disable_motor_keeps_motor_running E k = Done k'"
proof -
  obtain k1 where k1: "enable_motor_ignored E k = Done k1" "ints_on k1" "PIT_INIT k1" "unat (TIME k1) \<le> unat (TIME k) + 52"
    using enable_motor_returns [OF E k(1,2)] k(3) by auto
  let ?d = "disable_motor k1" and ?c = "unat (TIME k1) + 50"
  have d: "ints_on ?d" "PIT_INIT ?d" "TIME ?d = TIME k1" "spins ?c ?d"
    using k1 by (simp_all add: disable_motor_def spins_def motor_defs Let_def)
  from wait_while_halted [OF E(1-3) d(1,2), of 1] obtain k2 where k2: "wait E 1 ?d = Done k2" "ints_on k2" "PIT_INIT k2"
    "unat (TIME k2) \<le> unat (TIME k1) + 3"
    using E(4) d(3) k1(4) k(3) by auto
  have s2: "spins ?c k2" using d k1(4) k(3) by (intro spins_wait [OF E(1) d(1,2,4) _ _ k2(1)]) simp_all
  obtain k3 where k3: "get_time E k2 = (TIME k2, k3)" "TIME k3 = TIME k2" "ints_on k3" "PIT_INIT k3" "k3 = poll E ClockRead k2"
    using read_while_halted [OF E(1,3) k2(2)] k2(3,4) k1(4) k(3) by (auto simp: get_time_def Let_def)
  have s3: "spins ?c k3" unfolding k3(5) using s2 k2(4) k1(4) k(3) by (intro spins_poll [OF E(1)]) simp_all
  obtain k4 where k4: "repeat 16 (enable_motor_ignored E) k3 = Done k4" "TIME k4 = TIME k2" "ints_on k4" "PIT_INIT k4"
    using spinning_motor_enabled_often [OF s3, of 16 E] k3 by auto
  obtain k5 where k5: "wait E 1 k4 = Done k5" "ints_on k5" "unat (TIME k2) \<le> unat (TIME k5)" "unat (TIME k5) \<le> unat (TIME k2) + 3"
    using wait_while_halted [OF E(1-3) k4(3,4), of 1] E(4) k4(2) k2(4) k1(4) k(3) by auto
  obtain k6 where k6: "get_time E k5 = (TIME k5, k6)"
    using read_while_halted [OF E(1,3) k5(2)] k5(4) k2(4) k1(4) k(3) by auto
  have "unat (TIME k5 - TIME k2) = unat (TIME k5) - unat (TIME k2)" using k5(3) by (intro unat_sub) (simp add: word_le_nat_alt)
  then have "TIME k5 - TIME k2 < 5" using k5(4) by (simp add: word_less_nat_alt)
  then show ?thesis
    using k1(1) k2(1) k3(1) k4(1) k5(1) k6 by (simp add: disable_motor_keeps_motor_running_def assert_def del: repeat.simps)
qed

subsection \<open>The real time clock\<close>

text \<open>
  The test of the real time clock fails on a clock in BCD mode at 23:59, because the hour is stored as it was read.
\<close>

lemma rtc_test_fails_late:
  "rtc_contains_sane_values late_env (sync_time_to_rtc late_env initial_clock) = Panic"
proof -
  let ?t = "convert_time (century late_env) (late_regs CMOS_REG_B) (registers late_regs)"
  have "cmos_holds late_env late_regs" "il_state (LAUNCH_TIME initial_clock) = UNINIT"
    by (simp_all add: cmos_holds_def late_env_def initial_clock_def vga.extend_def init_later_uninit_def)
  from sync_stores_converted [OF this] have read: "init_later_read (LAUNCH_TIME (sync_time_to_rtc late_env initial_clock)) = Ok ?t" by blast
  have "t_hour ?t = 0x23"
    using convert_hour [of "century late_env" "late_regs CMOS_REG_B" "registers late_regs"]
    by (simp add: registers_def late_regs_def CMOS_REG_B_def bit_simps)
  with read show ?thesis by (simp add: rtc_contains_sane_values_def assert_def)
qed

end
