(* ===== verification/Seeder.thy ===== *)
theory Seeder
  imports Prelude
begin

text \<open>
  seeder/src/cmd.rs and seeder/src/main.rs: the build tool. It runs as an ordinary process, so its
  effects are those of the host: lines printed, programs started, files opened, written and copied.
  They are recorded in a log, newest event first, each with the host's answer; \<^verbatim>\<open>process::exit\<close>
  ends the process with a code, which is an early return (\<open>throw\<close>) in the model, and a panic of
  the tool is the outcome \<open>Panic\<close>.
\<close>

section \<open>The host\<close>

text \<open>
  The operating system, cargo and QEMU are the record \<open>host\<close>, whose answers may depend on everything
  done before: \<open>spawn\<close> for \<^verbatim>\<open>Command::status\<close> (the working directory is \<open>None\<close> where the source
  sets none), \<open>canonicalize\<close>, \<open>can_open\<close>, \<open>can_write\<close> and \<open>can_copy\<close> for the file operations. An
  \<^verbatim>\<open>io::Error\<close> is what it displays; \<open>show_status\<close> is the display of an \<^verbatim>\<open>ExitStatusError\<close>.
\<close>

datatype exit_status = ExitedWith int | KilledBy int

datatype event =
    Line string
  | Ran string "string list" "string option" "string + exit_status"
  | Opened string bool
  | Wrote string bytes "string option"
  | Copied string string bool
  | Help

record host =
  spawn :: "event list \<Rightarrow> string \<Rightarrow> string list \<Rightarrow> string option \<Rightarrow> string + exit_status"
  canonicalize :: "event list \<Rightarrow> string \<Rightarrow> string option"
  can_open :: "event list \<Rightarrow> string \<Rightarrow> bool"
  can_write :: "event list \<Rightarrow> string \<Rightarrow> string option"
  can_copy :: "event list \<Rightarrow> string \<Rightarrow> string \<Rightarrow> bool"
  show_status :: "exit_status \<Rightarrow> string"

type_synonym ('e, 'a) process = "(event list, 'e, 'a) fallible"
type_synonym 'a tool = "(int, 'a) process"

definition log_line :: "string \<Rightarrow> ('e, unit) process" where
  "log_line s l = Done (Inr (), Line s # l)"

definition status :: "host \<Rightarrow> string \<Rightarrow> string list \<Rightarrow> string option \<Rightarrow> (string, exit_status) process" where
  "status H prog argv dir l =
     (let r = spawn H l prog argv dir in Done (r, Ran prog argv dir r # l))"

definition open_read :: "host \<Rightarrow> string \<Rightarrow> (string, unit) process" where
  "open_read H file l = (let b = can_open H l file in Done (if b then Inr () else Inl '''', Opened file b # l))"

definition fs_write :: "host \<Rightarrow> string \<Rightarrow> bytes \<Rightarrow> (string, unit) process" where
  "fs_write H file buf l =
     (let r = can_write H l file
      in Done (case r of Some e \<Rightarrow> Inl e | None \<Rightarrow> Inr (), Wrote file buf r # l))"

definition fs_copy :: "host \<Rightarrow> string \<Rightarrow> string \<Rightarrow> (string, unit) process" where
  "fs_copy H from to l =
     (let b = can_copy H l from to in Done (if b then Inr () else Inl '''', Copied from to b # l))"

text \<open>\<^verbatim>\<open>ExitStatus::exit_ok\<close>: only exit code 0 is a success.\<close>

definition exit_ok :: "exit_status \<Rightarrow> (exit_status, unit) process" where
  "exit_ok st l = Done (if st = ExitedWith 0 then Inr () else Inl st, l)"

text \<open>
  The parsed command line, of the crate clap: \<open>get_flag\<close> tells whether a flag was given, \<open>get_one\<close> the
  value of an option.
\<close>

record arg_matches =
  get_flag :: "string \<Rightarrow> bool"
  get_one :: "string \<Rightarrow> string option"

section \<open>cmd.rs\<close>

definition BUILT_KERNEL_IMG :: string where
  "BUILT_KERNEL_IMG = ''kernel/target/x86_64-sunflower/release/bootimage-sunflower.bin''"

definition COPIED_KERNEL_IMG :: string where
  "COPIED_KERNEL_IMG = ''sunflower.bin''"

datatype run_command_kind = Build | Clippy | Test

fun as_str :: "run_command_kind \<Rightarrow> string" where
  "as_str Build = ''bootimage''"
| "as_str Clippy = ''paperclip''"
| "as_str Test = ''did-i-break-anything''"

datatype run_cargo_error = CouldntRun string | BadExitStatus exit_status

definition run_cargo_error_display :: "host \<Rightarrow> run_cargo_error \<Rightarrow> string" where
  "run_cargo_error_display H err =
     (case err of
        CouldntRun e \<Rightarrow> ''failed running cargo, '' @ e
      | BadExitStatus st \<Rightarrow> ''cargo returned error: '' @ show_status H st)"

definition cargo_feats :: "arg_matches \<Rightarrow> string list" where
  "cargo_feats m =
     (let debug = get_flag m ''debug''; noenter = get_flag m ''noenter''
      in if debug \<and> noenter then [''-F'', ''debug_info'', ''disable_enter'']
         else if debug then [''-F'', ''debug_info'']
         else if noenter then [''-F'', ''disable_enter'']
         else [])"

definition try_run :: "host \<Rightarrow> string \<Rightarrow> string \<Rightarrow> arg_matches \<Rightarrow> (run_cargo_error, unit) process" where
  "try_run H cmd dir m l =
     (case canonicalize H l dir of
        None \<Rightarrow> Panic
      | Some path \<Rightarrow>
          try_then
            (map_err CouldntRun
              (status H ''cargo'' ([cmd, ''--manifest-path'', ''./Cargo.toml''] @ cargo_feats m) (Some path)))
            (\<lambda>st. map_err BadExitStatus (exit_ok st)) l)"

definition FLOPPY_IMG :: bytes where
  "FLOPPY_IMG = replicate (1440 * 1024) 0"

definition install_bootimage :: "host \<Rightarrow> string \<Rightarrow> string \<Rightarrow> arg_matches \<Rightarrow> unit tool" where
  "install_bootimage H cmd_str dir m =
     try_then (log_line ''Installing bootimage build tool...'') (\<lambda>_.
     match_res (status H ''cargo'' [''install'', ''bootimage@0.10.3''] None)
       (\<lambda>e. try_then (log_line (''error: running `cargo` to install bootimage@0.10.3, '' @ e)) (\<lambda>_. throw 1))
       (\<lambda>_. match_res (try_run H cmd_str dir m)
         (\<lambda>e. try_then (log_line (''error: failed running build command, '' @ run_cargo_error_display H e)) (\<lambda>_. throw 2))
         ok))"

definition create_floppy :: "host \<Rightarrow> unit tool" where
  "create_floppy H =
     match_res (open_read H ''floppy.img'')
       (\<lambda>_. try_then (log_line ''Creating floppy drive...'') (\<lambda>_.
          match_res (fs_write H ''floppy.img'' FLOPPY_IMG)
            (\<lambda>e. try_then (log_line (''error: failed created floppy.img, '' @ e)) (\<lambda>_. throw 3))
            ok))
       ok"

definition copy_image :: "host \<Rightarrow> arg_matches \<Rightarrow> unit tool" where
  "copy_image H m =
     (let path = (case get_one m ''path'' of Some path \<Rightarrow> path | None \<Rightarrow> COPIED_KERNEL_IMG)
      in try_then (log_line (''Built kernel image at `'' @ BUILT_KERNEL_IMG @ ''`, copying to `'' @ path @ ''`...'')) (\<lambda>_.
         match_res (fs_copy H BUILT_KERNEL_IMG path)
           (\<lambda>_. log_line (''warn: failed copying kernel image, yet a built image of sunflower still exists at `'' @ path @ ''`''))
           (\<lambda>_. log_line (''Successfully built bootable sunflower image located at `'' @ path @ ''`''))))"

definition run_command :: "host \<Rightarrow> run_command_kind \<Rightarrow> string \<Rightarrow> arg_matches \<Rightarrow> unit tool" where
  "run_command H cmd dir m =
     (let cmd_str = as_str cmd
      in try_then
        (match_res (try_run H cmd_str dir m)
          (\<lambda>e. if cmd \<noteq> Build
            then try_then (log_line (''error: failed running command '' @ cmd_str @ '': '' @ run_cargo_error_display H e)) (\<lambda>_. throw 6)
            else install_bootimage H cmd_str dir m)
          ok) (\<lambda>_.
      try_then (create_floppy H) (\<lambda>_.
      if cmd = Build then copy_image H m else ok ())))"

section \<open>main.rs\<close>

definition warn_unneeded_arg :: "string \<Rightarrow> string \<Rightarrow> arg_matches \<Rightarrow> unit tool" where
  "warn_unneeded_arg cmd arg m =
     (if get_flag m arg
      then log_line (''warn: argument `--'' @ arg @ ''` is ignored when using command `'' @ cmd @ ''`'')
      else ok ())"

fun in_order :: "unit tool list \<Rightarrow> unit tool" where
  "in_order [] = ok ()"
| "in_order (t # ts) = try_then t (\<lambda>_. in_order ts)"

definition build :: "host \<Rightarrow> arg_matches \<Rightarrow> unit tool" where
  "build H m =
     in_order [warn_unneeded_arg ''build'' ''pipewire'' m,
       warn_unneeded_arg ''build'' ''pulseaudio'' m,
       warn_unneeded_arg ''build'' ''nosound'' m,
       run_command H Build ''./kernel'' m]"

definition qemu_args :: "string \<Rightarrow> string list" where
  "qemu_args audio =
     [''-drive'', ''format=raw,file='' @ BUILT_KERNEL_IMG,
      ''-drive'', ''format=raw,file=./floppy.img,if=floppy'',
      ''-audio'', ''driver='' @ audio @ '',model=virtio,id=speaker'',
      ''--machine'', ''pcspk-audiodev=speaker'']"

definition start_qemu :: "host \<Rightarrow> string \<Rightarrow> string list \<Rightarrow> unit tool" where
  "start_qemu H audio monitor =
     match_res (status H ''qemu-system-x86_64'' (qemu_args audio @ monitor) None)
       (\<lambda>e. try_then (log_line (''error: failed running QEMU (qemu-system-x86_64): '' @ e @ [CHR 0x0A]
            @ ''Did you install QEMU from https://www.qemu.org/download/ ?'')) (\<lambda>_. throw 5))
       (\<lambda>_. ok ())"

definition sdr_run :: "host \<Rightarrow> arg_matches \<Rightarrow> unit tool" where
  "sdr_run H m =
     (let pipe = get_flag m ''pipewire''; pulse = get_flag m ''pulseaudio''; nosound = get_flag m ''nosound''
      in if (pipe \<and> pulse) \<or> (pipe \<and> nosound) \<or> (pulse \<and> nosound)
         then try_then (log_line (''error: options `--pipewire`, `--pulseaudio` and `--nosound` ''
                @ ''cannot be used together in any combination'')) (\<lambda>_. throw 4)
         else
           (let audio = (if pipe then ''pipewire'' else if pulse then ''pa'' else ''none'');
                monitor = (if get_flag m ''debug'' then [''-monitor'', ''stdio''] else [])
            in in_order
              [if \<not> pipe \<and> \<not> pulse \<and> \<not> nosound
               then log_line ''warning: no audio flag specified, assuming --nosound'' else ok (),
               run_command H Build ''./kernel'' m,
               log_line (''Running QEMU with audio driver `'' @ audio @ ''`...''),
               start_qemu H audio monitor]))"

definition DIRS :: "string list" where
  "DIRS = [''seeder'', ''libutil'', ''libfs'', ''kernel'']"

definition run_alldirs :: "host \<Rightarrow> run_command_kind \<Rightarrow> arg_matches \<Rightarrow> unit tool" where
  "run_alldirs H cmd m =
     (let str = as_str cmd
      in in_order
        ([warn_unneeded_arg str ''debug'' m,
          warn_unneeded_arg str ''noenter'' m,
          warn_unneeded_arg str ''pipewire'' m,
          warn_unneeded_arg str ''pulseaudio'' m,
          warn_unneeded_arg str ''nosound'' m,
          run_command H Build ''./kernel'' m]
         @ concat (map (\<lambda>dir. [log_line (''Running '' @ str @ '' in '' @ dir @ ''...''), run_command H cmd dir m]) DIRS)))"

text \<open>The options every command takes: identifier, short and long form, and whether it takes a value.\<close>

record arg_spec =
  arg_id :: string
  arg_short :: string
  arg_long :: string
  arg_takes_value :: bool
  arg_help :: string

definition sdr_args :: "arg_spec list" where
  "sdr_args =
     [\<lparr>arg_id = ''debug'', arg_short = ''-d'', arg_long = ''--debug'', arg_takes_value = False,
        arg_help = ''Enables runtime debug tools and information''\<rparr>,
      \<lparr>arg_id = ''noenter'', arg_short = ''-e'', arg_long = ''--noenter'', arg_takes_value = False,
        arg_help = ''Prevents sunflower from detecting if the enter key is pressed''\<rparr>,
      \<lparr>arg_id = ''path'', arg_short = ''-p'', arg_long = ''--path'', arg_takes_value = True,
        arg_help = ''The file to write the built bootable disk image to''\<rparr>,
      \<lparr>arg_id = ''pipewire'', arg_short = ''-w'', arg_long = ''--pipewire'', arg_takes_value = False,
        arg_help = ''Run with pipewire audio support''\<rparr>,
      \<lparr>arg_id = ''pulseaudio'', arg_short = ''-a'', arg_long = ''--pulseaudio'', arg_takes_value = False,
        arg_help = ''Run with pulseaudio audio support''\<rparr>,
      \<lparr>arg_id = ''nosound'', arg_short = ''-n'', arg_long = ''--nosound'', arg_takes_value = False,
        arg_help = ''Run without audio''\<rparr>]"

text \<open>The declared commands: name, aliases and description; each takes the options above.\<close>

record subcommand_spec =
  sub_name :: string
  sub_aliases :: "string list"
  sub_about :: string
  sub_args :: "arg_spec list"

definition subcommands :: "subcommand_spec list" where
  "subcommands =
     [\<lparr>sub_name = ''build, b'', sub_aliases = [''build'', ''b''], sub_about = ''Builds the kernel'', sub_args = sdr_args\<rparr>,
      \<lparr>sub_name = ''run, r'', sub_aliases = [''run'', ''r''],
        sub_about = ''Builds then runs the kernel in QEMU, requires passing in an audio flag'', sub_args = sdr_args\<rparr>,
      \<lparr>sub_name = ''did-i-break-anything, diba'', sub_aliases = [''did-i-break-anything'', ''diba''],
        sub_about = ''Runs tests on the kernel in QEMU'', sub_args = sdr_args\<rparr>,
      \<lparr>sub_name = ''clippy, c'', sub_aliases = [''clippy'', ''c''], sub_about = ''Checks sunflower using clippy'', sub_args = sdr_args\<rparr>,
      \<lparr>sub_name = ''dbg, d'', sub_aliases = [''dbg'', ''d''], sub_about = ''alias: run -dn'', sub_args = sdr_args\<rparr>]"

lemma sub_names:
  "sub_name ` set subcommands =
     {''build, b'', ''run, r'', ''did-i-break-anything, diba'', ''clippy, c'', ''dbg, d''}"
  by (simp add: subcommands_def)

text \<open>
  \<open>sub\<close> is what clap made of the command line: the declared name of the command given and its options.
  \<open>get_matches_from\<close> is clap's parser for a list of options.
\<close>

definition command_help :: "unit tool" where
  "command_help l = Done (Inr (), Help # l)"

definition sdr_main ::
  "host \<Rightarrow> (arg_spec list \<Rightarrow> string list \<Rightarrow> arg_matches) \<Rightarrow> (string \<times> arg_matches) option \<Rightarrow> unit tool" where
  "sdr_main H get_matches_from sub =
     (case sub of
        None \<Rightarrow> command_help
      | Some (name, m) \<Rightarrow>
          if name = ''build, b'' then build H m
          else if name = ''run, r'' then sdr_run H m
          else if name = ''did-i-break-anything, diba'' then run_alldirs H Test m
          else if name = ''clippy, c'' then run_alldirs H Clippy m
          else if name = ''dbg, d'' then sdr_run H (get_matches_from sdr_args ['''', ''-d'', ''-n''])
          else (\<lambda>_. Panic))"

section \<open>What was started\<close>

text \<open>The programs a log shows as started, oldest first, with the host's answers; an answer is good
  when the program ran and exited with code 0.\<close>

type_synonym call = "string \<times> string list \<times> string option"

fun started :: "event list \<Rightarrow> (call \<times> (string + exit_status)) list" where
  "started [] = []"
| "started (Ran prog argv dir r # l) = started l @ [((prog, argv, dir), r)]"
| "started (_ # l) = started l"

abbreviation good :: "string + exit_status \<Rightarrow> bool" where
  "good r \<equiv> r = Inr (ExitedWith 0)"

definition cargo_call :: "run_command_kind \<Rightarrow> arg_matches \<Rightarrow> string \<Rightarrow> call" where
  "cargo_call cmd m path =
     (''cargo'', [as_str cmd, ''--manifest-path'', ''./Cargo.toml''] @ cargo_feats m, Some path)"

definition install_call :: call where
  "install_call = (''cargo'', [''install'', ''bootimage@0.10.3''], None)"

definition qemu_call :: "string \<Rightarrow> string list \<Rightarrow> call" where
  "qemu_call audio monitor = (''qemu-system-x86_64'', qemu_args audio @ monitor, None)"

text \<open>The paths a directory may resolve to.\<close>

definition resolves :: "host \<Rightarrow> string \<Rightarrow> string set" where
  "resolves H dir = {path. \<exists>l. canonicalize H l dir = Some path}"

lemmas tool_defs = try_then_def match_res_def map_err_def ok_def throw_def log_line_def status_def
  open_read_def fs_write_def fs_copy_def exit_ok_def Let_def

lemma log_line_Done [simp]: "log_line s l = Done (r, l') \<longleftrightarrow> r = Inr () \<and> l' = Line s # l"
  by (auto simp: log_line_def)

lemma ok_Done [simp]: "ok a l = Done (r, l') \<longleftrightarrow> r = Inr a \<and> l' = l"
  by (auto simp: ok_def)

lemma throw_Done [simp]: "throw e l = Done (r, l') \<longleftrightarrow> r = Inl e \<and> l' = l"
  by (auto simp: throw_def)

lemma status_Done:
  "status H prog argv dir l = Done (r, l') \<longleftrightarrow> r = spawn H l prog argv dir \<and> l' = Ran prog argv dir r # l"
  by (auto simp: status_def Let_def)

lemma try_run_Done:
  assumes "try_run H (as_str cmd) dir m l = Done (r, l')"
  obtains path a where "started l' = started l @ [(cargo_call cmd m path, a)]" and "r = Inr () \<longleftrightarrow> good a"
    and "path \<in> resolves H dir"
proof (cases "canonicalize H l dir")
  case None
  then show ?thesis using assms by (simp add: try_run_def)
next
  case (Some path)
  let ?argv = "[as_str cmd, ''--manifest-path'', ''./Cargo.toml''] @ cargo_feats m"
  let ?a = "spawn H l ''cargo'' ?argv (Some path)"
  have "l' = Ran ''cargo'' ?argv (Some path) ?a # l \<and> (r = Inr () \<longleftrightarrow> good ?a)"
    using assms Some by (cases ?a) (auto simp: try_run_def tool_defs split: if_splits)
  then show ?thesis using that [of path ?a] Some by (auto simp: cargo_call_def resolves_def)
qed

lemma install_bootimage_Done:
  assumes "install_bootimage H (as_str cmd) dir m l = Done (r, l')"
  obtains e where "r = Inl 1" and "started l' = started l @ [(install_call, Inl e)]"
  | st path a where "r = Inl 2" and "\<not> good a"
      and "started l' = started l @ [(install_call, Inr st), (cargo_call cmd m path, a)]" and "path \<in> resolves H dir"
  | st path a where "r = Inr ()" and "good a"
      and "started l' = started l @ [(install_call, Inr st), (cargo_call cmd m path, a)]" and "path \<in> resolves H dir"
proof -
  let ?inst = "Ran ''cargo'' [''install'', ''bootimage@0.10.3''] None"
  consider (fail) e l1 s where "r = Inl 1" "l' = Line s # ?inst (Inl e) # l1" "started l1 = started l"
    | (inst) st l1 l2 r1 where "try_run H (as_str cmd) dir m (?inst (Inr st) # l1) = Done (r1, l2)"
        "started l1 = started l" "r = (case r1 of Inl _ \<Rightarrow> Inl 2 | Inr _ \<Rightarrow> Inr ())" "started l' = started l2"
    using assms
    by (auto simp: install_bootimage_def match_res_eq_Done try_then_eq_Done status_Done dest: sym)
  then show thesis
  proof cases
    case fail
    then show thesis using that(1) [of e] by (simp add: install_call_def)
  next
    case inst
    from inst(1) obtain path a where "started l2 = started (?inst (Inr st) # l1) @ [(cargo_call cmd m path, a)]"
      and a: "r1 = Inr () \<longleftrightarrow> good a" and path: "path \<in> resolves H dir"
      by (rule try_run_Done)
    then have "started l' = started l @ [(install_call, Inr st), (cargo_call cmd m path, a)]"
      using inst by (simp add: install_call_def)
    then show thesis using that(2,3) a path inst(3) by (cases r1) auto
  qed
qed

lemma create_floppy_Done:
  assumes "create_floppy H l = Done (r, l')"
  shows "started l' = started l"
    and "r = Inr () \<or> r = Inl 3 \<and> (\<exists>s e l1. l' = Line s # Wrote ''floppy.img'' FLOPPY_IMG (Some e) # l1)"
  using assms
  by (auto simp: create_floppy_def match_res_eq_Done try_then_eq_Done open_read_def fs_write_def Let_def
      split: if_splits option.splits)

lemma copy_image_Done:
  assumes "copy_image H m l = Done (r, l')"
  shows "r = Inr ()" and "started l' = started l"
  using assms by (auto simp: copy_image_def match_res_eq_Done try_then_eq_Done fs_copy_def Let_def split: if_splits)

section \<open>What a command does\<close>

text \<open>
  The programs one \<^verbatim>\<open>run_command\<close> starts, and the code it ends with: the command is run once, except
  that a failed build is retried once after installing bootimage.
\<close>

definition command_calls ::
  "host \<Rightarrow> run_command_kind \<Rightarrow> string \<Rightarrow> arg_matches \<Rightarrow> int + unit \<Rightarrow> (call \<times> (string + exit_status)) list \<Rightarrow> bool" where
  "command_calls H cmd dir m r calls \<longleftrightarrow>
     (\<exists>p\<in>resolves H dir. \<exists>a. calls = [(cargo_call cmd m p, a)]
        \<and> (if good a then r = Inr () \<or> r = Inl 3 else cmd \<noteq> Build \<and> r = Inl 6))
   \<or> cmd = Build \<and> (\<exists>p\<in>resolves H dir. \<exists>a e.
        calls = [(cargo_call Build m p, a), (install_call, Inl e)] \<and> \<not> good a \<and> r = Inl 1)
   \<or> cmd = Build \<and> (\<exists>p\<in>resolves H dir. \<exists>p'\<in>resolves H dir. \<exists>a st a'.
        calls = [(cargo_call Build m p, a), (install_call, Inr st), (cargo_call Build m p', a')] \<and> \<not> good a
        \<and> (if good a' then r = Inr () \<or> r = Inl 3 else r = Inl 2))"

definition floppy_write_failed :: "event list \<Rightarrow> bool" where
  "floppy_write_failed l \<longleftrightarrow> (\<exists>s e l1. l = Line s # Wrote ''floppy.img'' FLOPPY_IMG (Some e) # l1)"

lemma run_command_prepare:
  assumes "match_res (try_run H (as_str cmd) dir m)
      (\<lambda>e. if cmd \<noteq> Build then try_then (log_line (msg e)) (\<lambda>_. throw 6) else install_bootimage H (as_str cmd) dir m)
      ok l = Done (r, l')"
  shows "\<exists>calls. started l' = started l @ calls \<and> command_calls H cmd dir m r calls \<and> r \<noteq> Inl 3
    \<and> (r = Inr () \<longrightarrow> command_calls H cmd dir m (Inl 3) calls)"
proof -
  from assms obtain r1 l1 where attempt: "try_run H (as_str cmd) dir m l = Done (r1, l1)"
    by (auto simp: match_res_eq_Done)
  then obtain p a where calls: "started l1 = started l @ [(cargo_call cmd m p, a)]" and a: "r1 = Inr () \<longleftrightarrow> good a"
    and p: "p \<in> resolves H dir"
    by (rule try_run_Done)
  show ?thesis
  proof (cases "r1 = Inr ()")
    case True
    then have "r = Inr () \<and> l' = l1" using assms attempt by (auto simp: match_res_eq_Done)
    then show ?thesis using True calls a p by (intro exI [of _ "[(cargo_call cmd m p, a)]"]) (auto simp: command_calls_def)
  next
    case False
    then obtain e where e: "r1 = Inl e" by (cases r1) auto
    show ?thesis
    proof (cases "cmd = Build")
      case False
      then have "r = Inl 6 \<and> started l' = started l1"
        using assms attempt e by (auto simp: match_res_eq_Done try_then_eq_Done)
      then show ?thesis using e False calls a p
        by (intro exI [of _ "[(cargo_call cmd m p, a)]"]) (auto simp: command_calls_def)
    next
      case True
      then have "install_bootimage H (as_str cmd) dir m l1 = Done (r, l')"
        using assms attempt e by (auto simp: match_res_eq_Done)
      then show ?thesis
        by (cases rule: install_bootimage_Done) (use True calls a p e in \<open>auto simp: command_calls_def\<close>)
    qed
  qed
qed

lemma run_command_Done:
  assumes "run_command H cmd dir m l = Done (r, l')"
  shows "\<exists>calls. started l' = started l @ calls \<and> command_calls H cmd dir m r calls \<and> (r = Inl 3 \<longrightarrow> floppy_write_failed l')"
proof -
  let ?prep = "match_res (try_run H (as_str cmd) dir m)
      (\<lambda>e. if cmd \<noteq> Build
        then try_then (log_line (''error: failed running command '' @ as_str cmd @ '': '' @ run_cargo_error_display H e)) (\<lambda>_. throw 6)
        else install_bootimage H (as_str cmd) dir m) ok"
  from assms obtain r1 l1 where prep: "?prep l = Done (r1, l1)"
    and rest: "case r1 of Inl e \<Rightarrow> r = Inl e \<and> l' = l1
      | Inr _ \<Rightarrow> try_then (create_floppy H) (\<lambda>_. if cmd = Build then copy_image H m else ok ()) l1 = Done (r, l')"
    unfolding run_command_def Let_def try_then_eq_Done [of ?prep] by auto
  from run_command_prepare [OF prep] obtain calls where calls: "started l1 = started l @ calls"
    "command_calls H cmd dir m r1 calls" "r1 \<noteq> Inl 3" "r1 = Inr () \<Longrightarrow> command_calls H cmd dir m (Inl 3) calls"
    by blast
  show ?thesis
  proof (cases r1)
    case (Inl e)
    then show ?thesis using calls rest by auto
  next
    case (Inr u)
    then have rest: "try_then (create_floppy H) (\<lambda>_. if cmd = Build then copy_image H m else ok ()) l1 = Done (r, l')"
      using rest by simp
    then obtain r2 l2 where fl: "create_floppy H l1 = Done (r2, l2)"
      and cont: "case r2 of Inl e \<Rightarrow> r = Inl e \<and> l' = l2 | Inr _ \<Rightarrow> (if cmd = Build then copy_image H m else ok ()) l2 = Done (r, l')"
      unfolding try_then_eq_Done by (cases "create_floppy H l1") auto
    note floppy = create_floppy_Done [OF fl]
    show ?thesis
    proof (cases r2)
      case (Inl e)
      then have "r = Inl 3 \<and> l' = l2 \<and> floppy_write_failed l2"
        using floppy(2) cont by (auto simp: floppy_write_failed_def)
      then show ?thesis using calls Inr floppy(1) by auto
    next
      case (Inr u2)
      then have "r = Inr () \<and> started l' = started l2"
        using cont by (auto dest: copy_image_Done split: if_splits)
      then show ?thesis using calls \<open>r1 = Inr u\<close> floppy(1) by auto
    qed
  qed
qed

section \<open>Returning, and keeping a property of the log\<close>

text \<open>A tool returns, or exits, from every log with the property, and the log has it again.\<close>

definition keeps :: "(event list \<Rightarrow> bool) \<Rightarrow> ('e, 'a) process \<Rightarrow> bool" where
  "keeps P t \<longleftrightarrow> (\<forall>l. P l \<longrightarrow> (\<exists>r l'. t l = Done (r, l') \<and> P l'))"

named_theorems keeps_rules \<open>a tool returns and keeps a property of the log\<close>

lemma keepsE:
  assumes "keeps P t" and "P l"
  obtains r l' where "t l = Done (r, l')" and "P l'"
  using assms by (auto simp: keeps_def)

lemma keeps_ok [keeps_rules]: "keeps P (ok a)"
  by (simp add: keeps_def)

lemma keeps_throw [keeps_rules]: "keeps P (throw e)"
  by (simp add: keeps_def)

lemma keeps_try_then [keeps_rules]:
  assumes "keeps P t" and "\<And>a. keeps P (f a)"
  shows "keeps P (try_then t f)"
  unfolding keeps_def
proof (intro allI impI)
  fix l assume "P l"
  with assms(1) obtain r l' where t: "t l = Done (r, l')" and "P l'" by (rule keepsE)
  then show "\<exists>r l'. try_then t f l = Done (r, l') \<and> P l'"
    using assms(2) by (cases r) (auto simp: try_then_def keeps_def)
qed

lemma keeps_match_res [keeps_rules]:
  assumes "keeps P t" and "\<And>e. keeps P (g e)" and "\<And>a. keeps P (f a)"
  shows "keeps P (match_res t g f)"
  unfolding keeps_def
proof (intro allI impI)
  fix l assume "P l"
  with assms(1) obtain r l' where t: "t l = Done (r, l')" and "P l'" by (rule keepsE)
  then show "\<exists>r l'. match_res t g f l = Done (r, l') \<and> P l'"
    using assms(2,3) by (cases r) (auto simp: match_res_def keeps_def)
qed

lemma keeps_if [keeps_rules]:
  "(b \<Longrightarrow> keeps P t) \<Longrightarrow> (\<not> b \<Longrightarrow> keeps P u) \<Longrightarrow> keeps P (if b then t else u)"
  by simp

lemma keeps_in_order [keeps_rules]: "(\<And>t. t \<in> set ts \<Longrightarrow> keeps P t) \<Longrightarrow> keeps P (in_order ts)"
  by (induction ts) (auto intro: keeps_rules)

text \<open>
  What a log may show of files written, \<open>targets\<close> being the paths the kernel image may be copied to: the floppy image,
  blank, and that only right after opening it had failed, and copies of the built kernel image to these paths.
\<close>

primrec careful :: "string set \<Rightarrow> event list \<Rightarrow> bool" where
  "careful targets [] = True"
| "careful targets (ev # l) =
     ((case ev of
         Wrote f buf e \<Rightarrow> f = ''floppy.img'' \<and> buf = FLOPPY_IMG
           \<and> (case l of Line s # Opened g b # _ \<Rightarrow> g = ''floppy.img'' \<and> \<not> b | _ \<Rightarrow> False)
       | Copied from to b \<Rightarrow> from = BUILT_KERNEL_IMG \<and> to \<in> targets
       | _ \<Rightarrow> True) \<and> careful targets l)"

text \<open>The path the kernel image is copied to, and the options a command line is run with.\<close>

definition image_path :: "arg_matches \<Rightarrow> string" where
  "image_path m = (case get_one m ''path'' of Some path \<Rightarrow> path | None \<Rightarrow> ''sunflower.bin'')"

definition effective_matches :: "(arg_spec list \<Rightarrow> string list \<Rightarrow> arg_matches) \<Rightarrow> string \<times> arg_matches \<Rightarrow> arg_matches" where
  "effective_matches parse sub = (if fst sub = ''dbg, d'' then parse sdr_args ['''', ''-d'', ''-n''] else snd sub)"

text \<open>The directories the tool works in exist.\<close>

definition dirs_exist :: "host \<Rightarrow> bool" where
  "dirs_exist H \<longleftrightarrow> (\<forall>l. \<forall>dir \<in> {''./kernel'', ''seeder'', ''libutil'', ''libfs'', ''kernel''}. canonicalize H l dir \<noteq> None)"

text \<open>
  Two properties are kept by every tool: the trivial one, for which \<open>keeps\<close> says that the tool
  returns, and carefulness about the files written. What the composed tools need of them is that the primitive operations
  keep them.
\<close>

locale log_property =
  fixes P :: "event list \<Rightarrow> bool" and targets :: "string set"
  assumes P_Line: "P l \<Longrightarrow> P (Line s # l)"
    and P_Ran: "P l \<Longrightarrow> P (Ran prog argv d r # l)"
    and P_Opened: "P l \<Longrightarrow> P (Opened f b # l)"
    and P_Copied: "P l \<Longrightarrow> to \<in> targets \<Longrightarrow> P (Copied BUILT_KERNEL_IMG to b # l)"
    and P_Help: "P l \<Longrightarrow> P (Help # l)"
    and P_blank: "P (Line s # Opened ''floppy.img'' False # l) \<Longrightarrow>
      P (Wrote ''floppy.img'' FLOPPY_IMG e # Line s # Opened ''floppy.img'' False # l)"
begin

lemma keeps_log_line [keeps_rules]: "keeps P (log_line s)"
  by (simp add: keeps_def log_line_def P_Line)

lemma keeps_status [keeps_rules]: "keeps P (status H prog argv dir)"
  by (simp add: keeps_def status_def P_Ran Let_def)

lemma keeps_fs_copy [keeps_rules]: "to \<in> targets \<Longrightarrow> keeps P (fs_copy H BUILT_KERNEL_IMG to)"
  by (simp add: keeps_def fs_copy_def P_Copied Let_def)

lemma keeps_print_help [keeps_rules]: "keeps P command_help"
  by (simp add: keeps_def command_help_def P_Help)

lemma keeps_try_run [keeps_rules]:
  assumes "\<And>l. canonicalize H l dir \<noteq> None"
  shows "keeps P (try_run H cmd dir m)"
  unfolding keeps_def
proof (intro allI impI)
  fix l assume "P l"
  from assms obtain path where path: "canonicalize H l dir = Some path" by blast
  have "keeps P (map_err BadExitStatus (exit_ok st))" for st
    by (simp add: keeps_def map_err_def exit_ok_def)
  moreover have "keeps P (map_err CouldntRun (status H prog argv d))" for prog argv d
    by (simp add: keeps_def map_err_def status_def P_Ran Let_def)
  ultimately have "keeps P (try_then (map_err CouldntRun (status H prog argv d)) (\<lambda>st. map_err BadExitStatus (exit_ok st)))"
    for prog argv d by (intro keeps_try_then)
  then show "\<exists>r l'. try_run H cmd dir m l = Done (r, l') \<and> P l'"
    using path \<open>P l\<close> by (simp add: try_run_def keeps_def)
qed

lemma keeps_create_floppy [keeps_rules]: "keeps P (create_floppy H)"
  by (auto simp: keeps_def create_floppy_def tool_defs P_Line P_Opened P_blank split: option.splits)

lemma keeps_copy_image [keeps_rules]:
  assumes "image_path m \<in> targets" shows "keeps P (copy_image H m)"
proof -
  have "(case get_one m ''path'' of Some path \<Rightarrow> path | None \<Rightarrow> COPIED_KERNEL_IMG) = image_path m"
    by (cases "get_one m ''path''") (simp_all add: image_path_def COPIED_KERNEL_IMG_def)
  then show ?thesis using assms unfolding copy_image_def Let_def by (simp only:) (intro keeps_rules)
qed

lemma keeps_run_command [keeps_rules]:
  assumes "\<And>l. canonicalize H l dir \<noteq> None" and "image_path m \<in> targets"
  shows "keeps P (run_command H cmd dir m)"
  unfolding run_command_def install_bootimage_def Let_def
  by (intro keeps_rules assms)

lemma keeps_warn [keeps_rules]: "keeps P (warn_unneeded_arg cmd arg m)"
  unfolding warn_unneeded_arg_def by (intro keeps_rules)

lemma keeps_build: "dirs_exist H \<Longrightarrow> image_path m \<in> targets \<Longrightarrow> keeps P (build H m)"
  unfolding build_def
  by (rule keeps_in_order) (auto simp: dirs_exist_def intro: keeps_rules)

lemma keeps_sdr_run: "dirs_exist H \<Longrightarrow> image_path m \<in> targets \<Longrightarrow> keeps P (sdr_run H m)"
  unfolding sdr_run_def Let_def start_qemu_def
  by (intro keeps_rules) (auto simp: dirs_exist_def intro!: keeps_rules)

lemma keeps_run_alldirs: "dirs_exist H \<Longrightarrow> image_path m \<in> targets \<Longrightarrow> keeps P (run_alldirs H cmd m)"
  unfolding run_alldirs_def Let_def DIRS_def
  by (rule keeps_in_order) (auto simp: dirs_exist_def intro!: keeps_rules)

lemma keeps_sdr_main:
  assumes "dirs_exist H" and "\<forall>name m. sub = Some (name, m) \<longrightarrow> name \<in> sub_name ` set subcommands"
    and "\<forall>s. sub = Some s \<longrightarrow> image_path (effective_matches get_matches_from s) \<in> targets"
  shows "keeps P (sdr_main H get_matches_from sub)"
proof (cases sub)
  case None
  then show ?thesis by (simp add: sdr_main_def keeps_print_help)
next
  case (Some s)
  obtain name m where s: "s = (name, m)" by (cases s)
  have "name \<in> sub_name ` set subcommands" using assms(2) Some s by blast
  note declared = this [unfolded sub_names insert_iff empty_iff]
  have "image_path (effective_matches get_matches_from (name, m)) \<in> targets" using assms(3) Some s by blast
  then have t: "image_path (if name = ''dbg, d'' then get_matches_from sdr_args ['''', ''-d'', ''-n''] else m) \<in> targets"
    by (simp only: effective_matches_def fst_conv snd_conv)
  have "image_path m \<in> targets" if "name \<noteq> ''dbg, d''" using t that by (simp only: if_False)
  moreover have "image_path (get_matches_from sdr_args ['''', ''-d'', ''-n'']) \<in> targets" if "name = ''dbg, d''"
    using t that by (simp only: if_True simp_thms)
  ultimately show ?thesis
    using declared unfolding Some s sdr_main_def option.case prod.case
    by (elim disjE) (auto intro!: keeps_build keeps_sdr_run keeps_run_alldirs assms(1))
qed

end

interpretation total: log_property "\<lambda>_. True" UNIV
  by unfold_locales simp_all

interpretation careful: log_property "careful targets" targets for targets
  by unfold_locales simp_all

section \<open>The commands\<close>

lemma run_command_calls:
  assumes "\<And>l. canonicalize H l dir \<noteq> None"
  obtains r l' calls where "run_command H cmd dir m l = Done (r, l')" and "started l' = started l @ calls"
    and "command_calls H cmd dir m r calls" and "r = Inl 3 \<longrightarrow> floppy_write_failed l'"
proof -
  from total.keeps_run_command [OF assms UNIV_I] obtain r l' where "run_command H cmd dir m l = Done (r, l')"
    by (rule keepsE) simp_all
  with run_command_Done [OF this] that show thesis by blast
qed

lemma log_line_then: "try_then (log_line s) f l = f () (Line s # l)"
  by (simp add: try_then_def log_line_def)

lemma warn_then:
  obtains l1 where "try_then (warn_unneeded_arg cmd arg m) f l = f () l1" and "started l1 = started l"
  by (cases "get_flag m arg") (auto simp: warn_unneeded_arg_def log_line_then run_simps)

lemma warnings_then:
  "\<exists>l1. in_order (map (\<lambda>arg. warn_unneeded_arg cmd arg m) args @ ts) l = in_order ts l1 \<and> started l1 = started l"
proof (induction args arbitrary: l)
  case Nil
  then show ?case by auto
next
  case (Cons arg args)
  obtain l1 where "in_order (map (\<lambda>arg. warn_unneeded_arg cmd arg m) (arg # args) @ ts) l
      = in_order (map (\<lambda>arg. warn_unneeded_arg cmd arg m) args @ ts) l1" and "started l1 = started l"
    by (rule warn_then [of cmd arg m "\<lambda>_. in_order (map (\<lambda>arg. warn_unneeded_arg cmd arg m) args @ ts)" l]) simp
  then show ?case using Cons.IH [of l1] by auto
qed

text \<open>The audio driver and the monitor QEMU is started with.\<close>

definition audio_driver :: "arg_matches \<Rightarrow> string" where
  "audio_driver m =
     (if get_flag m ''pipewire'' then ''pipewire'' else if get_flag m ''pulseaudio'' then ''pa'' else ''none'')"

definition monitor_args :: "arg_matches \<Rightarrow> string list" where
  "monitor_args m = (if get_flag m ''debug'' then [''-monitor'', ''stdio''] else [])"

lemma start_qemu_calls:
  "\<exists>a l'. start_qemu H audio monitor l = Done (case a of Inl _ \<Rightarrow> Inl 5 | Inr _ \<Rightarrow> Inr (), l')
     \<and> started l' = started l @ [(qemu_call audio monitor, a)]"
  by (rule exI [of _ "spawn H l ''qemu-system-x86_64'' (qemu_args audio @ monitor) None"],
      cases "spawn H l ''qemu-system-x86_64'' (qemu_args audio @ monitor) None")
    (auto simp: start_qemu_def match_res_def status_def log_line_then throw_def ok_def qemu_call_def Let_def)

lemma in_order_ok: "t l = Done (Inr u, l') \<Longrightarrow> in_order (t # ts) l = in_order ts l'"
  by (simp add: try_then_def)

lemma in_order_exit: "t l = Done (Inl c, l') \<Longrightarrow> in_order (t # ts) l = Done (Inl c, l')"
  by (simp add: try_then_def)

lemma in_order_line: "in_order (log_line s # ts) l = in_order ts (Line s # l)"
  by (simp add: log_line_then)

lemma sdr_run_single_audio:
  assumes "\<not> (get_flag m ''pipewire'' \<and> get_flag m ''pulseaudio'')" and "\<not> (get_flag m ''pipewire'' \<and> get_flag m ''nosound'')"
    and "\<not> (get_flag m ''pulseaudio'' \<and> get_flag m ''nosound'')"
  obtains l1 where "started l1 = started l"
    and "sdr_run H m l = in_order [run_command H Build ''./kernel'' m,
      log_line (''Running QEMU with audio driver `'' @ audio_driver m @ ''`...''),
      start_qemu H (audio_driver m) (monitor_args m)] l1"
proof -
  let ?w = "if \<not> get_flag m ''pipewire'' \<and> \<not> get_flag m ''pulseaudio'' \<and> \<not> get_flag m ''nosound''
    then log_line ''warning: no audio flag specified, assuming --nosound'' else ok ()"
  have "sdr_run H m l = in_order [?w, run_command H Build ''./kernel'' m,
      log_line (''Running QEMU with audio driver `'' @ audio_driver m @ ''`...''),
      start_qemu H (audio_driver m) (monitor_args m)] l"
    using assms unfolding sdr_run_def Let_def audio_driver_def monitor_args_def by (simp only: if_False simp_thms)
  moreover have "\<exists>l1. try_then ?w f l = f () l1 \<and> started l1 = started l" for f :: "unit \<Rightarrow> unit tool"
    by (auto simp: log_line_then run_simps)
  ultimately show thesis using that by (metis in_order.simps(2))
qed

text \<open>How a run of the tool for QEMU ends, given how its build ended.\<close>

definition run_outcome :: "host \<Rightarrow> arg_matches \<Rightarrow> int + unit \<Rightarrow> (call \<times> (string + exit_status)) list \<Rightarrow> bool" where
  "run_outcome H m r calls \<longleftrightarrow>
     (if 1 < length (filter (get_flag m) [''pipewire'', ''pulseaudio'', ''nosound'']) then r = Inl 4 \<and> calls = []
      else \<exists>b. command_calls H Build ''./kernel'' m (Inr ()) b
           \<and> (\<exists>a. calls = b @ [(qemu_call (audio_driver m) (monitor_args m), a)]
                \<and> r = (case a of Inl _ \<Rightarrow> Inl 5 | Inr _ \<Rightarrow> Inr ()))
        \<or> (\<exists>c \<in> {1, 2, 3}. r = Inl c) \<and> command_calls H Build ''./kernel'' m r calls)"

lemma sdr_run_outcome:
  assumes "\<forall>l. canonicalize H l ''./kernel'' \<noteq> None"
  shows "\<exists>r l'. sdr_run H m [] = Done (r, l') \<and> run_outcome H m r (started l')"
proof (cases "1 < length (filter (get_flag m) [''pipewire'', ''pulseaudio'', ''nosound''])")
  case True
  then show ?thesis
    by (auto simp: run_outcome_def sdr_run_def log_line_then throw_def Let_def split: if_splits)
next
  case False
  then have "\<not> (get_flag m ''pipewire'' \<and> get_flag m ''pulseaudio'')" "\<not> (get_flag m ''pipewire'' \<and> get_flag m ''nosound'')"
    "\<not> (get_flag m ''pulseaudio'' \<and> get_flag m ''nosound'')"
    by (auto split: if_splits)
  then obtain l1 where l1: "started l1 = started []"
    "sdr_run H m [] = in_order [run_command H Build ''./kernel'' m,
       log_line (''Running QEMU with audio driver `'' @ audio_driver m @ ''`...''),
       start_qemu H (audio_driver m) (monitor_args m)] l1"
    by (rule sdr_run_single_audio)
  obtain r2 l2 b where rc: "run_command H Build ''./kernel'' m l1 = Done (r2, l2)" and b: "started l2 = started l1 @ b"
    and calls: "command_calls H Build ''./kernel'' m r2 b"
    using run_command_calls [of H "''./kernel''" Build m l1] assms by metis
  show ?thesis
  proof (cases r2)
    case (Inl c)
    then have "sdr_run H m [] = Done (Inl c, l2)" using l1(2) in_order_exit rc by metis
    moreover have "c \<in> {1, 2, 3}" using calls Inl by (auto simp: command_calls_def split: if_splits)
    ultimately show ?thesis using False calls b l1(1) Inl by (auto simp: run_outcome_def)
  next
    case (Inr u)
    let ?s = "''Running QEMU with audio driver `'' @ audio_driver m @ ''`...''"
    have "sdr_run H m [] = start_qemu H (audio_driver m) (monitor_args m) (Line ?s # l2)"
      unfolding l1(2) in_order_ok [of "run_command H Build ''./kernel'' m", OF rc [unfolded Inr]] in_order_line
      by (simp add: try_then_ok_right)
    then show ?thesis using False calls b l1(1) Inr start_qemu_calls [of H "audio_driver m" "monitor_args m" "Line ?s # l2"]
      by (auto simp: run_outcome_def)
  qed
qed

text \<open>
  C22: \<^verbatim>\<open>seeder run\<close>, given an audio flag as it requires: with more than one it exits with code 4 and starts nothing. With exactly one it
  builds first; QEMU is the last program started, once, only when the build ended well, on the
  built kernel image and the floppy image, with the audio driver of the flag and its monitor on the terminal exactly if
  \<^verbatim>\<open>--debug\<close> is given. The exit code tells the failing step: 1, 2 or 3 for the
  build, 5 if QEMU could not be started.
\<close>

theorem run_starts_qemu_after_build:
  assumes "\<forall>l. canonicalize H l ''./kernel'' \<noteq> None"
  shows "\<exists>r l'. sdr_run H m [] = Done (r, l') \<and>
    (let flags = filter (get_flag m) [''pipewire'', ''pulseaudio'', ''nosound'']
     in (1 < length flags \<longrightarrow> r = Inl 4 \<and> started l' = [])
      \<and> (\<forall>(flag, audio) \<in> {(''pipewire'', ''pipewire''), (''pulseaudio'', ''pa''), (''nosound'', ''none'')}. flags = [flag] \<longrightarrow>
           (\<exists>b a. command_calls H Build ''./kernel'' m (Inr ()) b
              \<and> started l' = b @ [((''qemu-system-x86_64'',
                    [''-drive'', ''format=raw,file=kernel/target/x86_64-sunflower/release/bootimage-sunflower.bin'',
                     ''-drive'', ''format=raw,file=./floppy.img,if=floppy'',
                     ''-audio'', ''driver='' @ audio @ '',model=virtio,id=speaker'',
                     ''--machine'', ''pcspk-audiodev=speaker'']
                    @ (if get_flag m ''debug'' then [''-monitor'', ''stdio''] else []), None), a)]
              \<and> r = (case a of Inl _ \<Rightarrow> Inl 5 | Inr _ \<Rightarrow> Inr ()))
         \<or> (\<exists>c \<in> {1, 2, 3}. r = Inl c \<and> command_calls H Build ''./kernel'' m (Inl c) (started l'))))"
proof -
  obtain r l' where run: "sdr_run H m [] = Done (r, l')" "run_outcome H m r (started l')" using sdr_run_outcome [OF assms] by blast
  have call: "qemu_call audio (monitor_args m) = (''qemu-system-x86_64'',
      [''-drive'', ''format=raw,file=kernel/target/x86_64-sunflower/release/bootimage-sunflower.bin'',
       ''-drive'', ''format=raw,file=./floppy.img,if=floppy'',
       ''-audio'', ''driver='' @ audio @ '',model=virtio,id=speaker'',
       ''--machine'', ''pcspk-audiodev=speaker'']
      @ (if get_flag m ''debug'' then [''-monitor'', ''stdio''] else []), None)" for audio
    by (simp add: qemu_call_def qemu_args_def BUILT_KERNEL_IMG_def monitor_args_def)
  have driver: "audio_driver m = audio" and few: "\<not> 1 < length (filter (get_flag m) [''pipewire'', ''pulseaudio'', ''nosound''])"
    if "filter (get_flag m) [''pipewire'', ''pulseaudio'', ''nosound''] = [flag]"
      "(flag, audio) \<in> {(''pipewire'', ''pipewire''), (''pulseaudio'', ''pa''), (''nosound'', ''none'')}" for flag audio
    using that by (auto simp: audio_driver_def split: if_splits)
  show ?thesis
  proof (intro exI [of _ r] exI [of _ l'] conjI run(1), unfold Let_def, intro conjI impI ballI, goal_cases)
    case 1
    then show ?case using run(2) by (simp only: run_outcome_def if_True)
  next
    case 2
    then show ?case using run(2) by (simp only: run_outcome_def if_True)
  next
    case (3 x)
    then obtain flag audio where x: "x = (flag, audio)" by (cases x)
    show ?case unfolding x prod.case
    proof
      assume f: "filter (get_flag m) [''pipewire'', ''pulseaudio'', ''nosound''] = [flag]"
      note d = driver [OF f] few [OF f]
      show "(\<exists>b a. command_calls H Build ''./kernel'' m (Inr ()) b
              \<and> started l' = b @ [((''qemu-system-x86_64'',
                    [''-drive'', ''format=raw,file=kernel/target/x86_64-sunflower/release/bootimage-sunflower.bin'',
                     ''-drive'', ''format=raw,file=./floppy.img,if=floppy'',
                     ''-audio'', ''driver='' @ audio @ '',model=virtio,id=speaker'',
                     ''--machine'', ''pcspk-audiodev=speaker'']
                    @ (if get_flag m ''debug'' then [''-monitor'', ''stdio''] else []), None), a)]
              \<and> r = (case a of Inl _ \<Rightarrow> Inl 5 | Inr _ \<Rightarrow> Inr ()))
         \<or> (\<exists>c \<in> {1, 2, 3}. r = Inl c \<and> command_calls H Build ''./kernel'' m (Inl c) (started l'))"
        using run(2) d 3 unfolding x run_outcome_def call [symmetric] by auto
    qed
  qed
qed

text \<open>The part of \<^verbatim>\<open>run_alldirs\<close> after the warnings and the build, for any list of directories.\<close>

definition dir_tasks :: "host \<Rightarrow> run_command_kind \<Rightarrow> arg_matches \<Rightarrow> string list \<Rightarrow> unit tool list" where
  "dir_tasks H cmd m dirs =
     concat (map (\<lambda>dir. [log_line (''Running '' @ as_str cmd @ '' in '' @ dir @ ''...''), run_command H cmd dir m]) dirs)"

text \<open>
  The calls made in a list of directories: the command once in each, in order, up to the first failure;
  the code is 0 when all succeeded, 6 when the last failed, 3 when the floppy image could not be created.
\<close>

fun dir_calls :: "host \<Rightarrow> run_command_kind \<Rightarrow> arg_matches \<Rightarrow> string list \<Rightarrow> int + unit \<Rightarrow> (call \<times> (string + exit_status)) list \<Rightarrow> bool"
  where
  "dir_calls H cmd m [] r calls \<longleftrightarrow> r = Inr () \<and> calls = []"
| "dir_calls H cmd m (dir # dirs) r calls \<longleftrightarrow>
     (\<exists>p\<in>resolves H dir. \<exists>a rest. calls = (cargo_call cmd m p, a) # rest \<and>
        (if good a then dir_calls H cmd m dirs r rest \<or> r = Inl 3 \<and> rest = [] else r = Inl 6 \<and> rest = []))"

lemma dir_tasks_calls:
  assumes "\<And>l dir. dir \<in> set dirs \<Longrightarrow> canonicalize H l dir \<noteq> None" and "cmd \<noteq> Build"
  shows "\<exists>r l' calls. in_order (dir_tasks H cmd m dirs) l = Done (r, l') \<and> started l' = started l @ calls
    \<and> dir_calls H cmd m dirs r calls"
  using assms(1)
proof (induction dirs arbitrary: l)
  case Nil
  then show ?case by (simp add: dir_tasks_def)
next
  case (Cons dir dirs)
  let ?s = "''Running '' @ as_str cmd @ '' in '' @ dir @ ''...''"
  have "canonicalize H l0 dir \<noteq> None" for l0 using Cons.prems by simp
  then obtain r2 l2 b where rc: "run_command H cmd dir m (Line ?s # l) = Done (r2, l2)"
    and b: "started l2 = started (Line ?s # l) @ b" and calls: "command_calls H cmd dir m r2 b"
    by (rule run_command_calls)
  have step: "in_order (dir_tasks H cmd m (dir # dirs)) l
      = in_order (run_command H cmd dir m # dir_tasks H cmd m dirs) (Line ?s # l)"
    unfolding dir_tasks_def by (simp only: list.map concat.simps append.simps in_order_line)
  from calls assms(2) obtain p a where p: "p \<in> resolves H dir" "b = [(cargo_call cmd m p, a)]"
    and r2: "if good a then r2 = Inr () \<or> r2 = Inl 3 else r2 = Inl 6"
    by (auto simp: command_calls_def split: if_splits)
  show ?case
  proof (cases r2)
    case (Inl c)
    then have "in_order (dir_tasks H cmd m (dir # dirs)) l = Done (Inl c, l2)"
      using step in_order_exit rc by metis
    then show ?thesis using b p r2 Inl by (intro exI conjI) (auto split: if_splits)
  next
    case (Inr u)
    then have "in_order (dir_tasks H cmd m (dir # dirs)) l = in_order (dir_tasks H cmd m dirs) l2"
      using step in_order_ok rc by metis
    moreover obtain r l' calls where "in_order (dir_tasks H cmd m dirs) l2 = Done (r, l')" "started l' = started l2 @ calls"
      "dir_calls H cmd m dirs r calls"
      using Cons.IH [of l2] Cons.prems by auto
    ultimately show ?thesis using b p r2 Inr
      by (intro exI [of _ r] exI [of _ l'] exI [of _ "(cargo_call cmd m p, a) # calls"]) (auto split: if_splits)
  qed
qed

text \<open>
  \<^verbatim>\<open>seeder clippy\<close> and \<^verbatim>\<open>seeder did-i-break-anything\<close>: the kernel is built first, then the command
  runs once in seeder, libutil, libfs and kernel, in this order, stopping at the first failure with code 6;
  the tool ends well exactly when the build and all four succeeded (and the floppy image exists).
\<close>

theorem run_alldirs_in_order:
  assumes "dirs_exist H" and "cmd \<noteq> Build"
  shows "\<exists>r l' b calls. run_alldirs H cmd m [] = Done (r, l') \<and> started l' = b @ calls \<and>
    (command_calls H Build ''./kernel'' m (Inr ()) b \<and> dir_calls H cmd m [''seeder'', ''libutil'', ''libfs'', ''kernel''] r calls
     \<or> command_calls H Build ''./kernel'' m r b \<and> r \<noteq> Inr () \<and> calls = [])"
proof -
  let ?args = "[''debug'', ''noenter'', ''pipewire'', ''pulseaudio'', ''nosound'']"
  have "run_alldirs H cmd m [] = in_order (map (\<lambda>arg. warn_unneeded_arg (as_str cmd) arg m) ?args
      @ run_command H Build ''./kernel'' m # dir_tasks H cmd m DIRS) []"
    unfolding run_alldirs_def Let_def dir_tasks_def by (simp only: list.map append.simps)
  with warnings_then [of "as_str cmd" m ?args] obtain l1
    where run: "run_alldirs H cmd m [] = in_order (run_command H Build ''./kernel'' m # dir_tasks H cmd m DIRS) l1"
      and l1: "started l1 = []"
    by (metis started.simps(1))
  have ex: "canonicalize H l ''./kernel'' \<noteq> None" for l using assms(1) by (simp add: dirs_exist_def)
  obtain r2 l2 b where rc: "run_command H Build ''./kernel'' m l1 = Done (r2, l2)" and b: "started l2 = started l1 @ b"
    and calls: "command_calls H Build ''./kernel'' m r2 b"
    using ex by (rule run_command_calls)
  show ?thesis
  proof (cases r2)
    case (Inl c)
    then have "run_alldirs H cmd m [] = Done (Inl c, l2)" using run in_order_exit rc by metis
    then show ?thesis using calls b l1 Inl by auto
  next
    case (Inr u)
    then have "run_alldirs H cmd m [] = in_order (dir_tasks H cmd m DIRS) l2" using run in_order_ok rc by metis
    moreover have "\<exists>r l' calls. in_order (dir_tasks H cmd m DIRS) l2 = Done (r, l') \<and> started l' = started l2 @ calls
        \<and> dir_calls H cmd m DIRS r calls"
      by (rule dir_tasks_calls [OF _ assms(2)]) (use assms(1) in \<open>auto simp: dirs_exist_def DIRS_def\<close>)
    ultimately obtain r l' cs where "run_alldirs H cmd m [] = Done (r, l')" "started l' = b @ cs" "dir_calls H cmd m DIRS r cs"
      using b l1 by auto
    moreover have "command_calls H Build ''./kernel'' m (Inr ()) b" using calls Inr by simp
    ultimately show ?thesis unfolding DIRS_def by blast
  qed
qed

text \<open>
  C36: Whatever the user asks for and however the host answers, the tool returns or exits (it never panics)
  as long as its directories exist, and the only files it writes itself are these: a blank \<^verbatim>\<open>floppy.img\<close>, only when opening that file
  had just failed, and a copy of the built kernel image, at the path the user gave or else at \<^verbatim>\<open>sunflower.bin\<close>. So a floppy image that can
  be opened is not overwritten unless the user gives its path for the kernel image.
\<close>

theorem seeder_writes_only_its_files:
  assumes "dirs_exist H" and "\<forall>name m. sub = Some (name, m) \<longrightarrow> name \<in> sub_name ` set subcommands"
  shows "\<exists>r l. sdr_main H get_matches_from sub [] = Done (r, l)
    \<and> careful (case sub of None \<Rightarrow> {} | Some s \<Rightarrow> {image_path (effective_matches get_matches_from s)}) l"
  by (rule keepsE [OF careful.keeps_sdr_main [OF assms, where targets = "case sub of None \<Rightarrow> {} | Some s \<Rightarrow> {image_path (effective_matches get_matches_from s)}"]]) auto

text \<open>
  clap, on a list of short flags all declared and each given once: exactly the flags given are set, and no option has a value.
\<close>

definition parses_short_flags :: "(arg_spec list \<Rightarrow> string list \<Rightarrow> arg_matches) \<Rightarrow> bool" where
  "parses_short_flags parse \<longleftrightarrow> (\<forall>specs prog argv.
     distinct argv \<and> distinct (map arg_short specs) \<and> set argv \<subseteq> arg_short ` {s \<in> set specs. \<not> arg_takes_value s} \<longrightarrow>
       (\<forall>id. (get_flag (parse specs (prog # argv)) id \<longleftrightarrow> (\<exists>s \<in> set specs. arg_id s = id \<and> arg_short s \<in> set argv))
          \<and> get_one (parse specs (prog # argv)) id = None))"

text \<open>\<^verbatim>\<open>dbg\<close> is \<^verbatim>\<open>run -d -n\<close> on the declared options: a build with the debug feature, no sound, QEMU's monitor on the terminal.\<close>

lemma dbg_is_run_dn:
  assumes "parses_short_flags parse" and "\<forall>l. canonicalize H l ''./kernel'' \<noteq> None"
  obtains r l' m' where "sdr_main H parse (Some (''dbg, d'', m)) [] = Done (r, l')" and "run_outcome H m' r (started l')"
    and "r \<noteq> Inl 4" and "cargo_feats m' = [''-F'', ''debug_info'']" and "audio_driver m' = ''none''"
    and "monitor_args m' = [''-monitor'', ''stdio'']"
proof -
  let ?argv = "[''-d'', ''-n'']"
  let ?m = "parse sdr_args ('''' # ?argv)"
  have "distinct ?argv \<and> distinct (map arg_short sdr_args)
      \<and> set ?argv \<subseteq> arg_short ` {s \<in> set sdr_args. \<not> arg_takes_value s}"
    by (simp add: sdr_args_def conj_disj_distribR Collect_disj_eq Collect_conv_if)
  then have "get_flag ?m id \<longleftrightarrow> (\<exists>s \<in> set sdr_args. arg_id s = id \<and> arg_short s \<in> set ?argv)" for id
    using assms(1) unfolding parses_short_flags_def by blast
  then have flag: "get_flag ?m id \<longleftrightarrow> id = ''debug'' \<or> id = ''nosound''" for id
    by (auto simp: sdr_args_def)
  have main: "sdr_main H parse (Some (''dbg, d'', m)) = sdr_run H ?m"
    by (simp add: sdr_main_def)
  from sdr_run_outcome [OF assms(2), of ?m] obtain r l' where r: "sdr_run H ?m [] = Done (r, l')" "run_outcome H ?m r (started l')"
    by blast
  moreover have "(Inl 4 :: int + unit) \<noteq> (case a of Inl _ \<Rightarrow> Inl 5 | Inr _ \<Rightarrow> Inr ())" for a :: "string + exit_status"
    by (cases a) simp_all
  ultimately have "r \<noteq> Inl 4" unfolding run_outcome_def by (force simp: flag)
  then show thesis
    using that [of r l' ?m] main r by (simp add: flag cargo_feats_def audio_driver_def monitor_args_def)
qed

section \<open>Where the messages do not tell the truth\<close>

text \<open>
  The warning that \<^verbatim>\<open>--debug\<close> and \<^verbatim>\<open>--noenter\<close> are ignored: cargo is given the features all the same,
  and with both the second one is passed as a positional argument of its own.
\<close>

lemma ignored_flags_reach_cargo:
  "get_flag m ''debug'' \<Longrightarrow> [''-F'', ''debug_info''] = take 2 (drop 3 (fst (snd (cargo_call cmd m path))))"
  "get_flag m ''debug'' \<Longrightarrow> get_flag m ''noenter'' \<Longrightarrow>
     fst (snd (cargo_call cmd m path)) = [as_str cmd, ''--manifest-path'', ''./Cargo.toml'', ''-F'', ''debug_info'', ''disable_enter'']"
  by (simp_all add: cargo_call_def cargo_feats_def Let_def)

text \<open>A failed copy is reported with the path the image was not copied to.\<close>

lemma failed_copy_names_the_target:
  assumes "\<And>l from to. \<not> can_copy H l from to" and "get_one m ''path'' = Some path"
  obtains l' where "copy_image H m l
    = Done (Inr (), Line (''warn: failed copying kernel image, yet a built image of sunflower still exists at `'' @ path @ ''`'') # l')"
  using assms by (auto simp: copy_image_def log_line_then match_res_def fs_copy_def log_line_def Let_def)

section \<open>A sample host\<close>

text \<open>A host on which the first build fails, and everything succeeds once bootimage is installed.\<close>

definition sample_host :: host where
  "sample_host = \<lparr>spawn = (\<lambda>l prog argv dir.
       if prog = ''cargo'' \<and> argv \<noteq> [''install'', ''bootimage@0.10.3''] \<and> install_call \<notin> fst ` set (started l)
       then Inr (ExitedWith 101) else Inr (ExitedWith 0)),
     canonicalize = (\<lambda>_ dir. Some (''/src/'' @ dir)), can_open = (\<lambda>_ _. False), can_write = (\<lambda>_ _. None),
     can_copy = (\<lambda>_ _ _. True), show_status = (\<lambda>_. ''exit status: 101'')\<rparr>"

definition sample_matches :: arg_matches where
  "sample_matches = \<lparr>get_flag = (\<lambda>f. f = ''nosound''), get_one = (\<lambda>_. None)\<rparr>"

lemma sample_host_dirs: "dirs_exist sample_host"
  by (simp add: dirs_exist_def sample_host_def)

theorem run_starts_qemu_after_build_witness:
  "\<exists>r l'. sdr_run sample_host sample_matches [] = Done (r, l') \<and>
     ((\<exists>b a. command_calls sample_host Build ''./kernel'' sample_matches (Inr ()) b
           \<and> started l' = b @ [((''qemu-system-x86_64'',
                 [''-drive'', ''format=raw,file=kernel/target/x86_64-sunflower/release/bootimage-sunflower.bin'',
                  ''-drive'', ''format=raw,file=./floppy.img,if=floppy'', ''-audio'', ''driver=none,model=virtio,id=speaker'',
                  ''--machine'', ''pcspk-audiodev=speaker''], None), a)]
           \<and> r = (case a of Inl _ \<Rightarrow> Inl 5 | Inr _ \<Rightarrow> Inr ()))
        \<or> (\<exists>c \<in> {1, 2, 3}. r = Inl c \<and> command_calls sample_host Build ''./kernel'' sample_matches (Inl c) (started l')))"
  using run_starts_qemu_after_build [of sample_host sample_matches] sample_host_dirs
  by (simp add: dirs_exist_def sample_matches_def)

theorem run_alldirs_in_order_witness:
  "dirs_exist sample_host \<and>
   (\<exists>r l' b calls. run_alldirs sample_host Clippy sample_matches [] = Done (r, l') \<and> started l' = b @ calls \<and>
    (command_calls sample_host Build ''./kernel'' sample_matches (Inr ()) b
       \<and> dir_calls sample_host Clippy sample_matches [''seeder'', ''libutil'', ''libfs'', ''kernel''] r calls
     \<or> command_calls sample_host Build ''./kernel'' sample_matches r b \<and> r \<noteq> Inr () \<and> calls = []))"
  using run_alldirs_in_order [OF sample_host_dirs, of Clippy sample_matches] sample_host_dirs by blast

theorem seeder_writes_only_its_files_witness:
  "\<exists>r l. sdr_main sample_host (\<lambda>_ _. sample_matches) (Some (''build, b'', sample_matches\<lparr>get_one := \<lambda>_. Some ''disk.bin''\<rparr>)) [] = Done (r, l)
     \<and> careful {''disk.bin''} l"
proof -
  have "effective_matches p (''build, b'', m) = m" for p m by (simp add: effective_matches_def)
  then show ?thesis
    using seeder_writes_only_its_files [OF sample_host_dirs, of "Some (''build, b'', sample_matches\<lparr>get_one := \<lambda>_. Some ''disk.bin''\<rparr>)" "\<lambda>_ _. sample_matches"]
    by (simp add: sub_names image_path_def)
qed

end
