(* ===== verification/Build_Script.thy ===== *)
theory Build_Script
  imports Machine "HOL-Library.Signed_Division"
begin

text \<open>
  kernel/build.rs, which passes the VERSION file to the kernel through environment variables, and the
  place where the kernel reads them: the macro \<^verbatim>\<open>env_as_int!\<close> of kernel/src/sysinfo.rs with the constants
  it defines. The model of the kernel takes these values as fields of \<open>env\<close>; here they are computed.
\<close>

section \<open>The build script\<close>

text \<open>
  Reading the file (\<open>read_file\<close>) and parsing it as TOML (\<open>from_slice\<close>) are the host's and the crate
  toml's; \<open>local_year\<close> is the year of chrono's clock, an \<^verbatim>\<open>i32\<close>. An error is what it displays.
\<close>

definition VERSION :: string where
  "VERSION = ''../VERSION''"

record kernel_version =
  version_major :: string
  version_minor :: string
  version_patch :: string
  kernel_patch_quote :: string

record floppyfs_version =
  release_day :: u16
  release_year :: u16

record version =
  kernel :: kernel_version
  floppyfs :: floppyfs_version

datatype parse_version_error = IOError string | ParseError string

definition parse_version_error_display :: "parse_version_error \<Rightarrow> string" where
  "parse_version_error_display err =
     (case err of
        IOError e \<Rightarrow> ''failed reading the VERSION file: '' @ e
      | ParseError e \<Rightarrow> ''failed parsing the VERSION file: '' @ e)"

text \<open>An \<^verbatim>\<open>i32\<close> as \<^verbatim>\<open>{}\<close> prints it.\<close>

definition int_str :: "int \<Rightarrow> string" where
  "int_str n = (if n < 0 then CHR ''-'' # dec_str (nat (- n)) else dec_str (nat n))"

definition rustc_env :: "string \<Rightarrow> string \<Rightarrow> string" where
  "rustc_env name val = ''cargo::rustc-env='' @ name @ ''='' @ val"

definition rerun_if_changed :: "string \<Rightarrow> string" where
  "rerun_if_changed file = ''cargo::rerun-if-changed='' @ file"

definition build_main ::
  "(string \<Rightarrow> string + bytes) \<Rightarrow> (bytes \<Rightarrow> string + version) \<Rightarrow> u32 \<Rightarrow> parse_version_error + string list" where
  "build_main read_file from_slice local_year =
     (case read_file VERSION of
        Inl e \<Rightarrow> Err (IOError e)
      | Inr buf \<Rightarrow>
          (case from_slice buf of
             Inl e \<Rightarrow> Err (ParseError e)
           | Inr v \<Rightarrow>
               (let version_fmt = version_major (kernel v) @ ''.'' @ version_minor (kernel v) @ ''.'' @ version_patch (kernel v);
                    century = sint local_year sdiv 100
                in Ok [rerun_if_changed VERSION,
                       rustc_env ''SFK_VERSION'' version_fmt,
                       rustc_env ''SFK_PATCH_QUOTE'' (kernel_patch_quote (kernel v)),
                       rustc_env ''SFK_FLOPPYFS_YEAR'' (dec_str (unat (release_year (floppyfs v)))),
                       rustc_env ''SFK_FLOPPYFS_DAY'' (dec_str (unat (release_day (floppyfs v)))),
                       rustc_env ''SFK_TIME_CENTURY'' (int_str century)])))"

section \<open>The kernel's constants\<close>

text \<open>\<^verbatim>\<open>from_str_radix(_, 10)\<close> on an unsigned type: an optional plus sign, then digits, with overflow refused.\<close>

fun digits_value :: "string \<Rightarrow> 'w::len word \<Rightarrow> 'w word option" where
  "digits_value [] acc = Some acc"
| "digits_value (c # cs) acc =
     (let d = of_char c :: nat
      in if 48 \<le> d \<and> d \<le> 57
         then (let n = unat acc * 10 + (d - 48) in if n < 2 ^ LENGTH('w) then digits_value cs (of_nat n) else None)
         else None)"

definition from_str_radix10 :: "string \<Rightarrow> 'w::len word option" where
  "from_str_radix10 s =
     (if s = [] \<or> s = ''+'' \<or> s = ''-'' then None
      else if hd s = CHR ''+'' then digits_value (tl s) 0
      else digits_value s 0)"

text \<open>
  The environment of the compiler is \<open>vars\<close>; \<open>None\<close> is a build that fails, because the variable is not
  set or because the macro's panic is evaluated at compile time.
\<close>

definition env_as_int :: "(string \<Rightarrow> string option) \<Rightarrow> string \<Rightarrow> 'w::len word option" where
  "env_as_int vars name = (case vars name of None \<Rightarrow> None | Some s \<Rightarrow> from_str_radix10 s)"

definition YEAR :: "(string \<Rightarrow> string option) \<Rightarrow> u16 option" where
  "YEAR vars = env_as_int vars ''SFK_FLOPPYFS_YEAR''"

definition DAY :: "(string \<Rightarrow> string option) \<Rightarrow> u16 option" where
  "DAY vars = env_as_int vars ''SFK_FLOPPYFS_DAY''"

definition CENTURY :: "(string \<Rightarrow> string option) \<Rightarrow> u16 option" where
  "CENTURY vars = env_as_int vars ''SFK_TIME_CENTURY''"

text \<open>The fields of the kernel model's environment that a build fixes.\<close>

definition kernel_consts :: "(string \<Rightarrow> string option) \<Rightarrow> env \<Rightarrow> env option" where
  "kernel_consts vars E =
     (case (vars ''SFK_VERSION'', vars ''SFK_PATCH_QUOTE'', CENTURY vars, YEAR vars, DAY vars) of
        (Some ver, Some quote, Some c, Some y, Some d) \<Rightarrow>
          Some (E\<lparr>sfk_version := ver, patch_quote := quote, century := c, floppyfs_year := y, floppyfs_day := d\<rparr>)
      | _ \<Rightarrow> None)"

section \<open>Printing and parsing decimals\<close>

lemma digits_value_append:
  "digits_value (xs @ ys) acc = Option.bind (digits_value xs acc) (digits_value ys)"
  by (induction xs acc rule: digits_value.induct) (auto simp: Let_def)

lemma digit_char_code: "d < 10 \<Longrightarrow> (of_char (digit_char d) :: nat) = 48 + d"
  by (simp add: digit_char_def)

lemma digits_value_digit:
  assumes "d < 10" and "unat acc * 10 + d < 2 ^ LENGTH('w)"
  shows "digits_value [digit_char d] (acc :: 'w::len word) = Some (of_nat (unat acc * 10 + d))"
  using assms by (simp add: digit_char_code Let_def)

lemma digits_value_dec_str:
  "n < 2 ^ LENGTH('w) \<Longrightarrow> digits_value (dec_str n) 0 = Some (of_nat n :: 'w::len word)"
proof (induction n rule: less_induct)
  case (less n)
  show ?case
  proof (cases "n < 10")
    case True
    then show ?thesis
      using digits_value_digit [of n "0 :: 'w word"] less.prems by (simp add: fmt_radix.simps)
  next
    case False
    then have small: "n div 10 < n" by simp
    with less.prems have "n div 10 < 2 ^ LENGTH('w)" by linarith
    then have unat: "unat (of_nat (n div 10) :: 'w word) = n div 10" by (simp add: unsigned_of_nat take_bit_nat_eq_self)
    have "digits_value (dec_str n) (0 :: 'w word)
        = Option.bind (digits_value (dec_str (n div 10)) 0) (digits_value [digit_char (n mod 10)])"
      using False by (subst fmt_radix.simps) (simp add: digits_value_append del: digits_value.simps)
    also have "\<dots> = digits_value [digit_char (n mod 10)] (of_nat (n div 10) :: 'w word)"
      using less.IH [OF small] \<open>n div 10 < 2 ^ LENGTH('w)\<close> by simp
    also have "\<dots> = Some (of_nat n)"
      using digits_value_digit [of "n mod 10" "of_nat (n div 10) :: 'w word"] less.prems unat by simp
    finally show ?thesis .
  qed
qed

lemma dec_str_chars: "c \<in> set (dec_str n) \<Longrightarrow> 48 \<le> (of_char c :: nat) \<and> (of_char c :: nat) \<le> 57"
proof (induction n rule: less_induct)
  case (less n)
  show ?case
  proof (cases "n < 10")
    case True
    then show ?thesis using less.prems by (auto simp: fmt_radix.simps digit_char_code)
  next
    case False
    then have "c \<in> set (dec_str (n div 10)) \<or> c = digit_char (n mod 10)"
      using less.prems by (subst (asm) fmt_radix.simps) auto
    then show ?thesis using less.IH [of "n div 10"] False by (auto simp: digit_char_code)
  qed
qed

lemma dec_str_nonempty: "dec_str n \<noteq> []"
  by (subst fmt_radix.simps) simp

lemma from_str_radix10_dec_str:
  assumes "n < 2 ^ LENGTH('w)"
  shows "from_str_radix10 (dec_str n) = Some (of_nat n :: 'w::len word)"
proof -
  have "hd (dec_str n) \<in> set (dec_str n)" using dec_str_nonempty by (rule hd_in_set)
  then have hd: "48 \<le> (of_char (hd (dec_str n)) :: nat)" by (auto dest: dec_str_chars)
  then have "hd (dec_str n) \<noteq> CHR ''+''" "hd (dec_str n) \<noteq> CHR ''-''" by auto
  then have "dec_str n \<noteq> ''+''" "dec_str n \<noteq> ''-''" by (metis list.sel(1))+
  then show ?thesis
    using assms dec_str_nonempty \<open>hd (dec_str n) \<noteq> CHR ''+''\<close>
    by (simp add: from_str_radix10_def digits_value_dec_str)
qed

lemma from_str_radix10_unat: "from_str_radix10 (dec_str (unat w)) = Some (w :: 'w::len word)"
  using from_str_radix10_dec_str [of "unat w", where 'w = 'w] by (simp add: unsigned_less)

section \<open>From the VERSION file to the kernel\<close>

text \<open>
  cargo, on the lines the script printed: a variable set by exactly one line has the value of that line.
  (A value with a line break would be cut off, so the lines are free of them.)
\<close>

definition sets_env :: "(string list \<Rightarrow> string \<Rightarrow> string option) \<Rightarrow> bool" where
  "sets_env cargo \<longleftrightarrow> (\<forall>ls name val.
     rustc_env name val \<in> set ls \<and> CHR ''='' \<notin> set name \<and> (\<forall>l \<in> set ls. CHR 0x0A \<notin> set l)
       \<and> (\<forall>val'. rustc_env name val' \<in> set ls \<longrightarrow> val' = val) \<longrightarrow> cargo ls name = Some val)"

text \<open>The values a line of the script may set apart: two settings agree only on the same variable and value.\<close>

lemma rustc_env_inject:
  assumes "CHR ''='' \<notin> set a" and "CHR ''='' \<notin> set b"
  shows "rustc_env a x = rustc_env b y \<longleftrightarrow> a = b \<and> x = y"
proof
  assume "rustc_env a x = rustc_env b y"
  then have eq: "a @ CHR ''='' # x = b @ CHR ''='' # y" by (simp add: rustc_env_def)
  then have "takeWhile ((\<noteq>) (CHR ''='')) (a @ CHR ''='' # x) = takeWhile ((\<noteq>) (CHR ''='')) (b @ CHR ''='' # y)" by simp
  moreover have "takeWhile ((\<noteq>) (CHR ''='')) (z @ CHR ''='' # w) = z" if "CHR ''='' \<notin> set z" for z w
    using that by (subst takeWhile_append2) auto
  ultimately have "a = b" using assms by simp
  then show "a = b \<and> x = y" using eq by simp
qed simp

definition version_string :: "kernel_version \<Rightarrow> string" where
  "version_string kv = version_major kv @ ''.'' @ version_minor kv @ ''.'' @ version_patch kv"

definition one_line :: "kernel_version \<Rightarrow> bool" where
  "one_line kv \<longleftrightarrow> CHR 0x0A \<notin> set (version_string kv) \<and> CHR 0x0A \<notin> set (kernel_patch_quote kv)"

lemma dec_str_one_line: "CHR 0x0A \<notin> set (dec_str n)"
  by (auto dest: dec_str_chars)

lemma script_sets:
  assumes "sets_env cargo" and ls: "build_main read_file from_slice local_year = Inr ls"
    and v: "read_file VERSION = Inr buf" "from_slice buf = Inr v" and "one_line (kernel v)" and "0 \<le> sint local_year"
  shows "cargo ls ''SFK_VERSION'' = Some (version_string (kernel v))"
    and "cargo ls ''SFK_PATCH_QUOTE'' = Some (kernel_patch_quote (kernel v))"
    and "cargo ls ''SFK_FLOPPYFS_YEAR'' = Some (dec_str (unat (release_year (floppyfs v))))"
    and "cargo ls ''SFK_FLOPPYFS_DAY'' = Some (dec_str (unat (release_day (floppyfs v))))"
    and "cargo ls ''SFK_TIME_CENTURY'' = Some (dec_str (nat (sint local_year div 100)))"
proof -
  let ?c = "dec_str (nat (sint local_year div 100))"
  let ?y = "dec_str (unat (release_year (floppyfs v)))" and ?d = "dec_str (unat (release_day (floppyfs v)))"
  have "int_str (sint local_year sdiv 100) = ?c"
    using assms(6) by (auto simp: int_str_def signed_divide_int_def sgn_if pos_imp_zdiv_neg_iff)
  then have lines: "ls = [rerun_if_changed VERSION, rustc_env ''SFK_VERSION'' (version_string (kernel v)),
      rustc_env ''SFK_PATCH_QUOTE'' (kernel_patch_quote (kernel v)), rustc_env ''SFK_FLOPPYFS_YEAR'' ?y,
      rustc_env ''SFK_FLOPPYFS_DAY'' ?d, rustc_env ''SFK_TIME_CENTURY'' ?c]"
    using ls v by (simp add: build_main_def Let_def version_string_def)
  have nl: "CHR 0x0A \<notin> set l" if "l \<in> set ls" for l
    using that assms(5) dec_str_one_line unfolding lines
    by (auto simp: rustc_env_def rerun_if_changed_def one_line_def VERSION_def)
  have rerun: "rustc_env name val \<noteq> rerun_if_changed VERSION" for name val
    by (simp add: rustc_env_def rerun_if_changed_def)
  have set_by: "cargo ls name = Some val"
    if "rustc_env name val \<in> set ls" "CHR ''='' \<notin> set name" "\<And>val'. rustc_env name val' \<in> set ls \<Longrightarrow> val' = val" for name val
    using assms(1) that nl unfolding sets_env_def by blast
  note uniq = lines rerun rustc_env_inject
  show "cargo ls ''SFK_VERSION'' = Some (version_string (kernel v))"
    by (rule set_by) (auto simp: uniq)
  show "cargo ls ''SFK_PATCH_QUOTE'' = Some (kernel_patch_quote (kernel v))"
    by (rule set_by) (auto simp: uniq)
  show "cargo ls ''SFK_FLOPPYFS_YEAR'' = Some ?y"
    by (rule set_by) (auto simp: uniq)
  show "cargo ls ''SFK_FLOPPYFS_DAY'' = Some ?d"
    by (rule set_by) (auto simp: uniq)
  show "cargo ls ''SFK_TIME_CENTURY'' = Some ?c"
    by (rule set_by) (auto simp: uniq)
qed

text \<open>
  C23: What the VERSION file says reaches the kernel: when the build script ends well, the decimals it prints
  parse back in the kernel, so the build succeeds and the kernel's version, patch quote and filesystem
  release are those of the file, and its century that of the build clock (for any year from 0 to 6553599).
\<close>

theorem version_reaches_kernel:
  assumes "sets_env cargo" and "build_main read_file from_slice local_year = Inr ls"
    and "read_file VERSION = Inr buf" and "from_slice buf = Inr v" and "one_line (kernel v)"
    and "0 \<le> sint local_year" and "sint local_year < 6553600"
  shows "kernel_consts (cargo ls) E =
    Some (E\<lparr>sfk_version := version_string (kernel v), patch_quote := kernel_patch_quote (kernel v),
       century := of_int (sint local_year div 100), floppyfs_year := release_year (floppyfs v),
       floppyfs_day := release_day (floppyfs v)\<rparr>)"
proof -
  note vars = script_sets [OF assms(1-6)]
  have small: "nat (sint local_year div 100) < 2 ^ LENGTH(16)" using assms(6,7) by simp
  have "CENTURY (cargo ls) = Some (of_int (sint local_year div 100))"
    using assms(6) by (simp add: CENTURY_def env_as_int_def vars from_str_radix10_dec_str [OF small])
  moreover have "YEAR (cargo ls) = Some (release_year (floppyfs v))" "DAY (cargo ls) = Some (release_day (floppyfs v))"
    by (simp_all add: YEAR_def DAY_def env_as_int_def vars from_str_radix10_unat)
  ultimately show ?thesis by (simp add: kernel_consts_def vars)
qed

text \<open>A build before the year 0 has a negative century, which does not parse as a \<^verbatim>\<open>u16\<close>: the kernel is not built.\<close>

lemma negative_century_refused: "n < 0 \<Longrightarrow> from_str_radix10 (int_str n) = (None :: u16 option)"
  by (simp add: int_str_def from_str_radix10_def)

section \<open>The repository's own VERSION file\<close>

definition sample_version :: version where
  "sample_version = \<lparr>
     kernel = \<lparr>version_major = ''0'', version_minor = ''2'', version_patch = ''3'', kernel_patch_quote = ''now formatted!''\<rparr>,
     floppyfs = \<lparr>release_day = 364, release_year = 2025\<rparr>\<rparr>"

text \<open>A cargo that takes the first line setting the variable.\<close>

definition sample_cargo :: "string list \<Rightarrow> string \<Rightarrow> string option" where
  "sample_cargo ls name =
     (let pre = rustc_env name '''' in map_option (drop (length pre)) (find (\<lambda>l. take (length pre) l = pre) ls))"

lemma sample_cargo_sets_env: "sets_env sample_cargo"
  unfolding sets_env_def
proof (intro allI impI, elim conjE)
  fix ls name val
  assume "rustc_env name val \<in> set ls" and uniq: "\<forall>val'. rustc_env name val' \<in> set ls \<longrightarrow> val' = val"
  let ?pre = "rustc_env name ''''"
  have pre: "take (length ?pre) l = ?pre \<longleftrightarrow> (\<exists>x. l = rustc_env name x)" for l
    by (auto simp: rustc_env_def) (metis append_take_drop_id append.assoc append_Cons append_Nil)
  have "find (\<lambda>l. take (length ?pre) l = ?pre) ls \<noteq> None"
    using \<open>rustc_env name val \<in> set ls\<close> pre by (auto simp: find_None_iff)
  then obtain l where l: "find (\<lambda>l. take (length ?pre) l = ?pre) ls = Some l" by blast
  then have "take (length ?pre) l = ?pre" "l \<in> set ls" by (auto simp: find_Some_iff)
  then have "l = rustc_env name val" using uniq unfolding pre by blast
  then show "sample_cargo ls name = Some val" using l by (simp add: sample_cargo_def Let_def rustc_env_def)
qed

theorem version_reaches_kernel_witness:
  "\<exists>ls. build_main (\<lambda>_. Inr []) (\<lambda>_. Inr sample_version) 2026 = Inr ls \<and>
     (\<forall>E. kernel_consts (sample_cargo ls) E =
       Some (E\<lparr>sfk_version := ''0.2.3'', patch_quote := ''now formatted!'', century := 20,
         floppyfs_year := 2025, floppyfs_day := 364\<rparr>))"
proof -
  obtain ls where ls: "build_main (\<lambda>_. Inr []) (\<lambda>_. Inr sample_version) 2026 = Inr ls"
    by (simp add: build_main_def Let_def)
  have "one_line (kernel sample_version)" by (simp add: one_line_def version_string_def sample_version_def)
  then have "kernel_consts (sample_cargo ls) E =
      Some (E\<lparr>sfk_version := ''0.2.3'', patch_quote := ''now formatted!'', century := 20,
        floppyfs_year := 2025, floppyfs_day := 364\<rparr>)" for E
    using version_reaches_kernel [OF sample_cargo_sets_env ls refl refl, of E]
    by (simp add: version_string_def sample_version_def)
  then show ?thesis using ls by blast
qed

end
