(* ===== verification/Controller.thy ===== *)
theory Controller
  imports Disk
begin

text \<open>
  The driver of kernel/src/floppy/fifo.rs and kernel/src/floppy/disk.rs on a controller that works. The
  controller is hardware, so it is an environment: a state machine that follows the log of port accesses
  and fixes what the status and data ports answer, after the 82077AA's data sheet as the driver uses it
  (polled transfers, command, execution and result phase). The lemmas say that the driver's operations, from
  bytes up to whole transfers, then succeed and what they do to the medium.
\<close>

section \<open>The controller\<close>

text \<open>
  A transfer's result bytes are kept from its command on. \<open>Writing\<close> holds the first sector, the number of
  bytes expected and the bytes received. \<open>pending\<close> are the first status bytes of the interrupts that were not sensed
  yet: one after a seek, and after a reset one for each of the four drives.
\<close>

datatype phase =
    Command bytes
  | Reading bytes bytes
  | Writing nat nat bytes bytes
  | Result bytes

record device =
  phase :: phase
  medium :: "nat \<Rightarrow> bytes"
  pcn :: u8
  pending :: "u8 list"

definition cmd_length :: "u8 \<Rightarrow> nat" where
  "cmd_length c =
     (if c = 0x45 \<or> c = 0x46 then 9 else if c = 3 \<or> c = 15 then 3 else if c = 7 then 2 else if c = 19 then 4 else 1)"

definition chs_lba :: "u8 \<Rightarrow> u8 \<Rightarrow> u8 \<Rightarrow> nat" where
  "chs_lba c h s = (unat c * 2 + unat h) * 18 + (unat s - 1)"

definition sectors_of :: "(nat \<Rightarrow> bytes) \<Rightarrow> nat \<Rightarrow> nat \<Rightarrow> bytes" where
  "sectors_of m first n = concat (map m [first..<first + n])"

definition write_sectors :: "nat \<Rightarrow> bytes \<Rightarrow> (nat \<Rightarrow> bytes) \<Rightarrow> nat \<Rightarrow> bytes" where
  "write_sectors first bs m i =
     (if first \<le> i \<and> i < first + length bs div 512 then take 512 (drop (512 * (i - first)) bs) else m i)"

text \<open>
  A complete command. A transfer needs the head over its cylinder; it ends normally after the
  sector given as the last one, with the selected drive and head in the first status byte and no error bit.
\<close>

definition execute :: "bytes \<Rightarrow> device \<Rightarrow> device" where
  "execute bs d =
     (let c = bs ! 0; first = chs_lba (bs ! 2) (bs ! 3) (bs ! 4); n = unat (bs ! 6) + 1 - unat (bs ! 4);
          res = [bs ! 1 AND 7, 0, 0, bs ! 2, bs ! 3, bs ! 4, bs ! 5]
      in if c = 7 then d\<lparr>phase := Command [], pcn := 0, pending := [0x20 OR (bs ! 1 AND 3)]\<rparr>
         else if c = 15 then d\<lparr>phase := Command [], pcn := bs ! 2, pending := [0x20 OR (bs ! 1 AND 3)]\<rparr>
         else if c = 8
         then (case pending d of
                 [] \<Rightarrow> d\<lparr>phase := Result [0x80]\<rparr>
               | st # rest \<Rightarrow> d\<lparr>phase := Result [st, pcn d], pending := rest\<rparr>)
         else if c = 0x46 \<or> c = 0x45
         then (if pcn d \<noteq> bs ! 2 \<or> n = 0 then d\<lparr>phase := Result [0x40 OR (bs ! 1 AND 7), 4, 0, bs ! 2, bs ! 3, bs ! 4, bs ! 5]\<rparr>
               else if c = 0x46 then d\<lparr>phase := Reading (sectors_of (medium d) first n) res\<rparr>
               else d\<lparr>phase := Writing first (512 * n) [] res\<rparr>)
         else if c = 3 \<or> c = 19 then d\<lparr>phase := Command []\<rparr>
         else if c = 16 then d\<lparr>phase := Result [0x90]\<rparr>
         else d\<lparr>phase := Result [0x80]\<rparr>)"

definition accept :: "u8 \<Rightarrow> device \<Rightarrow> device" where
  "accept v d =
     (case phase d of
        Command bs \<Rightarrow>
          if cmd_length (hd (bs @ [v])) \<le> length bs + 1 then execute (bs @ [v]) d else d\<lparr>phase := Command (bs @ [v])\<rparr>
      | Writing first n bs res \<Rightarrow>
          if length bs + 1 = n then d\<lparr>phase := Result res, medium := write_sectors first (bs @ [v]) (medium d)\<rparr>
          else d\<lparr>phase := Writing first n (bs @ [v]) res\<rparr>
      | _ \<Rightarrow> d)"

definition consume :: "device \<Rightarrow> device" where
  "consume d =
     (case phase d of
        Reading bs res \<Rightarrow> if length bs \<le> 1 then d\<lparr>phase := Result res\<rparr> else d\<lparr>phase := Reading (tl bs) res\<rparr>
      | Result bs \<Rightarrow> if length bs \<le> 1 then d\<lparr>phase := Command []\<rparr> else d\<lparr>phase := Result (tl bs)\<rparr>
      | _ \<Rightarrow> d)"

text \<open>The byte the controller holds out, if it is its turn.\<close>

definition held_out :: "device \<Rightarrow> u8 option" where
  "held_out d =
     (case phase d of Reading (b # _) _ \<Rightarrow> Some b | Result (b # _) \<Rightarrow> Some b | _ \<Rightarrow> None)"

text \<open>The controller after a log of port accesses, newest first; only its own ports concern it.\<close>

definition dev_step :: "u16 \<Rightarrow> io \<Rightarrow> device \<Rightarrow> device" where
  "dev_step base ev d =
     (case ev of
        Out p v \<Rightarrow>
          if p = 5 + base then accept v d
          else if p = 2 + base \<and> \<not> bit v 2 then d\<lparr>phase := Command [], pending := [0xC0, 0xC1, 0xC2, 0xC3]\<rparr>
          else d
      | Inp p _ \<Rightarrow> if p = 5 + base then consume d else d
      | _ \<Rightarrow> d)"

primrec after :: "u16 \<Rightarrow> device \<Rightarrow> io list \<Rightarrow> device" where
  "after base d0 [] = d0"
| "after base d0 (ev # l) = dev_step base ev (after base d0 l)"

text \<open>
  The digital output register, once it was written; its bit 2 is clear while the controller is held in reset, when its other registers
  show nothing that can be relied on.
\<close>

primrec dor_of :: "u16 \<Rightarrow> io list \<Rightarrow> u8 option" where
  "dor_of base [] = None"
| "dor_of base (ev # l) = (case ev of Out p v \<Rightarrow> if p = 2 + base then Some v else dor_of base l | _ \<Rightarrow> dor_of base l)"

definition enabled :: "u16 \<Rightarrow> io list \<Rightarrow> bool" where
  "enabled base l \<longleftrightarrow> (case dor_of base l of None \<Rightarrow> False | Some v \<Rightarrow> bit v 2)"

text \<open>
  A machine with such a controller at one of the two addresses the driver looks at: the output register reads as written and, out of reset, the status register
  shows whose turn it is, the data register the byte held out. Interrupts may arrive at any time; the timer's
  line latches one tick and wakes a halted processor.
\<close>

definition compliant :: "u16 \<Rightarrow> device \<Rightarrow> env \<Rightarrow> bool" where
  "compliant base d0 E \<longleftrightarrow> base \<in> {0x3F0, 0x370} \<and> 51 < fuel E \<and> timer_latched E \<and> timer_wakes E
     \<and> (\<forall>l v. dor_of base l = Some v \<longrightarrow> port_in E l (2 + base) = v)
     \<and> (\<forall>l. enabled base l \<longrightarrow> rqm_dio (port_in E l (4 + base)) = (if held_out (after base d0 l) = None then 2 else 3))
     \<and> (\<forall>l b. enabled base l \<longrightarrow> held_out (after base d0 l) = Some b \<longrightarrow> port_in E l (5 + base) = b)"

section \<open>Total correctness on it\<close>

text \<open>
  The driver's state while it talks to the controller: of \<open>k0\<close> it keeps what interrupts leave alone,
  at least \<open>B\<close> ticks are left before the clock wraps around, and the controller is out of reset and in state \<open>d\<close>.
\<close>

definition talking :: "u16 \<Rightarrow> device \<Rightarrow> 'a kbd_scheme \<Rightarrow> nat \<Rightarrow> device \<Rightarrow> 'a kbd_scheme \<Rightarrow> bool" where
  "talking base d0 k0 B d k \<longleftrightarrow> undisturbed k0 k \<and> ints_on k0 \<and> base_known base k0
     \<and> unat (TIME k) + B < 2 ^ 64 \<and> enabled base (io_log k) \<and> after base d0 (io_log k) = d"

text \<open>From every state with the property the call returns, successfully, in one with the other.\<close>

definition achieves :: "('s \<Rightarrow> bool) \<Rightarrow> ('s, 'e, 'a) fallible \<Rightarrow> ('a \<Rightarrow> 's \<Rightarrow> bool) \<Rightarrow> bool" where
  "achieves P m Q \<longleftrightarrow> (\<forall>s. P s \<longrightarrow> (\<exists>a s'. m s = Done (Inr a, s') \<and> Q a s'))"

lemma achievesE:
  assumes "achieves P m Q" and "P s"
  obtains a s' where "m s = Done (Inr a, s')" and "Q a s'"
  using assms by (auto simp: achieves_def)

lemma achieves_ok: "(\<And>s. P s \<Longrightarrow> Q a s) \<Longrightarrow> achieves P (ok a) Q"
  by (simp add: achieves_def ok_def)

lemma achieves_try_then:
  assumes "achieves P m R" and "\<And>a. achieves (R a) (f a) Q"
  shows "achieves P (try_then m f) Q"
  unfolding achieves_def
proof (intro allI impI)
  fix s assume "P s"
  with assms(1) obtain a s' where "m s = Done (Inr a, s')" "R a s'" by (rule achievesE)
  then show "\<exists>a s'. try_then m f s = Done (Inr a, s') \<and> Q a s'"
    using assms(2) [of a] by (auto simp: try_then_def achieves_def)
qed

lemma achieves_match_res:
  assumes "achieves P m R" and "\<And>a. achieves (R a) (f a) Q"
  shows "achieves P (match_res m g f) Q"
  unfolding achieves_def
proof (intro allI impI)
  fix s assume "P s"
  with assms(1) obtain a s' where "m s = Done (Inr a, s')" "R a s'" by (rule achievesE)
  then show "\<exists>a s'. match_res m g f s = Done (Inr a, s') \<and> Q a s'"
    using assms(2) [of a] by (auto simp: match_res_def achieves_def)
qed

lemma achieves_map_err: "achieves P m Q \<Longrightarrow> achieves P (map_err g m) Q"
  by (fastforce simp: achieves_def map_err_def)

lemma achieves_weaken: "achieves P' m Q' \<Longrightarrow> (\<And>s. P s \<Longrightarrow> P' s) \<Longrightarrow> (\<And>a s. Q' a s \<Longrightarrow> Q a s) \<Longrightarrow> achieves P m Q"
  unfolding achieves_def by meson

section \<open>Interrupts and waits\<close>

text \<open>Events on other devices' ports do not concern the controller, and neither does stopping the motor.\<close>

definition foreign :: "u16 \<Rightarrow> io \<Rightarrow> bool" where
  "foreign base ev \<longleftrightarrow>
     (case ev of Out p v \<Rightarrow> p \<noteq> 5 + base \<and> (p = 2 + base \<longrightarrow> bit v 2) | Inp p _ \<Rightarrow> p \<noteq> 5 + base | _ \<Rightarrow> True)"

lemma after_foreign: "foreign base ev \<Longrightarrow> after base d0 (ev # l) = after base d0 l"
  by (auto simp: foreign_def dev_step_def split: io.splits)

lemma foreign_enabled: "foreign base ev \<Longrightarrow> enabled base l \<Longrightarrow> enabled base (ev # l)"
  by (auto simp: foreign_def enabled_def split: io.splits)

lemma enabled_other: "(\<And>v. ev \<noteq> Out (2 + base) v) \<Longrightarrow> enabled base (ev # l) = enabled base l"
  by (cases ev) (auto simp: enabled_def)

lemma enabled_Fifo [simp]:
  "enabled base (Out (5 + base) v # l) = enabled base l" "enabled base (Inp p v # l) = enabled base l"
  by (simp_all add: enabled_other)

text \<open>\<open>k'\<close> has the log of \<open>k\<close> with foreign events added.\<close>

definition log_grown :: "u16 \<Rightarrow> 'a machine_scheme \<Rightarrow> 'b machine_scheme \<Rightarrow> bool" where
  "log_grown base k k' \<longleftrightarrow> (\<exists>evs. io_log k' = evs @ io_log k \<and> (\<forall>ev \<in> set evs. foreign base ev))"

lemma log_grown_refl [simp]: "io_log k' = io_log k \<Longrightarrow> log_grown base k k'"
  by (simp add: log_grown_def)

lemma log_grown_trans: "log_grown base a b \<Longrightarrow> log_grown base b c \<Longrightarrow> log_grown base a c"
  unfolding log_grown_def by (metis append.assoc Un_iff set_append)

lemma log_grown_Cons: "foreign base ev \<Longrightarrow> log_grown base a b \<Longrightarrow> io_log c = ev # io_log b \<Longrightarrow> log_grown base a c"
  unfolding log_grown_def by (metis append_Cons set_ConsD)

lemma after_grown: "log_grown base k k' \<Longrightarrow> after base d0 (io_log k') = after base d0 (io_log k)"
proof -
  have "(\<forall>ev \<in> set evs. foreign base ev) \<Longrightarrow> after base d0 (evs @ l) = after base d0 l" for evs l
    by (induction evs) (simp_all add: after_foreign del: after.simps(2))
  then show "log_grown base k k' \<Longrightarrow> ?thesis" by (auto simp: log_grown_def)
qed

lemma enabled_grown: "log_grown base k k' \<Longrightarrow> enabled base (io_log k) \<Longrightarrow> enabled base (io_log k')"
proof -
  have "(\<forall>ev \<in> set evs. foreign base ev) \<Longrightarrow> enabled base l \<Longrightarrow> enabled base (evs @ l)" for evs l
    by (induction evs) (simp_all add: foreign_enabled)
  then show "log_grown base k k' \<Longrightarrow> enabled base (io_log k) \<Longrightarrow> ?thesis" by (auto simp: log_grown_def)
qed

lemma take_irq_log:
  fixes k :: "'a kbd_scheme"
  assumes base: "base \<in> {0x3F0, 0x370}" and "base_known base k"
  shows "log_grown base k (take_irq E i k)"
proof (cases i)
  case TimerIrq
  have "log_grown base k (decrease_motor_time k)"
    using base assms(2) unfolding decrease_motor_time_def add_offset_def base_known_def
    by (auto simp: log_grown_def send_disable_cmd_def writeb_eq foreign_def Let_def bit_simps split: sum.splits)
  then obtain evs where "io_log (decrease_motor_time k) = evs @ io_log k" "\<forall>ev \<in> set evs. foreign base ev"
    unfolding log_grown_def by blast
  moreover have "foreign base (Out 0x20 EOI_COMMAND)" "foreign base (Out 0x80 0)" using base by (auto simp: foreign_def)
  ultimately show ?thesis unfolding TimerIrq take_irq.simps timer_handler_eq log_grown_def
    by (intro exI [of _ "Out 0x20 EOI_COMMAND # Out 0x80 0 # evs"]) simp
next
  case KbdIrq
  then show ?thesis using base
    by (auto simp: handler_defs kbd_handler_def readb_nodummy_def writeb_eq Let_def sti_def cli_def log_grown_def foreign_def)
next
  case FloppyIrq
  then show ?thesis using base by (auto simp: handler_defs writeb_eq Let_def log_grown_def foreign_def)
next
  case RtcIrq
  then show ?thesis using base
    by (auto simp: handler_defs writeb_eq writeb_nodummy_def readb_nodummy_def
        sync_time_to_rtc_def time_now_def read_cmos_reg_eq Let_def log_grown_def foreign_def)
next
  case SpuriousIrq
  then show ?thesis by (simp add: handler_defs)
qed

lemma poll_log:
  fixes k :: "'a kbd_scheme"
  assumes base: "base \<in> {0x3F0, 0x370}" and "base_known base k" and "foreign base ev"
  shows "log_grown base k (poll E ev k)"
proof -
  have "base_known base k \<Longrightarrow> log_grown base k (fold (take_irq E) is k)" for "is" and k :: "'a kbd_scheme"
  proof (induction "is" arbitrary: k)
    case (Cons i "is")
    have "base_known base (take_irq E i k)"
      using take_irq_frame [of k E i] Cons.prems by (simp add: undisturbed_def base_known_def)
    then show ?case using Cons.IH take_irq_log [OF base Cons.prems] by (auto intro: log_grown_trans)
  qed simp
  from this [of "k\<lparr>io_log := ev # io_log k\<rparr>"] assms(2)
  have "log_grown base (k\<lparr>io_log := ev # io_log k\<rparr>) (poll E ev k)"
    by (simp add: poll_def Let_def base_known_def)
  moreover have "log_grown base k (k\<lparr>io_log := ev # io_log k\<rparr>)"
    using assms(3) by (auto intro: log_grown_Cons [where b = k])
  ultimately show ?thesis by (rule log_grown_trans [rotated])
qed

lemma foreign_marks [simp]: "foreign base ClockRead" "foreign base Halt"
  by (simp_all add: foreign_def)

lemma base_known_undisturbed: "undisturbed k k' \<Longrightarrow> base_known base k' = base_known base k"
  by (simp add: undisturbed_def base_known_def)

lemma wait_log:
  fixes k :: "'a kbd_scheme"
  assumes base: "base \<in> {0x3F0, 0x370}" and "base_known base k" and "wait E ticks k = Done k'"
  shows "log_grown base k k'"
proof -
  have loop: "base_known base k \<Longrightarrow> wait_loop E n target k = Done k' \<Longrightarrow> log_grown base k k'" for n target and k k' :: "'a kbd_scheme"
  proof (induction n arbitrary: k)
    case (Suc n)
    let ?k1 = "poll E ClockRead k" and ?k2 = "poll E Halt (poll E ClockRead k)"
    have known: "base_known base ?k1" "base_known base ?k2"
      using Suc.prems(1) poll_frame(1) base_known_undisturbed by metis+
    have "log_grown base k ?k1" "log_grown base ?k1 ?k2"
      by (rule poll_log [OF base Suc.prems(1)], simp) (rule poll_log [OF base known(1)], simp)
    then show ?case
      using Suc.prems(2) Suc.IH [OF known(2)] log_grown_trans
      by (auto simp: get_time_def hlt_def Let_def split: if_splits intro: log_grown_trans)
  qed simp
  show ?thesis
  proof (cases "PIT_INIT k")
    case True
    let ?w = "set_waiting_char True k"
    let ?k1 = "poll E ClockRead ?w"
    from True assms(3) obtain k2 where k2: "wait_loop E (fuel E) (TIME ?k1 + ticks + 1) ?k1 = Done k2"
      "k' = set_waiting_char False k2"
      by (auto simp: wait_def get_time_def Let_def andThen_eq_Done)
    have w: "base_known base ?w" "base_known base ?k1"
      using assms(2) set_waiting_frame(1) poll_frame(1) base_known_undisturbed by metis+
    have "log_grown base k ?w" "log_grown base ?w ?k1" "log_grown base ?k1 k2" "log_grown base k2 k'"
      using poll_log [OF base w(1), of ClockRead E] loop [OF w(2) k2(1)] k2(2) by (simp_all add: set_waiting_frame)
    then show ?thesis by (meson log_grown_trans)
  qed (use assms(3) in \<open>simp add: wait_def\<close>)
qed

text \<open>What may change while talking.\<close>

lemma talking_motor:
  "talking base d0 k0 B d k \<Longrightarrow> talking base d0 k0 B d (k\<lparr>MOTOR_STATE := s\<rparr>)"
  "talking base d0 k0 B d k \<Longrightarrow> talking base d0 k0 B d (disable_motor k)"
  by (simp_all add: talking_def undisturbed_def disable_motor_def Let_def)

lemma talking_log:
  "talking base d0 k0 B d k \<Longrightarrow> enabled base l \<Longrightarrow> after base d0 l = d' \<Longrightarrow> talking base d0 k0 B d' (k\<lparr>io_log := l\<rparr>)"
  by (simp add: talking_def undisturbed_def)

lemma talking_less: "talking base d0 k0 (B + c) d k \<Longrightarrow> talking base d0 k0 B d k"
  by (simp add: talking_def)

lemma talking_known: "talking base d0 k0 B d k \<Longrightarrow> base_known base k"
  by (auto simp: talking_def base_known_undisturbed)

lemma talking_ints: "talking base d0 k0 B d k \<Longrightarrow> ints_on k"
  by (simp add: talking_def undisturbed_def)

lemma talking_dev: "talking base d0 k0 B d k \<Longrightarrow> after base d0 (io_log k) = d"
  by (simp add: talking_def)

lemma talking_enabled: "talking base d0 k0 B d k \<Longrightarrow> enabled base (io_log k)"
  by (simp add: talking_def)

lemma talking_port: "talking base d0 k0 B d k \<Longrightarrow> add_offset p k = Ok (floppy_port_num p + base)"
  using talking_known by (rule add_offset_known)

lemma talking_grown:
  assumes "talking base d0 k0 (B + c) d k" and "undisturbed k k'" and "log_grown base k k'" and "unat (TIME k') \<le> unat (TIME k) + c"
  shows "talking base d0 k0 B d k'"
  using assms undisturbed_trans [OF _ assms(2)] after_grown [OF assms(3)] enabled_grown [OF assms(3)] by (auto simp: talking_def)

text \<open>Reading the clock costs one tick at most.\<close>

lemma talking_poll:
  assumes E: "compliant base d0 E" and k: "talking base d0 k0 (B + 1) d k"
  shows "talking base d0 k0 B d (poll E ClockRead k)"
    and "unat (TIME k) \<le> unat (TIME (poll E ClockRead k))" and "unat (TIME (poll E ClockRead k)) \<le> unat (TIME k) + 1"
proof -
  have E': "timer_latched E" "base \<in> {0x3F0, 0x370}" using E by (simp_all add: compliant_def)
  have "unat (TIME k) < 2 ^ 64 - 1" using k by (simp add: talking_def)
  then have "unat (TIME (poll E ClockRead k)) = unat (TIME k) + count_list (irqs E (ClockRead # io_log k)) TimerIrq"
    by (rule poll_time [OF E'(1) talking_ints [OF k]])
  moreover have "count_list (irqs E (ClockRead # io_log k)) TimerIrq \<le> 1" using E'(1) by (simp add: timer_latched_def)
  ultimately show "unat (TIME k) \<le> unat (TIME (poll E ClockRead k))" and t: "unat (TIME (poll E ClockRead k)) \<le> unat (TIME k) + 1"
    by simp_all
  show "talking base d0 k0 B d (poll E ClockRead k)"
    by (rule talking_grown [OF k poll_frame(1) poll_log [OF E'(2) talking_known [OF k]] t]) simp
qed

text \<open>
  Starting the motor costs its spin-up time. It also takes the controller out of reset, so that before the
  first start nothing need be known of the output register.
\<close>

definition motor_off :: "u16 \<Rightarrow> device \<Rightarrow> 'a kbd_scheme \<Rightarrow> nat \<Rightarrow> device \<Rightarrow> 'a kbd_scheme \<Rightarrow> bool" where
  "motor_off base d0 k0 B d k \<longleftrightarrow> undisturbed k0 k \<and> ints_on k0 \<and> base_known base k0
     \<and> unat (TIME k) + B < 2 ^ 64 \<and> after base d0 (io_log k) = d \<and> MOTOR_STATE k = MOTOR_OFF"

lemma achieves_motor_start:
  assumes E: "compliant base d0 E"
  shows "achieves (motor_off base d0 k0 (B + 60) d) (enable_motor E) (\<lambda>_. talking base d0 k0 B d)"
  unfolding achieves_def
proof (intro allI impI)
  fix k :: "'a kbd_scheme" assume k: "motor_off base d0 k0 (B + 60) d k"
  have base: "base \<in> {0x3F0, 0x370}" using E by (simp add: compliant_def)
  let ?v = "if DRIVE_ONE k then 0b100101 else 0b010100 :: u8"
  let ?k2 = "k\<lparr>io_log := Out (2 + base) ?v # Out 0x80 0 # io_log k, MOTOR_STATE := MOTOR_ON\<rparr>"
  have "foreign base (Out (2 + base) ?v)" "foreign base (Out 0x80 0)" using base by (auto simp: foreign_def bit_simps)
  then have "after base d0 (io_log ?k2) = d" using k by (simp add: motor_off_def after_foreign del: after.simps)
  moreover have "enabled base (io_log ?k2)" by (simp add: enabled_def bit_simps)
  ultimately have k2: "talking base d0 k0 (B + 60) d ?k2" using k by (simp add: talking_def motor_off_def undisturbed_def)
  then have "timer_latched E" "timer_wakes E" "ints_on ?k2" "unat (50 :: u64) + 1 < fuel E" "unat (TIME ?k2) + unat (50 :: u64) + 5 < 2 ^ 64"
    using E talking_ints [OF k2] by (simp_all add: compliant_def talking_def)
  note wait = wait_time [OF this]
  obtain k3 where k3: "wait E 50 ?k2 = Done k3" "undisturbed ?k2 k3" "unat (TIME k3) \<le> unat (TIME ?k2) + 60"
    using wait wait_frame(1) [of E 50 ?k2] by (cases "PIT_INIT ?k2") auto
  have "add_offset DigitalOutputRegister k = Ok (2 + base)"
    using talking_port [OF k2, of DigitalOutputRegister] by (simp add: add_offset_def)
  then have "enable_motor E k = Done (Ok (), k3)"
    using k k3(1) by (cases "DRIVE_ONE k") (simp_all add: motor_off_def enable_motor_def send_enable_cmd_def writeb_eq run_then_def ok_def Let_def)
  moreover have "talking base d0 k0 B d k3"
    by (rule talking_grown [OF k2 k3(2) wait_log [OF base talking_known [OF k2] k3(1)] k3(3)])
  ultimately show "\<exists>a k'. enable_motor E k = Done (Ok a, k') \<and> talking base d0 k0 B d k'" by blast
qed

lemma achieves_enable_motor:
  assumes E: "compliant base d0 E"
  shows "achieves (talking base d0 k0 (B + 60) d) (enable_motor E) (\<lambda>_. talking base d0 k0 B d)"
  unfolding achieves_def
proof (intro allI impI)
  fix k :: "'a kbd_scheme" assume k: "talking base d0 k0 (B + 60) d k"
  show "\<exists>a k'. enable_motor E k = Done (Ok a, k') \<and> talking base d0 k0 B d k'"
  proof (cases "MOTOR_STATE k = MOTOR_OFF")
    case False
    then show ?thesis using talking_less [OF k] talking_motor(1) by (auto simp: enable_motor_def ok_def)
  next
    case True
    with k have "motor_off base d0 k0 (B + 60) d k" by (simp add: talking_def motor_off_def)
    from achieves_motor_start [OF E] this show ?thesis by (rule achievesE) blast
  qed
qed

section \<open>Bytes\<close>

lemma achieves_msr:
  assumes "compliant base d0 E"
  shows "achieves (talking base d0 k0 B d) (msr E)
    (\<lambda>m k. rqm_dio m = (if held_out d = None then 2 else 3) \<and> talking base d0 k0 B d k)"
  unfolding achieves_def
proof (intro allI impI)
  fix k :: "'a kbd_scheme" assume k: "talking base d0 k0 B d k"
  let ?m = "port_in E (Out 0x80 0 # io_log k) (4 + base)"
  have f: "foreign base (Out 0x80 0)" "foreign base (Inp (4 + base) ?m)" using assms by (auto simp: foreign_def compliant_def)
  have "rqm_dio ?m = (if held_out d = None then 2 else 3)"
    using assms after_foreign [OF f(1)] foreign_enabled [OF f(1) talking_enabled [OF k]] talking_dev [OF k]
    by (simp add: compliant_def del: after.simps)
  moreover have "talking base d0 k0 B d (k\<lparr>io_log := Inp (4 + base) ?m # Out 0x80 0 # io_log k\<rparr>)"
    using talking_dev [OF k] foreign_enabled [OF f(1) talking_enabled [OF k]]
    by (intro talking_log [OF k]) (simp_all only: after_foreign [OF f(1)] after_foreign [OF f(2)] enabled_Fifo)
  ultimately show "\<exists>m k'. msr E k = Done (Ok m, k')
      \<and> rqm_dio m = (if held_out d = None then 2 else 3) \<and> talking base d0 k0 B d k'"
    using talking_port [OF k, of MainStatusRegister] by (simp add: msr_def readb_eq Let_def ok_def)
qed

text \<open>The first round of a timed loop: the clock is read and has not run out since the start.\<close>

lemma achieves_timed:
  assumes E: "compliant base d0 E"
    and loop: "\<And>n start k. loop (Suc n) start k = (let (t, k) = get_time E k in if t < start + TIMEOUT then m' n start k else e k)"
    and same: "\<And>n start. achieves (talking base d0 k0 (B + 60) d) (m' n start) Q"
  shows "achieves (talking base d0 k0 (B + 100) d) (\<lambda>k. let (start, k) = get_time E k in loop (fuel E) start k) Q"
  unfolding achieves_def
proof (intro allI impI)
  fix k :: "'a kbd_scheme" assume "talking base d0 k0 (B + 100) d k"
  then have k: "talking base d0 k0 (B + 99 + 1) d k" by (simp add: talking_def)
  let ?k1 = "poll E ClockRead k"
  note k1 = talking_poll(1) [OF E k]
  then have k1': "talking base d0 k0 (B + 98 + 1) d ?k1" by (simp add: talking_def)
  let ?k2 = "poll E ClockRead ?k1"
  note k2 = talking_poll [OF E k1']
  have "talking base d0 k0 (B + 60) d ?k2" using k2(1) by (simp add: talking_def)
  then have run: "\<exists>a k'. m' n start ?k2 = Done (Inr a, k') \<and> Q a k'" for n start using same by (simp add: achieves_def)
  have "TIME ?k2 < TIME ?k1 + TIMEOUT"
    using k2(3) k1 by (simp add: talking_def TIMEOUT_def word_less_nat_alt unat_word_ariths)
  moreover obtain n where "fuel E = Suc n" using E by (auto simp: compliant_def dest: less_imp_Suc_add)
  ultimately show "\<exists>a k'. (let (start, k) = get_time E k in loop (fuel E) start k) = Done (Inr a, k') \<and> Q a k'"
    using run by (simp add: loop get_time_def Let_def)
qed

lemma achieves_wait_for_rqm:
  assumes "compliant base d0 E"
  shows "achieves (talking base d0 k0 (B + 100) d) (wait_for_rqm E) (\<lambda>_. talking base d0 k0 B d)"
proof -
  have bit7: "m = m OR 0b10000000" if "rqm_dio m = 2 \<or> rqm_dio m = 3" for m :: u8
  proof -
    have "bit (rqm_dio m) 1" using that by auto
    then have "bit m 7" by (simp add: rqm_dio_def bit_simps)
    then show ?thesis using or_exp_same [of 7 m] by simp
  qed
  let ?body = "\<lambda>n start. try_then (map_err InitStatic (msr E))
    (\<lambda>m. if m = m OR 0b10000000 then ok () else wait_for_rqm_loop E n start)"
  have "achieves (talking base d0 k0 (B + 60) d) (?body n start) (\<lambda>_. talking base d0 k0 B d)" for n start
    by (rule achieves_try_then [OF achieves_map_err [OF achieves_msr [OF assms]]])
      (use bit7 talking_less in \<open>auto simp: achieves_def ok_def split: if_splits\<close>)
  from achieves_timed [where loop = "wait_for_rqm_loop E" and m' = ?body, OF assms wait_for_rqm_loop.simps(2) this] show ?thesis
    unfolding wait_for_rqm_def [abs_def] .
qed

lemma foreign_delay: "compliant base d0 E \<Longrightarrow> foreign base (Out 0x80 v)"
  by (auto simp: foreign_def compliant_def)

lemma after_Fifo:
  "after base d0 (Inp (5 + base) v # l) = consume (after base d0 l)"
  "after base d0 (Out (5 + base) v # l) = accept v (after base d0 l)"
  by (simp_all add: dev_step_def)

lemma achieves_budget:
  "achieves (talking base d0 k0 B d) m Q \<Longrightarrow> B \<le> B' \<Longrightarrow> achieves (talking base d0 k0 B' d) m Q"
  by (erule achieves_weaken) (auto simp: talking_def)

lemma achieves_send_byte:
  assumes E: "compliant base d0 E" and "held_out d = None"
  shows "achieves (talking base d0 k0 (B + 100) d) (send_byte E b) (\<lambda>_. talking base d0 k0 B (accept b d))"
proof -
  have out: "achieves (talking base d0 k0 B d)
      (\<lambda>k. case add_offset Fifo k of Inl e \<Rightarrow> throw (InitStatic e) k | Inr p \<Rightarrow> ok () (disable_motor (writeb p b k)))
      (\<lambda>_. talking base d0 k0 B (accept b d))" (is "achieves ?P ?out ?Q")
    unfolding achieves_def
  proof (intro allI impI)
    fix k assume k: "?P k"
    let ?k = "k\<lparr>io_log := Out (5 + base) b # Out 0x80 0 # io_log k\<rparr>"
    have "talking base d0 k0 B (accept b d) ?k"
      using talking_dev [OF k] foreign_enabled [OF foreign_delay [OF E] talking_enabled [OF k]]
      by (intro talking_log [OF k]) (simp_all only: after_Fifo after_foreign [OF foreign_delay [OF E]] enabled_Fifo)
    then show "\<exists>a k'. ?out k = Done (Ok a, k') \<and> ?Q a k'"
      using talking_port [OF k, of Fifo] talking_motor(2) by (simp add: writeb_eq ok_def)
  qed
  let ?body = "\<lambda>n start. try_then (map_err InitStatic (enable_motor E)) (\<lambda>_. try_then (map_err InitStatic (msr E))
    (\<lambda>m. if rqm_dio m = 0b10 then ?out else send_byte_loop E n start b))"
  have "achieves (talking base d0 k0 (B + 60) d) (?body n start) ?Q" for n start
    by (rule achieves_try_then [OF achieves_map_err [OF achieves_enable_motor [OF E]]],
        rule achieves_try_then [OF achieves_map_err [OF achieves_msr [OF E]]])
      (use out assms(2) in \<open>auto simp: achieves_def\<close>)
  from achieves_timed [where loop = "\<lambda>n t. send_byte_loop E n t b" and m' = ?body, OF E send_byte_loop.simps(2) this] show ?thesis
    unfolding send_byte_def [abs_def] .
qed

lemma achieves_read_byte:
  assumes E: "compliant base d0 E" and b: "held_out d = Some b"
  shows "achieves (talking base d0 k0 (B + 100) d) (read_byte E) (\<lambda>v k. v = b \<and> talking base d0 k0 B (consume d) k)"
proof -
  have inp: "achieves (talking base d0 k0 B d)
      (\<lambda>k. let k = disable_motor k
           in case add_offset Fifo k of Inl e \<Rightarrow> throw (InitStatic e) k | Inr p \<Rightarrow> (let (v, k) = readb E p k in ok v k))
      (\<lambda>v k. v = b \<and> talking base d0 k0 B (consume d) k)" (is "achieves ?P ?inp ?Q")
    unfolding achieves_def
  proof (intro allI impI)
    fix k assume k0: "?P k"
    let ?k1 = "disable_motor k"
    note k = talking_motor(2) [OF k0] and delay = after_foreign [OF foreign_delay [OF E]]
    note on = foreign_enabled [OF foreign_delay [OF E] talking_enabled [OF k]]
    have v: "port_in E (Out 0x80 0 # io_log ?k1) (5 + base) = b"
      using E b delay on talking_dev [OF k] by (simp add: compliant_def del: after.simps)
    have "talking base d0 k0 B (consume d) (?k1\<lparr>io_log := Inp (5 + base) b # Out 0x80 0 # io_log ?k1\<rparr>)"
      using talking_dev [OF k] on by (intro talking_log [OF k]) (simp_all only: after_Fifo delay enabled_Fifo)
    then show "\<exists>a k'. ?inp k = Done (Ok a, k') \<and> ?Q a k'"
      using talking_port [OF k, of Fifo] v by (simp add: readb_eq ok_def Let_def)
  qed
  let ?body = "\<lambda>n start. try_then (map_err InitStatic (enable_motor E)) (\<lambda>_. try_then (map_err InitStatic (msr E))
    (\<lambda>m. if rqm_dio m = 0b11 then ?inp else read_byte_loop E n start))"
  have "achieves (talking base d0 k0 (B + 60) d) (?body n start) ?Q" for n start
    by (rule achieves_try_then [OF achieves_map_err [OF achieves_enable_motor [OF E]]],
        rule achieves_try_then [OF achieves_map_err [OF achieves_msr [OF E]]])
      (use inp b in \<open>auto simp: achieves_def\<close>)
  from achieves_timed [where loop = "read_byte_loop E" and m' = ?body, OF E read_byte_loop.simps(2) this] show ?thesis
    unfolding read_byte_def [abs_def] .
qed

section \<open>Commands\<close>

text \<open>While a command is incomplete, the controller collects its bytes.\<close>

definition awaiting :: "bytes \<Rightarrow> device \<Rightarrow> device" where
  "awaiting bs d = d\<lparr>phase := Command bs\<rparr>"

lemma held_out_awaiting [simp]: "held_out (awaiting bs d) = None"
  by (simp add: held_out_def awaiting_def)

lemma accept_awaiting:
  "length bs + 1 < cmd_length (hd (bs @ [v])) \<Longrightarrow> accept v (awaiting bs d) = awaiting (bs @ [v]) d"
  "length bs + 1 = cmd_length (hd (bs @ [v])) \<Longrightarrow> accept v (awaiting bs d) = execute (bs @ [v]) d"
  by (simp_all add: accept_def awaiting_def execute_def Let_def split: list.split)

lemma achieves_send_params:
  assumes E: "compliant base d0 E"
  shows "bs \<noteq> [] \<Longrightarrow> params \<noteq> [] \<Longrightarrow> length bs + length params = cmd_length (hd bs) \<Longrightarrow>
    achieves (talking base d0 k0 (B + 100 * length params) (awaiting bs d)) (send_params E idx params)
      (\<lambda>_. talking base d0 k0 B (execute (bs @ params) d))"
proof (induction params arbitrary: bs idx)
  case (Cons p ps)
  have hd: "hd (bs @ [p]) = hd bs" using Cons.prems(1) by simp
  let ?next = "if ps = [] then execute (bs @ [p]) d else awaiting (bs @ [p]) d"
  let ?B = "B + 100 * length ps"
  have "accept p (awaiting bs d) = ?next"
    using Cons.prems accept_awaiting [of bs p d] hd by (cases ps) auto
  then have byte: "achieves (talking base d0 k0 (?B + 100) (awaiting bs d)) (send_byte E p) (\<lambda>_. talking base d0 k0 ?B ?next)"
    using achieves_send_byte [OF E, of "awaiting bs d" k0 ?B p] by simp
  have rest: "achieves (talking base d0 k0 ?B ?next) (send_params E (idx + 1) ps)
      (\<lambda>_. talking base d0 k0 B (execute (bs @ p # ps) d))"
  proof (cases ps)
    case Nil
    then show ?thesis by (simp add: achieves_def ok_def)
  next
    case (Cons q qs)
    then show ?thesis using Cons.IH [of "bs @ [p]" "idx + 1"] Cons.prems hd by (simp del: send_params.simps)
  qed
  show ?case
    unfolding ext [where f = "send_params E idx (p # ps)", OF send_params.simps(2)]
    by (rule achieves_budget [OF achieves_match_res [OF byte rest]]) simp
qed simp

text \<open>The controller takes the command at the first attempt, so the reset \<open>rst\<close> of the retries does not matter.\<close>

lemma achieves_send_command_loop:
  assumes E: "compliant base d0 E" and len: "1 + length params = cmd_length (command_code cmd)"
  shows "achieves (talking base d0 k0 (B + 100 * (1 + length params)) (awaiting [] d)) (send_command_loop E rst (Suc n) err (command_code cmd) params)
    (\<lambda>_. talking base d0 k0 B (execute (command_code cmd # params) d))"
proof -
  let ?next = "if params = [] then execute [command_code cmd] d else awaiting [command_code cmd] d"
  let ?B = "B + 100 * length params"
  have "accept (command_code cmd) (awaiting [] d) = ?next"
    using len accept_awaiting [of "[]" "command_code cmd" d] by (cases params) auto
  then have byte: "achieves (talking base d0 k0 (?B + 100) (awaiting [] d)) (send_byte E (command_code cmd)) (\<lambda>_. talking base d0 k0 ?B ?next)"
    using achieves_send_byte [OF E, of "awaiting [] d" k0 ?B "command_code cmd"] by simp
  have rest: "achieves (talking base d0 k0 ?B ?next) (send_params E 0 params)
      (\<lambda>_. talking base d0 k0 B (execute (command_code cmd # params) d))"
  proof (cases params)
    case Nil
    then show ?thesis by (simp add: achieves_def ok_def)
  next
    case (Cons q qs)
    then show ?thesis using achieves_send_params [OF E, of "[command_code cmd]" params] len by (simp del: send_params.simps)
  qed
  show ?thesis
    unfolding ext [where f = "send_command_loop E rst (Suc n) err c ps" for c ps, OF send_command_loop.simps(2)]
    by (rule achieves_budget, rule achieves_match_res [OF byte], rule achieves_match_res [OF rest]) (simp_all add: achieves_ok)
qed

lemma achieves_send_command_with:
  assumes "compliant base d0 E" and "1 + length params = cmd_length (command_code cmd)"
  shows "achieves (talking base d0 k0 (B + 100 * (1 + length params)) (awaiting [] d)) (send_command_with E rst cmd params)
    (\<lambda>_. talking base d0 k0 B (execute (command_code cmd # params) d))"
  unfolding send_command_with_def RETRIES_def numeral_eq_Suc [of "num.Bit1 (num.Bit0 num.One)"]
  by (rule achieves_send_command_loop [OF assms])

lemmas achieves_send_command = achieves_send_command_with [where rst = "init_fdc E" and E = E for E, folded send_command_def [THEN fun_cong, THEN fun_cong]]

section \<open>Seeking\<close>

lemma execute_simps:
  "pending d = st # rest \<Longrightarrow> execute [8] d = d\<lparr>phase := Result [st, pcn d], pending := rest\<rparr>"
  "execute [7, drv] d = awaiting [] (d\<lparr>pcn := 0, pending := [0x20 OR (drv AND 3)]\<rparr>)"
  "execute [15, drv, c] d = awaiting [] (d\<lparr>pcn := c, pending := [0x20 OR (drv AND 3)]\<rparr>)"
  by (simp_all add: execute_def awaiting_def Let_def)

lemma consume_Result:
  "held_out (d\<lparr>phase := Result (b # bs)\<rparr>) = Some b"
  "consume (d\<lparr>phase := Result [b]\<rparr>) = awaiting [] d"
  "consume (d\<lparr>phase := Result (b # b' # bs)\<rparr>) = d\<lparr>phase := Result (b' # bs)\<rparr>"
  by (simp_all add: held_out_def consume_def awaiting_def)

abbreviation drive_num :: "'a kbd_scheme \<Rightarrow> u8" where
  "drive_num k \<equiv> (if DRIVE_ONE k then 1 else 0)"

lemma talking_drive: "talking base d0 k0 B d k \<Longrightarrow> DRIVE_ONE k = DRIVE_ONE k0"
  by (simp add: talking_def undisturbed_def)

lemma achieves_pointwise: "achieves P m' Q \<Longrightarrow> (\<And>s. P s \<Longrightarrow> m s = m' s) \<Longrightarrow> achieves P m Q"
  by (auto simp: achieves_def)

lemma achieves_read_Result:
  assumes E: "compliant base d0 E"
  shows "achieves (talking base d0 k0 (B + 100) (d\<lparr>phase := Result (b # b' # bs)\<rparr>)) (read_byte E)
      (\<lambda>v k. v = b \<and> talking base d0 k0 B (d\<lparr>phase := Result (b' # bs)\<rparr>) k)"
    and "achieves (talking base d0 k0 (B + 100) (d\<lparr>phase := Result [b]\<rparr>)) (read_byte E) (\<lambda>v k. v = b \<and> talking base d0 k0 B (awaiting [] d) k)"
  using achieves_read_byte [OF E consume_Result(1)] by (metis consume_Result(3), metis consume_Result(2))

text \<open>A conjunct of the postcondition that does not speak of the state is a fact for the continuation.\<close>

lemma achieves_try_then_val:
  assumes "achieves P m (\<lambda>v s. v = c \<and> R s)" and "achieves R (f c) Q"
  shows "achieves P (try_then m f) Q"
  by (rule achieves_try_then [OF assms(1)]) (use assms(2) in \<open>auto simp: achieves_def\<close>)

text \<open>Sensing an interrupt takes the oldest pending status; the caller accepts it if it is the one it waits for.\<close>

definition sensed :: "sense_int_state \<Rightarrow> 'a kbd_scheme \<Rightarrow> u8 \<Rightarrow> bool" where
  "sensed state k st \<longleftrightarrow>
     (case state of
        SeekOrRecal \<Rightarrow> st = 0x20 OR drive_num k
      | FirstReset \<Rightarrow> st = 0xC0 OR drive_num k
      | OtherReset \<Rightarrow> st \<noteq> 0x80)"

lemma achieves_sense_int_with:
  assumes E: "compliant base d0 E" and st: "pending d = st # rest" "sensed state k0 st"
  shows "achieves (talking base d0 k0 (B + 300) (awaiting [] d)) (sense_int_with E rst state)
    (\<lambda>_. talking base d0 k0 B (awaiting [] (d\<lparr>pending := rest\<rparr>)))"
proof -
  let ?d = "d\<lparr>pending := rest\<rparr>"
  have "accept 8 (awaiting [] d) = execute [8] d"
    using accept_awaiting(2) [of "[]" 8 d] by (simp add: cmd_length_def)
  also have "\<dots> = ?d\<lparr>phase := Result [st, pcn d]\<rparr>" by (simp add: execute_simps(1) [OF st(1)])
  finally have cmd: "achieves (talking base d0 k0 (B + 200 + 100) (awaiting [] d)) (send_byte E (command_code CmdSenseInterrupt))
      (\<lambda>_. talking base d0 k0 (B + 200) (?d\<lparr>phase := Result [st, pcn d]\<rparr>))"
    using achieves_send_byte [OF E, of "awaiting [] d" k0 "B + 200" 8] by simp
  show ?thesis
    unfolding sense_int_with_def
    by (rule achieves_budget, rule achieves_try_then [OF cmd], rule achieves_budget,
        rule achieves_try_then_val [OF achieves_read_Result(1) [OF E]],
        rule achieves_try_then_val [OF achieves_read_Result(2) [OF E, where B = B]])
      (use st(2) in \<open>auto simp: achieves_def ok_def Let_def talking_drive sensed_def ST0_ERR_OR_RESET_def split: sense_int_state.splits if_splits\<close>)
qed

definition seek_target :: "u8 option \<Rightarrow> u8" where
  "seek_target cyl = (case cyl of None \<Rightarrow> 0 | Some c \<Rightarrow> c)"

text \<open>From any state \<open>P\<close> whose first command, resets included, gets through.\<close>

lemma achieves_seek_from:
  assumes E: "compliant base d0 E"
    and drive: "\<And>k. P k \<Longrightarrow> DRIVE_ONE k = DRIVE_ONE k0"
    and cmd: "achieves P (case cyl of Some c \<Rightarrow> send_command E CmdSeek [drive_num k0, c] | None \<Rightarrow> send_command E Recalibrate [drive_num k0])
      (\<lambda>_. talking base d0 k0 (B + 300) (awaiting [] (d\<lparr>pcn := seek_target cyl, pending := [0x20 OR drive_num k0]\<rparr>)))"
  shows "achieves P (seek E cyl) (\<lambda>_. talking base d0 k0 B (awaiting [] (d\<lparr>pcn := seek_target cyl, pending := []\<rparr>)))"
proof -
  let ?d = "d\<lparr>pcn := seek_target cyl, pending := [0x20 OR drive_num k0]\<rparr>"
  let ?e = "d\<lparr>pcn := seek_target cyl, pending := []\<rparr>"
  have cmd: "achieves P
      (\<lambda>k. let drive = (if DRIVE_ONE k then 1 else 0)
           in map_err SendCommand (case cyl of Some c \<Rightarrow> send_command E CmdSeek [drive, c] | None \<Rightarrow> send_command E Recalibrate [drive]) k)
      (\<lambda>_. talking base d0 k0 (B + 300) (awaiting [] ?d))"
    by (rule achieves_pointwise [OF achieves_map_err [OF cmd, where g = SendCommand]]) (simp add: drive)
  have sense: "achieves (talking base d0 k0 (B + 300) (awaiting [] ?d)) (sense_int E SeekOrRecal) (\<lambda>_. talking base d0 k0 B (awaiting [] ?e))"
    using achieves_sense_int_with [OF E, where d = ?d and st = "0x20 OR drive_num k0" and rest = "[]" and state = SeekOrRecal
        and ?k0.0 = k0 and B = B and rst = "init_fdc E"]
    by (simp add: sensed_def sense_int_def [THEN fun_cong, symmetric])
  show ?thesis
    unfolding seek_def RETRIES_def numeral_eq_Suc [of "num.Bit1 (num.Bit0 num.One)"] pred_numeral_simps
      ext [where f = "seek_loop E (Suc n) ret cyl" for n ret, OF seek_loop.simps(2)]
    by (rule achieves_try_then [OF cmd], rule achieves_match_res [OF sense]) (simp add: achieves_ok)
qed

lemma achieves_seek:
  assumes E: "compliant base d0 E"
  shows "achieves (talking base d0 k0 (B + 600) (awaiting [] d)) (seek E cyl)
    (\<lambda>_. talking base d0 k0 B (awaiting [] (d\<lparr>pcn := seek_target cyl, pending := []\<rparr>)))"
proof (rule achieves_seek_from [OF E talking_drive])
  have drv: "drive_num k0 AND 3 = drive_num k0" by simp
  show "achieves (talking base d0 k0 (B + 600) (awaiting [] d))
      (case cyl of Some c \<Rightarrow> send_command E CmdSeek [drive_num k0, c] | None \<Rightarrow> send_command E Recalibrate [drive_num k0])
      (\<lambda>_. talking base d0 k0 (B + 300) (awaiting [] (d\<lparr>pcn := seek_target cyl, pending := [0x20 OR drive_num k0]\<rparr>)))"
  proof (cases cyl)
    case None
    then show ?thesis
      using achieves_budget [OF achieves_send_command [OF E, where params = "[drive_num k0]" and cmd = Recalibrate and ?k0.0 = k0 and B = "B + 300" and d = d], of "B + 600"] drv
      by (simp add: cmd_length_def execute_simps seek_target_def)
  next
    case (Some c)
    then show ?thesis
      using achieves_budget [OF achieves_send_command [OF E, where params = "[drive_num k0, c]" and cmd = CmdSeek and ?k0.0 = k0 and B = "B + 300" and d = d], of "B + 600"] drv
      by (simp add: cmd_length_def execute_simps seek_target_def)
  qed
qed

text \<open>
  States from which recalibrating brings the controller, with the medium of \<open>d\<close>, to rest over the first cylinder, with a budget of \<open>B\<close> left. A transfer
  starts with it, so the lemmas on transfers hold from all of them.
\<close>

definition homes :: "u16 \<Rightarrow> device \<Rightarrow> env \<Rightarrow> 'a kbd_scheme \<Rightarrow> nat \<Rightarrow> device \<Rightarrow> ('a kbd_scheme \<Rightarrow> bool) \<Rightarrow> bool" where
  "homes base d0 E k0 B d P \<longleftrightarrow>
     achieves P (seek E None) (\<lambda>_. talking base d0 k0 B (awaiting [] (d\<lparr>pcn := 0, pending := []\<rparr>)))
     \<and> (\<forall>k. P k \<longrightarrow> FLOPPY_INIT k = FLOPPY_INIT k0 \<and> DRIVE_ONE k = DRIVE_ONE k0)"

lemma homes_ready:
  "compliant base d0 E \<Longrightarrow> B + 600 \<le> B' \<Longrightarrow> homes base d0 E k0 B d (talking base d0 k0 B' (awaiting [] d))"
  using achieves_budget [OF achieves_seek [where ?k0.0 = k0 and B = B and d = d and cyl = None], where B' = B']
  by (auto simp: homes_def seek_target_def talking_def undisturbed_def)

section \<open>Transfers\<close>

text \<open>The parameters of a transfer from sector \<open>s\<close> to sector \<open>e\<close> of a track, and what they make the controller do.\<close>

definition rw_params :: "u8 \<Rightarrow> u8 \<Rightarrow> u8 \<Rightarrow> u8 \<Rightarrow> u8 \<Rightarrow> bytes" where
  "rw_params drv h c s e = [drv OR push_bit 2 h, c, h, s, BYTES_PER_SECTOR, e, 0x1B, 0xFF]"

definition rw_result :: "u8 \<Rightarrow> u8 \<Rightarrow> u8 \<Rightarrow> u8 \<Rightarrow> bytes" where
  "rw_result drv h c s = [(drv OR push_bit 2 h) AND 7, 0, 0, c, h, s, BYTES_PER_SECTOR]"

lemma execute_transfer:
  assumes "pcn d = c" and "unat s \<le> unat e"
  shows "execute (0x46 # rw_params drv h c s e) d
      = d\<lparr>phase := Reading (sectors_of (medium d) (chs_lba c h s) (unat e + 1 - unat s)) (rw_result drv h c s)\<rparr>"
    and "execute (0x45 # rw_params drv h c s e) d
      = d\<lparr>phase := Writing (chs_lba c h s) (512 * (unat e + 1 - unat s)) [] (rw_result drv h c s)\<rparr>"
  using assms by (simp_all add: execute_def rw_params_def rw_result_def Let_def)

lemma achieves_send_rw_loop:
  assumes E: "compliant base d0 E" and P: "homes base d0 E k0 (B + 1600) d P"
    and "cmd = ReadDataWithFlags \<or> cmd = WriteDataWithFlags" and "length params = 8"
  shows "achieves P (send_rw_loop E (Suc n) cmd params c)
    (\<lambda>_. talking base d0 k0 B (execute (command_code cmd # params) (d\<lparr>pcn := c, pending := []\<rparr>)))"
proof -
  let ?home = "d\<lparr>pcn := 0, pending := []\<rparr>"
  let ?d = "d\<lparr>pcn := c, pending := []\<rparr>"
  have recal: "achieves P (seek E None) (\<lambda>_. talking base d0 k0 (B + 1600) (awaiting [] ?home))"
    using P by (simp add: homes_def)
  have seek: "achieves (talking base d0 k0 (B + 1000 + 600) (awaiting [] ?home)) (seek E (Some c)) (\<lambda>_. talking base d0 k0 (B + 1000) (awaiting [] ?d))"
    using achieves_seek [OF E, of k0 "B + 1000" ?home "Some c"] by (simp add: seek_target_def)
  have "1 + length params = cmd_length (command_code cmd)"
    using assms(3,4) by (auto simp: cmd_length_def MFM_BIT_def)
  from achieves_send_command [OF E this, where ?k0.0 = k0 and B = B and d = ?d]
  have cmd: "achieves (talking base d0 k0 (B + 900) (awaiting [] ?d)) (send_command E cmd params)
      (\<lambda>_. talking base d0 k0 B (execute (command_code cmd # params) ?d))" using assms(4) by simp
  show ?thesis
    unfolding ext [where f = "send_rw_loop E (Suc n) cmd params c", OF send_rw_loop.simps(2)]
    by (rule achieves_try_then [OF recal], rule achieves_budget, rule achieves_try_then [OF seek],
        rule achieves_budget, rule achieves_try_then [OF achieves_wait_for_rqm [OF E]], rule achieves_match_res [OF cmd])
      (simp_all add: achieves_ok)
qed

text \<open>A controller sending a sector's bytes.\<close>

definition sending :: "bytes \<Rightarrow> bytes \<Rightarrow> device \<Rightarrow> device" where
  "sending bs res d = (if bs = [] then d\<lparr>phase := Result res\<rparr> else d\<lparr>phase := Reading bs res\<rparr>)"

lemma sending_nonempty: "0 < length bs \<Longrightarrow> sending bs res d = d\<lparr>phase := Reading bs res\<rparr>"
  by (auto simp: sending_def)

lemma sending_Cons:
  "held_out (sending (b # bs) res d) = Some b"
  "consume (sending (b # bs) res d) = sending bs res d"
  by (cases bs) (simp_all add: sending_def held_out_def consume_def)

lemma achieves_read_data:
  assumes E: "compliant base d0 E"
  shows "achieves (talking base d0 k0 (B + 200 * length bs) (sending bs res d)) (read_data E (length bs) acc)
    (\<lambda>r k. r = Inr (acc @ bs) \<and> talking base d0 k0 B (d\<lparr>phase := Result res\<rparr>) k)"
proof (induction bs arbitrary: acc)
  case Nil
  then show ?case by (simp add: achieves_def ok_def sending_def)
next
  case (Cons b bs)
  let ?B = "B + 200 * length bs"
  have byte: "achieves (talking base d0 k0 (?B + 100) (sending (b # bs) res d)) (read_byte E)
      (\<lambda>v k. v = b \<and> talking base d0 k0 ?B (sending bs res d) k)"
    using achieves_read_byte [OF E sending_Cons(1)] sending_Cons(2) by metis
  have rest: "achieves (\<lambda>k. v = b \<and> talking base d0 k0 ?B (sending bs res d) k) (read_data E (length bs) (acc @ [v]))
      (\<lambda>r k. r = Inr (acc @ b # bs) \<and> talking base d0 k0 B (d\<lparr>phase := Result res\<rparr>) k)" for v
    using Cons.IH [of "acc @ [b]"] by (auto simp: achieves_def)
  show ?case
    unfolding list.size(4) Nat.add_Suc_right add_0_right
      ext [where f = "read_data E (Suc (length bs)) acc", OF read_data.simps(2)]
    by (rule achieves_budget, rule achieves_try_then [OF achieves_wait_for_rqm [OF E]], rule achieves_match_res [OF byte rest]) simp
qed

lemma status_ok: "status_verdict (x AND 7) 0 0 = Ok ()"
proof -
  have "x AND 7 = take_bit 3 x" by (simp add: take_bit_eq_mask mask_eq_exp_minus_1)
  then have no: "\<not> bit (x AND 7) n" if "3 \<le> n" for n using that by (simp add: bit_take_bit_iff)
  show ?thesis
    unfolding status_verdict_def ST0_ERR_OR_RESET_def or_bit_same or_c0_same by (simp add: no)
qed

lemma achieves_read_write_status:
  assumes E: "compliant base d0 E"
  shows "achieves (talking base d0 k0 (B + 800) (d\<lparr>phase := Result (rw_result drv h c s)\<rparr>)) (read_write_status E)
    (\<lambda>_. talking base d0 k0 B (awaiting [] d))"
proof -
  note rd = achieves_try_then_val [OF achieves_read_Result(1) [OF E]] achieves_try_then_val [OF achieves_read_Result(2) [OF E]]
  have verdict: "achieves (talking base d0 k0 B (awaiting [] d)) (\<lambda>k. Done (status_verdict (x AND 7) 0 0, k))
      (\<lambda>_. talking base d0 k0 B (awaiting [] d))" for x
    by (simp add: achieves_def status_ok)
  show ?thesis
    unfolding read_write_status_def rw_result_def
    by (rule achieves_budget, rule achieves_try_then [OF achieves_wait_for_rqm [OF E]], (rule rd)+, rule verdict) simp
qed

text \<open>The addresses of a run of sectors that stays on one track.\<close>

lemma track_addresses:
  assumes "unat lba + n \<le> 2880" and "0 < n" and "unat lba mod 18 + n \<le> 18"
    and "lba_to_chs lba = (h, c, s)" and "lba_to_chs (lba + of_nat n - 1) = (h', c', e)"
  shows "chs_lba c h s = unat lba" "h' = h" "c' = c" "c < 80" "unat s \<le> unat e" "s \<le> 18" "s \<noteq> 0" "unat e + 1 - unat s = n"
proof -
  have "of_nat n - 1 = (of_nat (n - 1) :: u16)" using assms(2) by (simp add: of_nat_diff)
  then have eq: "lba + of_nat n - 1 = lba + of_nat (n - 1)" by (metis add_diff_eq)
  have "unat (lba + of_nat n - 1) = (unat lba + (n - 1)) mod 65536"
    unfolding eq by (simp add: unat_word_ariths unsigned_of_nat take_bit_eq_mod mod_simps)
  then have last: "unat (lba + of_nat n - 1) = unat lba + (n - 1)" using assms(1,2) by simp
  note a = lba_to_chs_nat [OF assms(4)] and b = lba_to_chs_nat [OF assms(5), unfolded last]
  have m36: "unat lba mod 36 = unat lba mod 36 div 18 * 18 + unat lba mod 18"
    using div_mult_mod_eq [of "unat lba mod 36" 18] by (simp add: mod_mod_cancel)
  moreover have "unat lba mod 36 div 18 < 2" by (simp add: less_mult_imp_div_less)
  ultimately have fits: "unat lba mod 36 + (n - 1) < 36" using assms(2,3) by linarith
  have track: "(unat lba + (n - 1)) div 36 = unat lba div 36" "(unat lba + (n - 1)) mod 36 = unat lba mod 36 + (n - 1)"
    using fits div_add1_eq [of "unat lba" "n - 1" 36] mod_add_eq [of "unat lba" 36 "n - 1"] by simp_all
  have "unat lba mod 36 + (n - 1) = unat lba mod 18 + (n - 1) + unat lba mod 36 div 18 * 18" using m36 by linarith
  then have "(unat lba + (n - 1)) mod 36 div 18 = unat lba mod 36 div 18"
    unfolding track using assms(2,3) by (simp only: div_mult_self1) simp
  then have h: "unat h' = unat h" unfolding a(1) b(1) .
  have "unat lba div 36 < 80" using assms(1,2) by (intro less_mult_imp_div_less) simp
  then have c: "unat c' = unat c" "unat c = unat lba div 36" "unat c < 80" unfolding a(2) b(2) track(1) by simp_all
  have "(unat lba + (n - 1)) mod 18 = unat lba mod 18 + (n - 1)"
    using assms(2,3) by (subst mod_add_left_eq [symmetric], intro mod_less) linarith
  then have "unat e = unat s + (n - 1)" unfolding a(3) b(3) by simp
  note nums = h c(1) this c(3) c(2)
  show "h' = h" "c' = c" using h c(1) by (simp_all add: unsigned_word_eqI)
  show "unat s \<le> unat e" "unat e + 1 - unat s = n" using nums(3) assms(2) by simp_all
  show "c < 80" "s \<le> 18" "s \<noteq> 0"
    using nums(4) a(3) mod_less_divisor [of 18 "unat lba"] by (auto simp: word_less_nat_alt word_le_nat_alt)
  have "unat lba = unat lba div 36 * 36 + unat lba mod 36" by simp
  then have "unat lba = unat lba div 36 * 36 + (unat lba mod 36 div 18 * 18 + unat lba mod 18)" using m36 by linarith
  then show "chs_lba c h s = unat lba" unfolding chs_lba_def a(1,3) c(2) by (simp add: algebra_simps)
qed

lemma talking_init: "talking base d0 k0 B d k \<Longrightarrow> FLOPPY_INIT k = FLOPPY_INIT k0"
  by (simp add: talking_def undisturbed_def)

lemma achieves_send_read_write:
  assumes E: "compliant base d0 E" and "FLOPPY_INIT k0" and P: "homes base d0 E k0 (B + 1600) d P"
    and addr: "unat lba + n \<le> 2880" "0 < n" "unat lba mod 18 + n \<le> 18"
  shows "\<exists>res drv h c s. res = rw_result drv h c s \<and>
    achieves P (send_read_write E rd lba (of_nat n))
      (\<lambda>_. talking base d0 k0 B ((d\<lparr>pcn := c, pending := []\<rparr>)\<lparr>phase :=
         if rd then Reading (sectors_of (medium d) (unat lba) n) res else Writing (unat lba) (512 * n) [] res\<rparr>))"
proof -
  obtain h c s h' c' e where first: "lba_to_chs lba = (h, c, s)" and last: "lba_to_chs (lba + of_nat n - 1) = (h', c', e)"
    by (cases "lba_to_chs lba", cases "lba_to_chs (lba + of_nat n - 1)") auto
  note t = track_addresses [OF addr first last]
  let ?cmd = "if rd then ReadDataWithFlags else WriteDataWithFlags"
  let ?params = "rw_params (drive_num k0) h c s e"
  let ?d = "d\<lparr>pcn := c, pending := []\<rparr>"
  let ?res = "rw_result (drive_num k0) h c s"
  have run: "send_read_write E rd lba (of_nat n) k = send_rw_loop E SEEK_RETRIES ?cmd ?params c k" if "P k" for k
  proof -
    have "FLOPPY_INIT k" "DRIVE_ONE k = DRIVE_ONE k0" using P that assms(2) by (simp_all add: homes_def)
    note same = this
    have "\<not> ucast CYLINDERS \<le> c" "\<not> (ucast SECTORS < s \<or> s = 0 \<or> h \<noteq> h \<or> c \<noteq> c)"
      using t(4,6,7) by (simp_all add: geometry_defs not_le not_less)
    then show ?thesis
      unfolding send_read_write_def Let_def first last t(2,3) prod.case rw_params_def
      using same by (simp only: if_False not_True_eq_False)
  qed
  have ex: "execute (command_code ?cmd # ?params) ?d = ?d\<lparr>phase :=
      if rd then Reading (sectors_of (medium d) (unat lba) n) ?res else Writing (unat lba) (512 * n) [] ?res\<rparr>"
    using execute_transfer [of ?d c s e "drive_num k0" h] t by (simp add: MFM_BIT_def)
  have "achieves P (send_rw_loop E SEEK_RETRIES ?cmd ?params c)
      (\<lambda>_. talking base d0 k0 B (execute (command_code ?cmd # ?params) ?d))"
    unfolding SEEK_RETRIES_def numeral_eq_Suc [of "num.Bit1 (num.Bit0 num.One)"] by (rule achieves_send_rw_loop [OF E P]) (simp_all add: rw_params_def)
  from achieves_pointwise [OF this [unfolded ex] run] show ?thesis by blast
qed

lemma length_sectors_of:
  "\<forall>i < 2880. length (m i) = 512 \<Longrightarrow> first + n \<le> 2880 \<Longrightarrow> length (sectors_of m first n) = 512 * n"
  unfolding sectors_of_def by (induction n) auto


text \<open>Counting the bytes ends a transfer; the counter is the one field of the frame that it changes.\<close>

lemma achieves_count_read:
  "achieves (talking base d0 k0 B d) (\<lambda>k. let k = disable_motor k in ok buf (k\<lparr>READ_BYTES := READ_BYTES k + x\<rparr>))
     (\<lambda>r k. r = buf \<and> talking base d0 (k0\<lparr>READ_BYTES := READ_BYTES k0 + x\<rparr>) B d k)"
  by (simp add: achieves_def talking_def ok_def disable_motor_def Let_def base_known_def undisturbed_def)

lemma achieves_count_written:
  "achieves (talking base d0 k0 B d) (\<lambda>k. let k = disable_motor k in ok () (k\<lparr>WRITTEN_BYTES := WRITTEN_BYTES k + x\<rparr>))
     (\<lambda>_. talking base d0 (k0\<lparr>WRITTEN_BYTES := WRITTEN_BYTES k0 + x\<rparr>) B d)"
  by (simp add: achieves_def talking_def ok_def disable_motor_def Let_def base_known_def undisturbed_def)

lemma achieves_disk_read_retry:
  assumes E: "compliant base d0 E" and "FLOPPY_INIT k0" and m: "\<forall>i < 2880. length (medium d i) = 512"
    and P: "homes base d0 E k0 (B + 2400 + 102400 * n) d P"
    and addr: "unat lba + n \<le> 2880" "0 < n" "unat lba mod 18 + n \<le> 18"
  shows "achieves P (disk_read_retry E (Suc r) err lba (of_nat n) (512 * n))
    (\<lambda>bs k. bs = sectors_of (medium d) (unat lba) n \<and>
       (\<exists>d'. talking base d0 (k0\<lparr>READ_BYTES := READ_BYTES k0 + of_nat (512 * n)\<rparr>) B d' k \<and> phase d' = Command [] \<and> medium d' = medium d))"
proof -
  let ?data = "sectors_of (medium d) (unat lba) n" and ?B = "B + 800 + 200 * (512 * n)"
  have len: "length ?data = 512 * n" by (rule length_sectors_of [OF m addr(1)])
  have P': "homes base d0 E k0 (?B + 1600) d P" using P by (simp add: algebra_simps)
  obtain drv h c s where cmd: "achieves P (send_read_write E True lba (of_nat n))
      (\<lambda>_. talking base d0 k0 ?B ((d\<lparr>pcn := c, pending := []\<rparr>)\<lparr>phase := Reading ?data (rw_result drv h c s)\<rparr>))"
    using achieves_send_read_write [OF E assms(2) P' addr, of True] by auto
  let ?d = "d\<lparr>pcn := c, pending := []\<rparr>"
  have data: "achieves (talking base d0 k0 ?B (?d\<lparr>phase := Reading ?data (rw_result drv h c s)\<rparr>)) (read_data E (512 * n) [])
      (\<lambda>r k. r = Inr ?data \<and> talking base d0 k0 (B + 800) (?d\<lparr>phase := Result (rw_result drv h c s)\<rparr>) k)"
    using achieves_read_data [OF E, of k0 "B + 800" ?data "rw_result drv h c s" ?d "[]"] len addr(2)
    by (simp add: sending_nonempty)
  have count: "achieves (talking base d0 k0 B (awaiting [] ?d))
      (\<lambda>k. let k = disable_motor k in ok ?data (k\<lparr>READ_BYTES := READ_BYTES k + of_nat (512 * n)\<rparr>))
      (\<lambda>bs k. bs = ?data \<and> (\<exists>d'. talking base d0 (k0\<lparr>READ_BYTES := READ_BYTES k0 + of_nat (512 * n)\<rparr>) B d' k
         \<and> phase d' = Command [] \<and> medium d' = medium d))"
    by (rule achieves_weaken [OF achieves_count_read]) (auto simp: awaiting_def intro!: exI)
  show ?thesis
    unfolding ext [where f = "disk_read_retry E (Suc r) err lba (of_nat n) (512 * n)", OF disk_read_retry.simps(2)]
    by (rule achieves_match_res [OF cmd], rule achieves_try_then_val [OF data], unfold sum.case,
        rule achieves_try_then [OF achieves_read_write_status [OF E]], rule count)
qed

text \<open>The driver at rest, with the controller waiting for a command and interrupts enabled; the motor may be off.\<close>

definition at_rest :: "u16 \<Rightarrow> device \<Rightarrow> device \<Rightarrow> 'a kbd_scheme \<Rightarrow> bool" where
  "at_rest base d0 d k \<longleftrightarrow> base_known base k \<and> FLOPPY_INIT k \<and> ints_on k
     \<and> enabled base (io_log k) \<and> after base d0 (io_log k) = d \<and> phase d = Command [] \<and> (\<forall>i < 2880. length (medium d i) = 512)"

lemma at_rest_talking: "at_rest base d0 d k \<Longrightarrow> unat (TIME k) + B < 2 ^ 64 \<Longrightarrow> talking base d0 k B (awaiting [] d) k"
  by (simp add: at_rest_def talking_def awaiting_def)

lemma ucast_sector: "unat (ptr :: u64) < 65536 \<Longrightarrow> unat (ucast ptr :: u16) = unat ptr"
  by (simp add: unsigned_ucast_eq take_bit_nat_eq_self)

text \<open>The budget left when an operation that was given exactly its cost returns bounds the time it took.\<close>

lemma talking_elapsed:
  assumes "talking base d0 k0 (2 ^ 64 - 1 - (unat (TIME k) + c)) d k'" and "unat (TIME k) + c < 2 ^ 64"
  shows "unat (TIME k') \<le> unat (TIME k) + c"
  using assms unfolding talking_def by linarith

text \<open>
  C5: On a working controller a read succeeds, whatever interrupts arrive meanwhile and whether or not the motor
  was running: for any run of sectors on one track of the drive the call returns exactly the contents of these
  sectors in order, counts their bytes, leaves the medium as it was and the controller ready for the
  next command, in a bounded number of ticks.
\<close>

theorem disk_read_returns_sectors:
  fixes k :: "'a kbd_scheme"
  assumes "compliant base d0 E" and "at_rest base d0 d k"
    and "0 < n" and "unat ptr + n \<le> 2880" and "unat ptr mod 18 + n \<le> 18" and "length buf = 512 * n"
    and "unat (TIME k) + (3000 + 102400 * n) < 2 ^ 64"
  shows "\<exists>k'. disk_read E ptr buf k = Done (Ok (sectors_of (medium d) (unat ptr) n), k')
    \<and> READ_BYTES k' = READ_BYTES k + of_nat (512 * n) \<and> unat (TIME k') \<le> unat (TIME k) + (3000 + 102400 * n)
    \<and> (\<exists>d'. at_rest base d0 d' k' \<and> medium d' = medium d)"
proof -
  let ?lba = "ucast ptr :: u16" and ?k = "k\<lparr>READ_BYTES := READ_BYTES k + of_nat (512 * n)\<rparr>"
  let ?B = "2 ^ 64 - 1 - (unat (TIME k) + (3000 + 102400 * n))"
  have lba: "unat ?lba = unat ptr" using assms(4) by (intro ucast_sector) simp
  have init: "FLOPPY_INIT k" "\<forall>i < 2880. length (medium d i) = 512" using assms(2) by (simp_all add: at_rest_def)
  have run: "disk_read E ptr buf k = disk_read_retry E DISK_RETRIES (ReadOrWrite IoTimeout) ?lba (of_nat n) (512 * n) k"
    using init(1) assms(3,6) by (auto simp: disk_read_def SECTOR_SIZE_def)
  obtain r where "DISK_RETRIES = Suc r" by (simp add: DISK_RETRIES_def)
  then have ach: "achieves (talking base d0 k (?B + 3000 + 102400 * n) (awaiting [] d))
    (disk_read_retry E DISK_RETRIES (ReadOrWrite IoTimeout) ?lba (of_nat n) (512 * n))
    (\<lambda>bs k'. bs = sectors_of (medium d) (unat ptr) n \<and>
       (\<exists>d'. talking base d0 ?k ?B d' k' \<and> phase d' = Command [] \<and> medium d' = medium d))"
    using achieves_disk_read_retry [OF assms(1) init homes_ready [OF assms(1), where B' = "?B + 3000 + 102400 * n"], where B = ?B and n = n and lba = ?lba and r = r] lba assms(3-5) by simp
  have "talking base d0 k (?B + 3000 + 102400 * n) (awaiting [] d) k"
    using assms(7) by (intro at_rest_talking [OF assms(2)]) simp
  with ach obtain k' d'
    where k': "disk_read E ptr buf k = Done (Ok (sectors_of (medium d) (unat ptr) n), k')"
      "talking base d0 ?k ?B d' k'" "phase d' = Command []" "medium d' = medium d"
    unfolding run by (rule achievesE) blast
  have "READ_BYTES k' = READ_BYTES k + of_nat (512 * n)" "at_rest base d0 d' k'"
    using k' init talking_known [OF k'(2)] talking_ints [OF k'(2)] by (simp_all add: at_rest_def talking_def undisturbed_def)
  then show ?thesis using k' talking_elapsed [OF k'(2) assms(7)] by blast
qed

section \<open>Writing\<close>

definition receiving :: "nat \<Rightarrow> bytes \<Rightarrow> bytes \<Rightarrow> bytes \<Rightarrow> device \<Rightarrow> device" where
  "receiving first got todo res d =
     (if todo = [] then d\<lparr>phase := Result res, medium := write_sectors first got (medium d)\<rparr>
      else d\<lparr>phase := Writing first (length got + length todo) got res\<rparr>)"

lemma receiving_Cons:
  "held_out (receiving first got (b # bs) res d) = None"
  "accept b (receiving first got (b # bs) res d) = receiving first (got @ [b]) bs res d"
  by (cases bs; simp add: receiving_def held_out_def accept_def)+

lemma achieves_write_data:
  assumes E: "compliant base d0 E"
  shows "achieves (talking base d0 k0 (B + 200 * length bs) (receiving first got bs res d)) (write_data E bs)
    (\<lambda>r k. r = Inr () \<and> talking base d0 k0 B (receiving first (got @ bs) [] res d) k)"
proof (induction bs arbitrary: got)
  case Nil
  then show ?case by (simp add: achieves_def ok_def)
next
  case (Cons b bs)
  let ?B = "B + 200 * length bs"
  have byte: "achieves (talking base d0 k0 (?B + 100) (receiving first got (b # bs) res d)) (send_byte E b)
      (\<lambda>_. talking base d0 k0 ?B (receiving first (got @ [b]) bs res d))"
    using achieves_send_byte [OF E receiving_Cons(1) [of first got b bs res d], of k0 ?B b] by (simp only: receiving_Cons(2))
  have rest: "achieves (talking base d0 k0 ?B (receiving first (got @ [b]) bs res d)) (write_data E bs)
      (\<lambda>r k. r = Inr () \<and> talking base d0 k0 B (receiving first (got @ b # bs) [] res d) k)"
    using Cons.IH [of "got @ [b]"] by simp
  show ?case
    unfolding ext [where f = "write_data E (b # bs)", OF write_data.simps(2)]
    by (rule achieves_budget, rule achieves_try_then [OF achieves_wait_for_rqm [OF E]], rule achieves_match_res [OF byte rest]) simp
qed

text \<open>What was written is what the sectors then hold, and the other sectors are as before.\<close>

lemma sectors_of_written:
  assumes "length bs = 512 * n"
  shows "sectors_of (write_sectors first bs m) first n = bs"
proof -
  have "concat (map (write_sectors first bs m) [first..<first + j]) = take (512 * j) bs" if "j \<le> n" for j
    using that
  proof (induction j)
    case (Suc j)
    have "write_sectors first bs m (first + j) = take 512 (drop (512 * j) bs)"
      using Suc.prems assms by (simp add: write_sectors_def)
    moreover have "take (512 * j) bs @ take 512 (drop (512 * j) bs) = take (512 + 512 * j) bs"
      by (simp add: take_add add.commute [of 512])
    ultimately show ?case using Suc by simp
  qed simp
  from this [of n] show ?thesis using assms by (simp add: sectors_of_def)
qed

lemma write_sectors_other: "i < first \<or> first + length bs div 512 \<le> i \<Longrightarrow> write_sectors first bs m i = m i"
  by (auto simp: write_sectors_def)

lemma achieves_disk_write_retry:
  assumes E: "compliant base d0 E" and "FLOPPY_INIT k0" and P: "homes base d0 E k0 (B + 1600 + 102400 * n) d P"
    and addr: "unat lba + n \<le> 2880" "0 < n" "unat lba mod 18 + n \<le> 18" and len: "length buf = 512 * n"
  shows "achieves P (disk_write_retry E (Suc r) err lba (of_nat n) buf)
    (\<lambda>_ k. \<exists>d'. talking base d0 (k0\<lparr>WRITTEN_BYTES := WRITTEN_BYTES k0 + of_nat (512 * n)\<rparr>) B d' k
       \<and> (\<exists>b bs. phase d' = Result (b # bs)) \<and> medium d' = write_sectors (unat lba) buf (medium d))"
proof -
  let ?B = "B + 200 * length buf"
  have P': "homes base d0 E k0 (?B + 1600) d P" using P by (simp add: len algebra_simps)
  obtain drv h c s where "achieves P (send_read_write E False lba (of_nat n))
      (\<lambda>_. talking base d0 k0 ?B ((d\<lparr>pcn := c, pending := []\<rparr>)\<lparr>phase := Writing (unat lba) (512 * n) [] (rw_result drv h c s)\<rparr>))"
    using achieves_send_read_write [OF E assms(2) P' addr, of False] by auto
  moreover let ?d = "d\<lparr>pcn := c, pending := []\<rparr>" and ?res = "rw_result drv h c s"
  have "?d\<lparr>phase := Writing (unat lba) (512 * n) [] ?res\<rparr> = receiving (unat lba) [] buf ?res ?d"
    using len addr(2) by (auto simp: receiving_def)
  ultimately have cmd: "achieves P (send_read_write E False lba (of_nat n))
      (\<lambda>_. talking base d0 k0 ?B (receiving (unat lba) [] buf ?res ?d))" by simp
  have data: "achieves (talking base d0 k0 ?B (receiving (unat lba) [] buf ?res ?d)) (write_data E buf)
      (\<lambda>r k. r = Inr () \<and> talking base d0 k0 B (receiving (unat lba) buf [] ?res ?d) k)"
    using achieves_write_data [OF E, of k0 B buf "unat lba" "[]" ?res ?d] by simp
  have count: "achieves (talking base d0 k0 B (receiving (unat lba) buf [] ?res ?d))
      (\<lambda>k. let k = disable_motor k in ok () (k\<lparr>WRITTEN_BYTES := WRITTEN_BYTES k + of_nat (length buf)\<rparr>))
      (\<lambda>_ k. \<exists>d'. talking base d0 (k0\<lparr>WRITTEN_BYTES := WRITTEN_BYTES k0 + of_nat (512 * n)\<rparr>) B d' k
         \<and> (\<exists>b bs. phase d' = Result (b # bs)) \<and> medium d' = write_sectors (unat lba) buf (medium d))"
    unfolding len
    by (rule achieves_weaken [OF achieves_count_written]) (auto simp: receiving_def rw_result_def intro!: exI)
  show ?thesis
    unfolding ext [where f = "disk_write_retry E (Suc r) err lba (of_nat n) buf", OF disk_write_retry.simps(2)]
    by (rule achieves_match_res [OF cmd], rule achieves_try_then_val [OF data], unfold sum.case, rule count)
qed

text \<open>
  On a working controller a write succeeds, with interrupts arriving at any time: for any run of sectors on one
  track these sectors hold the buffer afterwards, in order, every other sector is unchanged, and the bytes
  are counted. (The controller is left holding out its result bytes, which the driver does not read.)
\<close>

lemma disk_write_on_device:
  fixes k :: "'a kbd_scheme"
  assumes "compliant base d0 E" and "at_rest base d0 d k"
    and "0 < n" and "unat ptr + n \<le> 2880" and "unat ptr mod 18 + n \<le> 18" and "length buf = 512 * n"
    and "unat (TIME k) + (2200 + 102400 * n) < 2 ^ 64"
  shows "\<exists>k' m'. disk_write E ptr buf k = Done (Ok (), k') \<and> medium (after base d0 (io_log k')) = m'
    \<and> sectors_of m' (unat ptr) n = buf \<and> (\<forall>i. i < unat ptr \<or> unat ptr + n \<le> i \<longrightarrow> m' i = medium d i)
    \<and> WRITTEN_BYTES k' = WRITTEN_BYTES k + of_nat (512 * n) \<and> unat (TIME k') \<le> unat (TIME k) + (2200 + 102400 * n)
    \<and> held_out (after base d0 (io_log k')) \<noteq> None"
proof -
  let ?lba = "ucast ptr :: u16" and ?k = "k\<lparr>WRITTEN_BYTES := WRITTEN_BYTES k + of_nat (512 * n)\<rparr>"
  let ?m = "write_sectors (unat ptr) buf (medium d)" and ?B = "2 ^ 64 - 1 - (unat (TIME k) + (2200 + 102400 * n))"
  have lba: "unat ?lba = unat ptr" using assms(4) by (intro ucast_sector) simp
  have init: "FLOPPY_INIT k" using assms(2) by (simp add: at_rest_def)
  have run: "disk_write E ptr buf k = disk_write_retry E DISK_RETRIES (ReadOrWrite IoTimeout) ?lba (of_nat n) buf k"
    using init assms(3,6) by (auto simp: disk_write_def SECTOR_SIZE_def)
  obtain r where "DISK_RETRIES = Suc r" by (simp add: DISK_RETRIES_def)
  then have ach: "achieves (talking base d0 k (?B + 2200 + 102400 * n) (awaiting [] d))
    (disk_write_retry E DISK_RETRIES (ReadOrWrite IoTimeout) ?lba (of_nat n) buf)
    (\<lambda>_ k'. \<exists>d'. talking base d0 ?k ?B d' k' \<and> (\<exists>b bs. phase d' = Result (b # bs)) \<and> medium d' = ?m)"
    using achieves_disk_write_retry [OF assms(1) init homes_ready [OF assms(1), where d = d and B' = "?B + 2200 + 102400 * n"],
        where B = ?B and n = n and lba = ?lba and buf = buf and r = r] lba assms(3-6) by simp
  have "talking base d0 k (?B + 2200 + 102400 * n) (awaiting [] d) k"
    using assms(7) by (intro at_rest_talking [OF assms(2)]) simp
  with ach obtain k' d' b bs
    where k': "disk_write E ptr buf k = Done (Ok (), k')" "talking base d0 ?k ?B d' k'" "phase d' = Result (b # bs)" "medium d' = ?m"
    unfolding run by (rule achievesE) auto
  have "WRITTEN_BYTES k' = WRITTEN_BYTES k + of_nat (512 * n)" using k'(2) by (simp add: talking_def undisturbed_def)
  moreover have "after base d0 (io_log k') = d'" using k'(2) by (rule talking_dev)
  moreover have "\<forall>i. i < unat ptr \<or> unat ptr + n \<le> i \<longrightarrow> ?m i = medium d i"
    using assms(6) by (auto intro!: write_sectors_other)
  ultimately show ?thesis
    using k' sectors_of_written [OF assms(6)] talking_elapsed [OF k'(2) assms(7)] by (simp add: held_out_def)
qed

text \<open>
  C25: A write on a working controller succeeds, with interrupts arriving at any time and in a bounded number of ticks: for any run of sectors on one
  track these sectors of the medium hold the buffer afterwards, in order, every other sector is unchanged, and the bytes are counted.
\<close>

theorem disk_write_stores_sectors:
  fixes k :: "'a kbd_scheme"
  assumes "compliant base d0 E" and "at_rest base d0 d k"
    and "0 < n" and "unat ptr + n \<le> 2880" and "unat ptr mod 18 + n \<le> 18" and "length buf = 512 * n"
    and "unat (TIME k) + (2200 + 102400 * n) < 2 ^ 64"
  shows "\<exists>k' m'. disk_write E ptr buf k = Done (Ok (), k') \<and> medium (after base d0 (io_log k')) = m'
    \<and> sectors_of m' (unat ptr) n = buf \<and> (\<forall>i. i < unat ptr \<or> unat ptr + n \<le> i \<longrightarrow> m' i = medium d i)
    \<and> WRITTEN_BYTES k' = WRITTEN_BYTES k + of_nat (512 * n) \<and> unat (TIME k') \<le> unat (TIME k) + (2200 + 102400 * n)"
  using disk_write_on_device [OF assms] by blast

section \<open>After a write\<close>

text \<open>
  While the controller holds out a byte it takes no command byte: sending one does not return successfully, so
  the first command after a write only gets through after a reset.
\<close>

definition facing :: "u16 \<Rightarrow> device \<Rightarrow> device \<Rightarrow> 'a kbd_scheme \<Rightarrow> bool" where
  "facing base d0 d k \<longleftrightarrow> base_known base k \<and> enabled base (io_log k) \<and> after base d0 (io_log k) = d"

lemma facing_grown: "facing base d0 d k \<Longrightarrow> undisturbed k k' \<Longrightarrow> log_grown base k k' \<Longrightarrow> facing base d0 d k'"
  by (simp add: facing_def base_known_undisturbed after_grown enabled_grown)

lemma facing_poll:
  "compliant base d0 E \<Longrightarrow> facing base d0 d k \<Longrightarrow> facing base d0 d (poll E ClockRead k)"
  by (rule facing_grown [OF _ poll_frame(1) poll_log]) (auto simp: compliant_def facing_def)

lemma facing_enable_motor:
  assumes E: "compliant base d0 E" and k: "facing base d0 d k" and run: "enable_motor E k = Done (Ok (), k')"
  shows "facing base d0 d k'"
proof -
  have base: "base \<in> {0x3F0, 0x370}" using E by (simp add: compliant_def)
  have motor: "facing base d0 d (k\<lparr>MOTOR_STATE := s\<rparr>)" for s using k by (simp add: facing_def base_known_def)
  show ?thesis
  proof (cases "MOTOR_STATE k = MOTOR_OFF")
    case True
    let ?v = "if DRIVE_ONE k then 0b100101 else 0b010100 :: u8"
    let ?k2 = "k\<lparr>io_log := Out (2 + base) ?v # Out 0x80 0 # io_log k, MOTOR_STATE := MOTOR_ON\<rparr>"
    have "foreign base (Out (2 + base) ?v)" "foreign base (Out 0x80 0)" using base by (auto simp: foreign_def bit_simps)
    then have k2: "facing base d0 d ?k2" using k by (simp add: facing_def base_known_def after_foreign foreign_enabled del: after.simps)
    have "wait E 50 ?k2 = Done k'"
      using run True add_offset_known [of base k DigitalOutputRegister] k
      by (cases "DRIVE_ONE k")
        (auto simp: facing_def enable_motor_def send_enable_cmd_def writeb_eq run_then_def ok_def Let_def andThen_eq_Done)
    then show ?thesis using facing_grown [OF k2 wait_frame(1) wait_log [OF base]] k2 by (auto simp: facing_def)
  next
    case False
    then show ?thesis using run k motor by (auto simp: enable_motor_def ok_def split: if_splits)
  qed
qed

lemma facing_msr:
  assumes E: "compliant base d0 E" and k: "facing base d0 d k" and "held_out d = Some v" and run: "msr E k = Done (Ok m, k')"
  shows "rqm_dio m = 3" and "facing base d0 d k'"
proof -
  let ?m = "port_in E (Out 0x80 0 # io_log k) (4 + base)"
  have f: "foreign base (Out 0x80 0)" "foreign base (Inp (4 + base) ?m)" using E by (auto simp: foreign_def compliant_def)
  have "m = ?m" "k' = k\<lparr>io_log := Inp (4 + base) ?m # Out 0x80 0 # io_log k\<rparr>"
    using run k add_offset_known [of base k MainStatusRegister] by (auto simp: facing_def msr_def readb_eq Let_def ok_def)
  then show "rqm_dio m = 3" and "facing base d0 d k'"
    using E k assms(3) after_foreign [OF f(1)] after_foreign [OF f(2)] foreign_enabled [OF f(1)]
    by (simp_all add: compliant_def facing_def base_known_def del: after.simps)
qed

lemma send_byte_refused:
  assumes E: "compliant base d0 E" and "held_out d = Some v" and "facing base d0 d k"
  shows "send_byte E b k \<noteq> Done (Ok (), k')"
proof -
  have "facing base d0 d k \<Longrightarrow> send_byte_loop E n start b k \<noteq> Done (Ok (), k')" for n start k
  proof (induction n arbitrary: k)
    case (Suc n)
    let ?k1 = "poll E ClockRead k"
    show ?case
    proof
      assume run: "send_byte_loop E (Suc n) start b k = Done (Ok (), k')"
      then have "try_then (map_err InitStatic (enable_motor E)) (\<lambda>_. try_then (map_err InitStatic (msr E))
          (\<lambda>m. if rqm_dio m = 0b10
            then (\<lambda>k. case add_offset Fifo k of Inl e \<Rightarrow> throw (InitStatic e) k | Inr p \<Rightarrow> ok () (disable_motor (writeb p b k)))
            else send_byte_loop E n start b)) ?k1 = Done (Ok (), k')"
        by (simp add: get_time_def throw_def Let_def split: if_splits)
      then obtain k2 m k3 where k2: "enable_motor E ?k1 = Done (Ok (), k2)" and k3: "msr E k2 = Done (Ok m, k3)"
        and rest: "(if rqm_dio m = 0b10
            then (\<lambda>k. case add_offset Fifo k of Inl e \<Rightarrow> throw (InitStatic e) k | Inr p \<Rightarrow> ok () (disable_motor (writeb p b k)))
            else send_byte_loop E n start b) k3 = Done (Ok (), k')"
        unfolding try_then_eq_Done map_err_eq_Done by auto
      note f2 = facing_enable_motor [OF E facing_poll [OF E Suc.prems] k2]
      note f3 = facing_msr [OF E f2 assms(2) k3]
      from rest f3(1) have "send_byte_loop E n start b k3 = Done (Ok (), k')" by simp
      with Suc.IH [OF f3(2)] show False by simp
    qed
  qed simp
  then show ?thesis using facing_poll [OF E assms(3)] by (simp add: send_byte_def get_time_def Let_def)
qed

section \<open>A sample controller\<close>

definition sample_device :: device where
  "sample_device = \<lparr>phase = Command [], medium = (\<lambda>i. replicate 512 (of_nat i)), pcn = 0, pending = []\<rparr>"

definition device_ports :: "u16 \<Rightarrow> device \<Rightarrow> io list \<Rightarrow> u16 \<Rightarrow> u8" where
  "device_ports base d0 l p =
     (let h = held_out (after base d0 l)
      in if p = 2 + base then (case dor_of base l of Some v \<Rightarrow> v | None \<Rightarrow> 0)
         else if p = 4 + base then (if h = None then 0x80 else 0xC0)
         else case h of Some b \<Rightarrow> b | None \<Rightarrow> 0)"

definition device_env :: "device \<Rightarrow> env" where
  "device_env d0 = sample_env\<lparr>port_in := device_ports 0x3F0 d0\<rparr>"

lemma device_env_compliant: "compliant 0x3F0 d0 (device_env d0)"
  by (auto simp: compliant_def device_env_def device_ports_def timer_latched_def timer_wakes_def sample_env_def rqm_dio_def Let_def)

definition rested_kbd :: kbd where
  "rested_kbd = running_kbd\<lparr>FLOPPY_INIT := True, io_log := [Out 0x3F2 0b010100]\<rparr>"

lemma rested_kbd_at_rest: "at_rest 0x3F0 sample_device sample_device rested_kbd" "TIME rested_kbd = 0"
  by (simp_all add: at_rest_def enabled_def dev_step_def bit_simps rested_kbd_def sample_device_def running_kbd_def initial_kbd_def based_fdc_def
      initial_fdc_def initial_clock_def base_known_def init_later_read_def init_later_init_def
      init_later_uninit_def Let_def fdc.extend_def clock.extend_def vga.extend_def)

theorem disk_read_returns_sectors_witness:
  "\<exists>k'. disk_read (device_env sample_device) 19 (replicate 1024 0) rested_kbd
     = Done (Ok (replicate 512 19 @ replicate 512 20), k')"
proof -
  have "sectors_of (medium sample_device) 19 2 = replicate 512 19 @ replicate 512 20"
    by (simp add: sectors_of_def sample_device_def upt_rec)
  then show ?thesis
    using disk_read_returns_sectors [OF device_env_compliant rested_kbd_at_rest(1), of 2 19 "replicate 1024 0"] rested_kbd_at_rest(2)
    by auto
qed

theorem disk_write_stores_sectors_witness:
  "\<exists>k' m'. disk_write (device_env sample_device) 19 (replicate 512 7) rested_kbd = Done (Ok (), k')
     \<and> medium (after 0x3F0 sample_device (io_log k')) = m' \<and> sectors_of m' 19 1 = replicate 512 7
     \<and> m' 18 = medium sample_device 18 \<and> m' 20 = medium sample_device 20"
  using disk_write_stores_sectors [OF device_env_compliant rested_kbd_at_rest(1), of 1 19 "replicate 512 7"] rested_kbd_at_rest(2)
  by auto

end
