(* ===== verification/Reset.thy ===== *)
theory Reset
  imports Controller Floppy
begin

text \<open>
  kernel/src/floppy/reset.rs and the start of kernel/src/floppy.rs on a working controller: a reset brings the controller to
  rest from any phase, so a command that it refuses because result bytes of the last write are still there is
  sent again after a reset, and the driver starts on a machine whose controller is idle.
\<close>

section \<open>A reset\<close>

text \<open>The controller after a reset; the medium stays as it is.\<close>

definition was_reset :: "device \<Rightarrow> device" where
  "was_reset d = d\<lparr>phase := Command [], pending := [0xC0, 0xC1, 0xC2, 0xC3]\<rparr>"

lemma reset_pulse_resets:
  fixes k :: "'a kbd_scheme"
  assumes E: "compliant base d0 E" and k: "talking base d0 k0 (B + 60) d k"
  shows "\<exists>k'. reset_pulse E (2 + base) k = Done k' \<and> talking base d0 k0 B (was_reset d) k'"
proof -
  have base: "base \<in> {0x3F0, 0x370}" using E by (simp add: compliant_def)
  obtain v where v: "dor_of base (io_log k) = Some v" "bit v 2"
    using talking_enabled [OF k] by (auto simp: enabled_def split: option.splits)
  have delay: "dor_of base (Out 0x80 0 # l) = dor_of base l" for l using base by auto
  have prev: "port_in E (Out 0x80 0 # io_log k) (2 + base) = v"
    using E v(1) delay unfolding compliant_def by metis
  let ?k1 = "k\<lparr>io_log := Out (2 + base) 0 # Out 0x80 0 # Inp (2 + base) v # Out 0x80 0 # io_log k\<rparr>"
  have f: "foreign base (Out 0x80 0)" "foreign base (Inp (2 + base) v)" "foreign base (Out (2 + base) v)"
    using base v(2) by (auto simp: foreign_def)
  have "after base d0 (io_log ?k1) = dev_step base (Out (2 + base) 0) d"
    using talking_dev [OF k] after_foreign [OF f(1)] after_foreign [OF f(2)] by (simp del: after.simps(2) add: after.simps(2) [of base d0 "Out (2 + base) 0"])
  then have d1: "after base d0 (io_log ?k1) = was_reset d" by (simp add: dev_step_def was_reset_def)
  have k1: "undisturbed k0 ?k1" "ints_on k0" "base_known base k0" "unat (TIME ?k1) + (B + 60) < 2 ^ 64"
    using k by (simp_all add: talking_def undisturbed_def)
  have "timer_latched E" "timer_wakes E" "ints_on ?k1" "unat (1 :: u64) + 1 < fuel E" "unat (TIME ?k1) + unat (1 :: u64) + 5 < 2 ^ 64"
    using E talking_ints [OF k] k1(4) by (simp_all add: compliant_def)
  note wait = wait_time [OF this]
  obtain k2 where k2: "wait E 1 ?k1 = Done k2" "undisturbed ?k1 k2" "unat (TIME k2) \<le> unat (TIME ?k1) + 60"
    using wait wait_frame(1) [of E 1 ?k1] by (cases "PIT_INIT ?k1") auto
  have "base_known base ?k1" using talking_known [OF k] by (simp add: base_known_def)
  then have d2: "after base d0 (io_log k2) = was_reset d" using after_grown [OF wait_log [OF base _ k2(1)]] d1 by simp
  let ?k3 = "k2\<lparr>io_log := Out (2 + base) v # Out 0x80 0 # io_log k2\<rparr>"
  have "after base d0 (io_log ?k3) = was_reset d"
    using d2 after_foreign [OF f(1)] after_foreign [OF f(3)] by (simp del: after.simps)
  moreover have "enabled base (io_log ?k3)" using v(2) by (simp add: enabled_def)
  moreover have "undisturbed k0 ?k3" using undisturbed_trans [OF k1(1) k2(2)] by (simp add: undisturbed_def)
  ultimately have "talking base d0 k0 B (was_reset d) ?k3" using k1 k2(3) by (simp add: talking_def)
  moreover have "reset_pulse E (2 + base) k = Done ?k3"
    using k2(1) prev by (simp add: reset_pulse_def readb_eq writeb_eq Let_def)
  ultimately show ?thesis by blast
qed

text \<open>
  What a reset needs besides a working controller: the first drive, of a capacity for which the driver knows the data rate.
\<close>

definition resettable :: "'a kbd_scheme \<Rightarrow> bool" where
  "resettable k \<longleftrightarrow> \<not> DRIVE_ONE k \<and> (\<exists>kb. init_later_read (FLOPPY_SPACE k) = Ok kb \<and> kb \<in> {1200, 1440, 2880})"

lemma execute_setup:
  "execute [19, a, b, c] d = awaiting [] d" "execute [3, a, b] d = awaiting [] d" "execute [16] d = d\<lparr>phase := Result [0x90]\<rparr>"
  by (simp_all add: execute_def awaiting_def Let_def)

lemma achieves_send_configure_with:
  assumes "compliant base d0 E"
  shows "achieves (talking base d0 k0 (B + 400) (awaiting [] d)) (send_configure_with E rst) (\<lambda>_. talking base d0 k0 B (awaiting [] d))"
proof -
  have "achieves (talking base d0 k0 (B + 400) (awaiting [] d)) (send_command_with E rst Configure [0, x, 0])
      (\<lambda>_. talking base d0 k0 B (awaiting [] d))" for x
    using achieves_send_command_with [OF assms, where params = "[0, x, 0]" and cmd = Configure and ?k0.0 = k0 and B = B and d = d and rst = rst]
    by (simp add: cmd_length_def execute_setup)
  then show ?thesis
    unfolding send_configure_with_def Let_def by (intro achieves_try_then [OF achieves_map_err] achieves_ok)
qed

lemma achieves_run_then:
  "(\<And>s. P s \<Longrightarrow> \<exists>s'. f s = Done s' \<and> R s') \<Longrightarrow> achieves R m Q \<Longrightarrow> achieves P (run_then f m) Q"
  by (fastforce simp: achieves_def run_then_def)

lemma achieves_init_fdc_with:
  assumes E: "compliant base d0 E" and k0: "resettable k0"
  shows "achieves (talking base d0 k0 (B + 2100) d) (init_fdc_with E rst) (\<lambda>_. talking base d0 k0 B (awaiting [] (d\<lparr>pending := []\<rparr>)))"
proof -
  obtain kb ccr rate where kb: "init_later_read (FLOPPY_SPACE k0) = Ok kb" "ccr_datarate kb = Some (ccr, rate)"
    using k0 by (auto simp: resettable_def ccr_datarate_def)
  let ?d = "d\<lparr>pending := []\<rparr>"
  define r where "r xs = awaiting [] (d\<lparr>pending := xs\<rparr>)" for xs
  have reset: "was_reset d = r [0xC0, 0xC1, 0xC2, 0xC3]" by (simp add: was_reset_def r_def awaiting_def)
  have dor: "achieves (talking base d0 k0 C d)
      (\<lambda>k. case add_offset DigitalOutputRegister k of Inl e \<Rightarrow> throw (InitStatic e) k | Inr dor \<Rightarrow> ok dor k)
      (\<lambda>p k. p = 2 + base \<and> talking base d0 k0 C d k)" for C
    using talking_port [of base d0 k0 C d _ DigitalOutputRegister] by (simp add: achieves_def ok_def)
  have pulse: "\<exists>k'. reset_pulse E (2 + base) k = Done k' \<and> talking base d0 k0 C (r [0xC0, 0xC1, 0xC2, 0xC3]) k'"
    if "talking base d0 k0 (C + 60) d k" for C k
    using reset_pulse_resets [OF E that] by (simp add: reset)
  have sense: "achieves (talking base d0 k0 (C + 300) (r (st # rest))) (sense_int_with E rst state) (\<lambda>_. talking base d0 k0 C (r rest))"
    if "sensed state k0 st" for C st rest state
    using achieves_sense_int_with [OF E, where d = "d\<lparr>pending := st # rest\<rparr>" and st = st and rest = rest and state = state
        and ?k0.0 = k0 and B = C and rst = rst] that by (simp add: r_def)
  have states: "sensed FirstReset k0 0xC0" "sensed OtherReset k0 0xC1" "sensed OtherReset k0 0xC2" "sensed OtherReset k0 0xC3"
    using k0 by (simp_all add: sensed_def resettable_def)
  have space: "achieves (talking base d0 k0 C (r []))
      (\<lambda>k. case init_later_read (FLOPPY_SPACE k) of Inl e \<Rightarrow> throw (InitStatic e) k | Inr kb \<Rightarrow> ok kb k)
      (\<lambda>v k. v = kb \<and> talking base d0 k0 C (r []) k)" for C
    using kb(1) by (auto simp: achieves_def talking_def undisturbed_def ok_def)
  have rate: "achieves (talking base d0 k0 C (r []))
      (\<lambda>k. case add_offset ConfigCtrlRegister k of Inl e \<Rightarrow> throw (InitStatic e) k | Inr p \<Rightarrow> ok () (writeb p ccr k))
      (\<lambda>_. talking base d0 k0 C (r []))" for C
    unfolding achieves_def
  proof (intro allI impI)
    fix k assume k: "talking base d0 k0 C (r []) k"
    have f: "foreign base (Out (7 + base) ccr)" "foreign base (Out 0x80 0)" using E by (auto simp: foreign_def compliant_def)
    then have "talking base d0 k0 C (r []) (k\<lparr>io_log := Out (7 + base) ccr # Out 0x80 0 # io_log k\<rparr>)"
      using talking_dev [OF k] talking_enabled [OF k] by (intro talking_log [OF k]) (simp_all add: after_foreign foreign_enabled del: after.simps)
    then show "\<exists>a k'. (case add_offset ConfigCtrlRegister k of Inl e \<Rightarrow> throw (InitStatic e) k | Inr p \<Rightarrow> ok () (writeb p ccr k))
        = Done (Ok a, k') \<and> talking base d0 k0 C (r []) k'"
      using talking_port [OF k, of ConfigCtrlRegister] by (simp add: writeb_eq ok_def)
  qed
  obtain x y where xy: "specify_params rate = [x, y]" by (simp add: specify_params_def Let_def)
  have spec: "achieves (talking base d0 k0 (C + 300) (r [])) (send_command_with E rst Specify (specify_params rate)) (\<lambda>_. talking base d0 k0 C (r []))" for C
    using achieves_send_command_with [OF E, where params = "[x, y]" and cmd = Specify and ?k0.0 = k0 and B = C and d = ?d and rst = rst]
    by (simp add: cmd_length_def execute_setup xy r_def)
  have conf: "achieves (talking base d0 k0 (C + 400) (r [])) (send_configure_with E rst) (\<lambda>_. talking base d0 k0 C (r []))" for C
    unfolding r_def by (rule achieves_send_configure_with [OF E])
  have fin: "achieves (talking base d0 k0 B (r [])) (\<lambda>k. ok () (disable_motor k)) (\<lambda>_. talking base d0 k0 B (r []))"
    by (simp add: achieves_def ok_def talking_motor)
  have "achieves (talking base d0 k0 (B + 300 + 400 + 300 + 300 + 300 + 300 + 60 + 60) d) (init_fdc_with E rst) (\<lambda>_. talking base d0 k0 B (r []))"
    unfolding init_fdc_with_def
    by (rule achieves_try_then [OF achieves_map_err [OF achieves_enable_motor [OF E]]], rule achieves_try_then_val [OF dor],
        rule achieves_run_then [OF pulse], assumption, rule achieves_try_then [OF sense [OF states(1)]],
        rule achieves_try_then [OF sense [OF states(2)]], rule achieves_try_then [OF sense [OF states(3)]],
        rule achieves_try_then [OF sense [OF states(4)]], rule achieves_try_then [OF conf], rule achieves_try_then_val [OF space],
        unfold kb(2) option.case prod.case, rule achieves_try_then [OF rate], rule achieves_try_then [OF achieves_map_err [OF spec]], rule fin)
  then show ?thesis unfolding r_def by (rule achieves_budget) simp
qed

lemma achieves_init_fdc:
  assumes "compliant base d0 E" and "resettable k0"
  shows "achieves (talking base d0 k0 (B + 2100) d) (init_fdc E) (\<lambda>_. talking base d0 k0 B (awaiting [] (d\<lparr>pending := []\<rparr>)))"
proof -
  obtain n where "fuel E = Suc n" using assms(1) by (auto simp: compliant_def dest: less_imp_Suc_add)
  then have "init_fdc E = init_fdc_with E (init_fdc_depth E n)" by (simp add: init_fdc_def fun_eq_iff)
  then show ?thesis using achieves_init_fdc_with [OF assms] by metis
qed

section \<open>The start of the driver\<close>

lemma achieves_bring_up:
  assumes E: "compliant base d0 E" and k0: "resettable k0"
  shows "achieves (motor_off base d0 k0 (B + 3400) (awaiting [] d)) (bring_up E)
    (\<lambda>_. talking base d0 (k0\<lparr>FLOPPY_INIT := True\<rparr>) B (awaiting [] (d\<lparr>pcn := 0, pending := []\<rparr>)))"
proof -
  have version: "achieves (talking base d0 k0 (C + 100) (awaiting [] d)) (send_command E Version [])
      (\<lambda>_. talking base d0 k0 C (d\<lparr>phase := Result [0x90]\<rparr>))" for C
    using achieves_send_command [OF E, where params = "[]" and cmd = Version and ?k0.0 = k0 and B = C and d = d]
    by (simp add: cmd_length_def execute_setup)
  have conf: "achieves (talking base d0 k0 (C + 400) (awaiting [] d)) (send_configure E) (\<lambda>_. talking base d0 k0 C (awaiting [] d))" for C
    unfolding send_configure_def by (rule achieves_send_configure_with [OF E])
  have init: "achieves (talking base d0 k0 (C + 2100) (awaiting [] d)) (init_fdc E)
      (\<lambda>_. talking base d0 k0 C (awaiting [] (d\<lparr>pending := []\<rparr>)))" for C
    using achieves_init_fdc [OF E k0, of C "awaiting [] d"] by (simp add: awaiting_def)
  have home: "achieves (talking base d0 k0 (C + 600) (awaiting [] (d\<lparr>pending := []\<rparr>))) (seek E None)
      (\<lambda>_. talking base d0 k0 C (awaiting [] (d\<lparr>pcn := 0, pending := []\<rparr>)))" for C
    using achieves_seek [OF E, of k0 C "d\<lparr>pending := []\<rparr>" None] by (simp add: seek_target_def)
  have fin: "achieves (talking base d0 k0 B d') (\<lambda>k. let k = k\<lparr>FLOPPY_INIT := True\<rparr> in ok () (disable_motor k))
      (\<lambda>_. talking base d0 (k0\<lparr>FLOPPY_INIT := True\<rparr>) B d')" for d'
    by (simp add: achieves_def ok_def talking_def undisturbed_def base_known_def disable_motor_def Let_def)
  have good: "\<not> (0x90 :: u8) \<noteq> GOOD_VERSION" by (simp add: GOOD_VERSION_def)
  have rest: "achieves (talking base d0 k0 (B + 600 + 2100 + 400) (awaiting [] d))
      (if (0x90 :: u8) \<noteq> GOOD_VERSION then throw (OtherError ''Unsupported controller version: {version}'')
       else try_then (send_configure E) (\<lambda>_. try_then (init_fdc E) (\<lambda>_. try_then (seek E None) (\<lambda>_.
           \<lambda>k. let k = k\<lparr>FLOPPY_INIT := True\<rparr> in ok () (disable_motor k)))))
      (\<lambda>_. talking base d0 (k0\<lparr>FLOPPY_INIT := True\<rparr>) B (awaiting [] (d\<lparr>pcn := 0, pending := []\<rparr>)))"
    unfolding if_not_P [OF good]
    by (rule achieves_try_then [OF conf], rule achieves_try_then [OF init], rule achieves_try_then [OF home], rule fin)
  have "achieves (motor_off base d0 k0 (B + 600 + 2100 + 400 + 100 + 100 + 60) (awaiting [] d)) (bring_up E)
      (\<lambda>_. talking base d0 (k0\<lparr>FLOPPY_INIT := True\<rparr>) B (awaiting [] (d\<lparr>pcn := 0, pending := []\<rparr>)))"
    unfolding bring_up_def
    by (rule achieves_try_then [OF achieves_map_err [OF achieves_motor_start [OF E]]], rule achieves_try_then [OF achieves_map_err [OF version]],
        rule achieves_try_then_val [OF achieves_read_Result(2) [OF E]], rule rest)
  then show ?thesis by (rule achieves_weaken) (auto simp: motor_off_def)
qed

text \<open>Selecting the first drive: the statics are set, the rest is left alone, and the controller does not notice.\<close>

lemma select_main_drive:
  fixes k :: "'a kbd_scheme"
  assumes "fdc_fresh k" and "chosen_drive (fst (read_cmos_reg E CMOS_FLOPPY_REG k)) = Some (space, base, False)"
  shows "base = 0x3F0" and "\<exists>k'. select_drive E k = Done (Ok (), k') \<and> init_later_read (FLOPPY_SPACE k') = Ok space \<and> base_known base k'
    \<and> \<not> DRIVE_ONE k' \<and> TIME k' = TIME k \<and> ints_on k' = ints_on k \<and> MOTOR_STATE k' = MOTOR_STATE k \<and> kbd.more k' = kbd.more k
    \<and> log_grown base k k' \<and> (\<exists>l. k' = k\<lparr>io_log := l, FLOPPY_SPACE := FLOPPY_SPACE k', BASE_OFFSET := BASE_OFFSET k'\<rparr>)"
proof -
  obtain info k1 where c: "read_cmos_reg E CMOS_FLOPPY_REG k = (info, k1)" by (cases "read_cmos_reg E CMOS_FLOPPY_REG k")
  obtain f where f: "floppy_info_new (drop_bit 4 info) = Some f" "space = fi_space f" and base: "base = MAIN_BASE"
    using assms(2) by (auto simp: c chosen_drive_def split: option.splits)
  show "base = 0x3F0" by (simp add: base MAIN_BASE_def)
  obtain l where l: "k1 = k\<lparr>io_log := l\<rparr>" using c by (auto simp: read_cmos_reg_eq Let_def)
  have k1: "fdc_fresh k1" "log_grown base k k1" "TIME k1 = TIME k" "ints_on k1 = ints_on k" "MOTOR_STATE k1 = MOTOR_STATE k" "kbd.more k1 = kbd.more k"
    using c assms(1) by (auto simp: read_cmos_reg_eq Let_def fdc_fresh_def log_grown_def foreign_def base MAIN_BASE_def)
  obtain k2 where k2: "init_statics (fi_space f) MAIN_BASE k1 = Done (Ok (), k2)"
    "init_later_read (FLOPPY_SPACE k2) = Ok (fi_space f)" "base_known MAIN_BASE k2"
    "k2 = k1\<lparr>FLOPPY_SPACE := FLOPPY_SPACE k2, BASE_OFFSET := BASE_OFFSET k2\<rparr>"
    using init_statics_fresh [OF k1(1)] by blast
  have "\<not> DRIVE_ONE k2 \<and> TIME k2 = TIME k1 \<and> ints_on k2 = ints_on k1 \<and> MOTOR_STATE k2 = MOTOR_STATE k1 \<and> kbd.more k2 = kbd.more k1
      \<and> io_log k2 = io_log k1"
    using k1(1) unfolding fdc_fresh_def by (subst (1 2 3 4 5 6) k2(4)) simp
  moreover have "k2 = k\<lparr>io_log := l, FLOPPY_SPACE := FLOPPY_SPACE k2, BASE_OFFSET := BASE_OFFSET k2\<rparr>" using k2(4) unfolding l .
  ultimately show "\<exists>k'. select_drive E k = Done (Ok (), k') \<and> init_later_read (FLOPPY_SPACE k') = Ok space \<and> base_known base k'
      \<and> \<not> DRIVE_ONE k' \<and> TIME k' = TIME k \<and> ints_on k' = ints_on k \<and> MOTOR_STATE k' = MOTOR_STATE k \<and> kbd.more k' = kbd.more k
      \<and> log_grown base k k' \<and> (\<exists>l. k' = k\<lparr>io_log := l, FLOPPY_SPACE := FLOPPY_SPACE k', BASE_OFFSET := BASE_OFFSET k'\<rparr>)"
    using k1 k2(1-3) f c by (intro exI [of _ k2]) (auto simp: select_drive_def base log_grown_def)
qed

text \<open>
  C13: the floppy driver starts on a working machine: when the CMOS reports a main drive of a supported capacity, its
  controller works and is idle, and the driver was not started before, the start succeeds in a bounded number of ticks, leaves the
  controller at rest and the medium as it was, and sets the driver's capacity, base port and flag. Beyond the driver's own statics only
  the interrupts taken meanwhile are seen (\<open>undisturbed\<close>): the other drivers' flags, the cursor and the screen but
  for the waiting character's corner are as before, and the scancode buffer has at most received bytes.
\<close>

theorem floppy_init_succeeds:
  fixes k :: "'a kbd_scheme"
  assumes "compliant base d0 E" and "fdc_fresh k" and "MOTOR_STATE k = MOTOR_OFF" and "ints_on k"
    and "after base d0 (io_log k) = d" and "phase d = Command []" and "\<forall>i < 2880. length (medium d i) = 512"
    and "chosen_drive (fst (read_cmos_reg E CMOS_FLOPPY_REG k)) = Some (space, base, False)" and "space \<in> {1200, 1440, 2880}"
    and "unat (TIME k) + 3400 < 2 ^ 64"
  shows "\<exists>k' d'. floppy_init E k = Done (Ok (), k') \<and> at_rest base d0 d' k' \<and> resettable k' \<and> medium d' = medium d
    \<and> init_later_read (FLOPPY_SPACE k') = Ok space
    \<and> undisturbed (k\<lparr>FLOPPY_SPACE := FLOPPY_SPACE k', BASE_OFFSET := BASE_OFFSET k', FLOPPY_INIT := True\<rparr>) k'
    \<and> unat (TIME k') \<le> unat (TIME k) + 3400"
proof -
  obtain k1 l where sel: "select_drive E k = Done (Ok (), k1)"
    and eq: "k1 = k\<lparr>io_log := l, FLOPPY_SPACE := FLOPPY_SPACE k1, BASE_OFFSET := BASE_OFFSET k1\<rparr>" and k1: "init_later_read (FLOPPY_SPACE k1) = Ok space" "base_known base k1"
    "\<not> DRIVE_ONE k1" "TIME k1 = TIME k" "ints_on k1 = ints_on k" "MOTOR_STATE k1 = MOTOR_STATE k" "kbd.more k1 = kbd.more k" "log_grown base k k1"
    using select_main_drive(2) [OF assms(2,8)] by blast
  have r: "resettable k1" using k1(1,3) assms(9) by (auto simp: resettable_def)
  have d: "after base d0 (io_log k1) = awaiting [] d" using after_grown [OF k1(8)] assms(5,6) by (simp add: awaiting_def)
  let ?B = "2 ^ 64 - 1 - (unat (TIME k) + 3400)" and ?d = "awaiting [] (d\<lparr>pcn := 0, pending := []\<rparr>)"
  have "motor_off base d0 k1 (?B + 3400) (awaiting [] d) k1"
    using k1 d assms(3,4,10) by (simp add: motor_off_def)
  with achieves_bring_up [OF assms(1) r] obtain a k' where k': "bring_up E k1 = Done (Ok a, k')"
    "talking base d0 (k1\<lparr>FLOPPY_INIT := True\<rparr>) ?B ?d k'"
    by (rule achievesE)
  have "at_rest base d0 ?d k'"
    using talking_known [OF k'(2)] talking_ints [OF k'(2)] talking_dev [OF k'(2)] talking_enabled [OF k'(2)] talking_init [OF k'(2)] assms(7)
    by (simp add: at_rest_def awaiting_def)
  moreover have u: "undisturbed (k1\<lparr>FLOPPY_INIT := True\<rparr>) k'" using k'(2) by (simp add: talking_def)
  then have f: "FLOPPY_SPACE k' = FLOPPY_SPACE k1" "BASE_OFFSET k' = BASE_OFFSET k1" by (simp_all add: undisturbed_def)
  have "undisturbed (k\<lparr>FLOPPY_SPACE := FLOPPY_SPACE k', BASE_OFFSET := BASE_OFFSET k', FLOPPY_INIT := True\<rparr>) k'"
  proof -
    have "k1\<lparr>FLOPPY_INIT := True\<rparr> = k\<lparr>io_log := l, FLOPPY_SPACE := FLOPPY_SPACE k1, BASE_OFFSET := BASE_OFFSET k1, FLOPPY_INIT := True\<rparr>"
      by (subst eq) simp
    then show ?thesis using u unfolding f by (simp add: undisturbed_def)
  qed
  moreover have "resettable k'" "init_later_read (FLOPPY_SPACE k') = Ok space"
    using k'(2) r k1(1) f(1) by (auto simp: resettable_def talking_def undisturbed_def)
  moreover have "unat (TIME k') \<le> unat (TIME k) + 3400" using k'(2) assms(10) unfolding talking_def by linarith
  moreover have "floppy_init E k = Done (Ok (), k')" using sel k'(1) by (simp add: floppy_init_def try_then_def)
  ultimately show ?thesis by (intro exI [of _ k'] exI [of _ ?d]) (simp add: awaiting_def)
qed

text \<open>A machine with such a controller, whose CMOS reports a 1.44 MB drive.\<close>

definition cmos_env :: "device \<Rightarrow> env" where
  "cmos_env d0 = sample_env\<lparr>port_in := (\<lambda>l p. if p = 0x71 then 0x40 else device_ports 0x3F0 d0 l p)\<rparr>"

lemma cmos_env_compliant: "compliant 0x3F0 d0 (cmos_env d0)"
  by (auto simp: compliant_def cmos_env_def device_ports_def timer_latched_def timer_wakes_def sample_env_def rqm_dio_def Let_def)

lemma fresh_kbd_unset: "fdc_fresh fresh_kbd" "MOTOR_STATE fresh_kbd = MOTOR_OFF" "ints_on fresh_kbd" "io_log fresh_kbd = []" "TIME fresh_kbd = 0"
  by (simp_all add: fresh_kbd_def fdc_fresh_def running_kbd_def initial_kbd_def based_fdc_def initial_fdc_def
      initial_clock_def cleared_vga_def fdc.extend_def clock.extend_def vga.extend_def init_later_uninit_def)

lemma cmos_env_drive: "chosen_drive (fst (read_cmos_reg (cmos_env d0) CMOS_FLOPPY_REG k)) = Some (1440, 0x3F0, False)"
  by (simp add: read_cmos_reg_eq cmos_env_def Let_def chosen_drive_def floppy_info_new_def MAIN_BASE_def)

theorem floppy_init_succeeds_witness:
  "\<exists>k'. floppy_init (cmos_env sample_device) fresh_kbd = Done (Ok (), k') \<and> FLOPPY_INIT k' \<and> init_later_read (FLOPPY_SPACE k') = Ok 1440
     \<and> PIT_INIT k' = PIT_INIT fresh_kbd \<and> KBD_RPTR k' = KBD_RPTR fresh_kbd \<and> unat (TIME k') \<le> 3400"
proof -
  have "after 0x3F0 sample_device (io_log fresh_kbd) = sample_device" "phase sample_device = Command []"
    "\<forall>i < 2880. length (medium sample_device i) = 512" "(1440 :: u16) \<in> {1200, 1440, 2880}" "unat (TIME fresh_kbd) + 3400 < 2 ^ 64"
    by (simp_all add: fresh_kbd_unset(4,5) sample_device_def)
  from floppy_init_succeeds [OF cmos_env_compliant fresh_kbd_unset(1-3) this(1-3) cmos_env_drive this(4,5)]
  obtain k' where k': "floppy_init (cmos_env sample_device) fresh_kbd = Done (Ok (), k')" "init_later_read (FLOPPY_SPACE k') = Ok 1440"
    "undisturbed (fresh_kbd\<lparr>FLOPPY_SPACE := FLOPPY_SPACE k', BASE_OFFSET := BASE_OFFSET k', FLOPPY_INIT := True\<rparr>) k'"
    "unat (TIME k') \<le> unat (TIME fresh_kbd) + 3400" by blast
  from k'(3) have "FLOPPY_INIT k'" "PIT_INIT k' = PIT_INIT fresh_kbd" "KBD_RPTR k' = KBD_RPTR fresh_kbd" unfolding undisturbed_def by simp_all
  with k' show ?thesis by (intro exI [of _ k']) (simp add: fresh_kbd_unset(5))
qed

text \<open>
  The second drive cannot be reset: the first status after a reset is the first drive's, and the driver
  expects the selected one's.
\<close>

lemma second_drive_reset_fails:
  fixes k :: "'a kbd_scheme"
  assumes E: "compliant base d0 E" and "talking base d0 k0 (B + 420) d k" and "DRIVE_ONE k0"
  shows "\<exists>k'. init_fdc_with E rst k = Done (Err (SenseInterrupt UnknownError), k')"
proof -
  have "talking base d0 k0 (B + 300 + 60 + 60) d k" using assms(2) by (simp add: talking_def)
  with achieves_enable_motor [OF E] obtain u k1 where k1: "enable_motor E k = Done (Ok u, k1)" "talking base d0 k0 (B + 300 + 60) d k1"
    by (rule achievesE)
  obtain k2 where k2: "reset_pulse E (2 + base) k1 = Done k2" "talking base d0 k0 (B + 300) (was_reset d) k2"
    using reset_pulse_resets [OF E k1(2)] by blast
  let ?d = "d\<lparr>pending := [0xC1, 0xC2, 0xC3]\<rparr>"
  have dev: "held_out (was_reset d) = None" "accept 8 (was_reset d) = ?d\<lparr>phase := Result [0xC0, pcn d]\<rparr>"
    by (simp_all add: was_reset_def held_out_def accept_def cmd_length_def execute_def Let_def)
  have "talking base d0 k0 (B + 200 + 100) (was_reset d) k2" using k2(2) by (simp add: talking_def)
  with achieves_send_byte [OF E dev(1)] obtain v k3 where k3: "send_byte E 8 k2 = Done (Ok v, k3)" "talking base d0 k0 (B + 200) (?d\<lparr>phase := Result [0xC0, pcn d]\<rparr>) k3"
    unfolding dev(2) [symmetric] by (rule achievesE)
  have "talking base d0 k0 (B + 100 + 100) (?d\<lparr>phase := Result [0xC0, pcn d]\<rparr>) k3" using k3(2) by (simp add: talking_def)
  with achieves_read_Result(1) [OF E] obtain k4 where k4: "read_byte E k3 = Done (Ok 0xC0, k4)" "talking base d0 k0 (B + 100) (?d\<lparr>phase := Result [pcn d]\<rparr>) k4"
    by (rule achievesE) blast
  from achieves_read_Result(2) [OF E] k4(2) obtain k5 where k5: "read_byte E k4 = Done (Ok (pcn d), k5)" "talking base d0 k0 B (awaiting [] ?d) k5"
    by (rule achievesE) blast
  have "DRIVE_ONE k5" using talking_drive [OF k5(2)] assms(3) by simp
  then have "sense_int_with E rst FirstReset k2 = Done (Err (SenseInterrupt UnknownError), k5)"
    using k3(1) k4(1) k5(1) by (simp add: sense_int_with_def try_then_def Let_def throw_def ST0_ERR_OR_RESET_def)
  then show ?thesis
    using k1(1) k2(1) talking_port [OF k1(2), of DigitalOutputRegister]
    by (simp add: init_fdc_with_def try_then_def map_err_def run_then_def ok_def)
qed

section \<open>Bytes the controller does not take\<close>

text \<open>
  While the controller holds out a byte it takes none, and sending one ends by its timeout. For that the clock has to advance while
  the driver spins: of any \<open>N\<close> reads of the clock at least one sees a tick. \<open>ticks\<close> counts the reads of a log that did.
\<close>

primrec ticks :: "env \<Rightarrow> io list \<Rightarrow> nat" where
  "ticks E [] = 0"
| "ticks E (ev # l) = ticks E l + (if ev = ClockRead \<and> TimerIrq \<in> set (irqs E (ev # l)) then 1 else 0)"

definition keeps_time :: "nat \<Rightarrow> env \<Rightarrow> bool" where
  "keeps_time N E \<longleftrightarrow> (\<forall>evs l. N \<le> count_list evs ClockRead \<longrightarrow> ticks E l < ticks E (evs @ l))"

lemma count_list_split: "n \<le> count_list xs x \<Longrightarrow> \<exists>ys zs. xs = ys @ zs \<and> count_list zs x = n"
proof (induction xs)
  case (Cons y xs)
  show ?case
  proof (cases "n \<le> count_list xs x")
    case True
    with Cons.IH obtain ys zs where "xs = ys @ zs" "count_list zs x = n" by blast
    then show ?thesis by (intro exI [of _ "y # ys"] exI [of _ zs]) simp
  next
    case False
    with Cons.prems have "count_list (y # xs) x = n" by (simp split: if_splits)
    then show ?thesis by (intro exI [of _ "[]"] exI [of _ "y # xs"]) simp
  qed
qed simp

lemma ticks_many:
  assumes "keeps_time N E"
  shows "N * m \<le> count_list evs ClockRead \<Longrightarrow> ticks E l + m \<le> ticks E (evs @ l)"
proof (induction m arbitrary: evs)
  case 0
  have "ticks E l \<le> ticks E (evs @ l)" by (induction evs) auto
  then show ?case by simp
next
  case (Suc m)
  then obtain ys zs where evs: "evs = ys @ zs" "count_list zs ClockRead = N * m"
    using count_list_split [of "N * m" evs ClockRead] by auto
  then have "N \<le> count_list ys ClockRead" using Suc.prems by simp
  then have "ticks E (zs @ l) < ticks E (ys @ zs @ l)" using assms by (simp add: keeps_time_def)
  moreover have "ticks E l + m \<le> ticks E (zs @ l)" using Suc.IH [of zs] evs(2) by simp
  ultimately show ?case using evs(1) by simp
qed

lemma ticks_quiet: "count_list evs ClockRead = 0 \<Longrightarrow> ticks E (evs @ l) = ticks E l"
  by (induction evs) (auto split: if_splits)

text \<open>Handlers do not read the clock, and the timer's leaves a running motor alone.\<close>

abbreviation running :: "'a kbd_scheme \<Rightarrow> bool" where
  "running k \<equiv> MOTOR_STATE k \<noteq> MOTOR_OFF \<and> MOTOR_STATE k \<noteq> MOTOR_DISABLING"

lemma take_irq_reads:
  fixes k :: "'a kbd_scheme"
  shows "\<exists>evs. io_log (take_irq E i k) = evs @ io_log k \<and> count_list evs ClockRead = 0"
    and "running k \<Longrightarrow> running (take_irq E i k)"
proof -
  show "\<exists>evs. io_log (take_irq E i k) = evs @ io_log k \<and> count_list evs ClockRead = 0"
  proof (cases i)
    case TimerIrq
    have "\<exists>evs. io_log (decrease_motor_time k) = evs @ io_log k \<and> count_list evs ClockRead = 0"
      unfolding decrease_motor_time_def by (auto simp: send_disable_cmd_def writeb_eq Let_def split: sum.splits)
    then obtain evs where "io_log (decrease_motor_time k) = evs @ io_log k" "count_list evs ClockRead = 0" by blast
    then show ?thesis unfolding TimerIrq take_irq.simps timer_handler_eq
      by (intro exI [of _ "Out 0x20 EOI_COMMAND # Out 0x80 0 # evs"]) simp
  qed (auto simp: handler_defs kbd_handler_def readb_nodummy_def writeb_nodummy_def writeb_eq sti_def cli_def
      sync_time_to_rtc_def time_now_def read_cmos_reg_eq Let_def)
  assume "running k"
  then show "running (take_irq E i k)"
    by (cases i) (auto simp: timer_handler_eq decrease_motor_time_def motor_defs handler_defs kbd_handler_def readb_nodummy_def writeb_nodummy_def
        writeb_eq sti_def cli_def sync_time_to_rtc_def time_now_def read_cmos_reg_eq Let_def)
qed

lemma poll_reads:
  fixes k :: "'a kbd_scheme"
  shows "\<exists>evs. io_log (poll E ev k) = evs @ ev # io_log k \<and> count_list evs ClockRead = 0"
    and "running k \<Longrightarrow> running (poll E ev k)"
proof -
  have log: "\<exists>evs. io_log (fold (take_irq E) is k) = evs @ io_log k \<and> count_list evs ClockRead = 0" for "is" and k :: "'a kbd_scheme"
  proof (induction "is" arbitrary: k)
    case (Cons i "is")
    obtain as where "io_log (take_irq E i k) = as @ io_log k" "count_list as ClockRead = 0" using take_irq_reads(1) by blast
    moreover obtain bs where "io_log (fold (take_irq E) is (take_irq E i k)) = bs @ io_log (take_irq E i k)" "count_list bs ClockRead = 0"
      using Cons.IH by blast
    ultimately show ?case by (intro exI [of _ "bs @ as"]) simp
  qed simp
  have motor: "running k \<Longrightarrow> running (fold (take_irq E) is k)" for "is" and k :: "'a kbd_scheme"
    by (induction "is" arbitrary: k) (simp_all add: take_irq_reads(2))
  show "\<exists>evs. io_log (poll E ev k) = evs @ ev # io_log k \<and> count_list evs ClockRead = 0"
    using log [of "irqs E (ev # io_log k)" "k\<lparr>io_log := ev # io_log k\<rparr>"] by (auto simp: poll_def Let_def)
  show "running k \<Longrightarrow> running (poll E ev k)"
    using motor [of "k\<lparr>io_log := ev # io_log k\<rparr>"] by (simp add: poll_def Let_def)
qed

lemma wait_keeps_motor:
  fixes k :: "'a kbd_scheme"
  assumes "running k" and "wait E t k = Done k'"
  shows "running k'"
proof -
  have loop: "running k \<Longrightarrow> wait_loop E n target k = Done k' \<Longrightarrow> running k'" for n target and k k' :: "'a kbd_scheme"
  proof (induction n arbitrary: k)
    case (Suc n)
    let ?k1 = "poll E ClockRead k"
    have "running ?k1" "running (poll E Halt ?k1)" using Suc.prems(1) by (simp_all only: poll_reads(2) simp_thms)
    with Suc.prems(2) Suc.IH [of "poll E Halt ?k1"] show ?case by (auto simp: get_time_def hlt_def Let_def split: if_splits)
  qed simp
  have set: "MOTOR_STATE (set_waiting_char b k) = MOTOR_STATE k" for b and k :: "'a kbd_scheme"
    by (rule set_waiting_frame)
  show ?thesis
  proof (cases "PIT_INIT k")
    case True
    let ?k1 = "poll E ClockRead (set_waiting_char True k)"
    from True assms(2) obtain k2 where k2: "wait_loop E (fuel E) (TIME ?k1 + t + 1) ?k1 = Done k2" "k' = set_waiting_char False k2"
      by (auto simp: wait_def get_time_def Let_def andThen_eq_Done)
    have "running ?k1" using assms(1) by (intro poll_reads(2)) (simp only: set simp_thms)
    from loop [OF this k2(1)] show ?thesis unfolding k2(2) set by simp
  qed (use assms in \<open>simp add: wait_def\<close>)
qed

lemma enable_motor_runs:
  fixes k :: "'a kbd_scheme"
  assumes "enable_motor E k = Done (Ok u, k')"
  shows "running k'" and "compliant base d0 E \<Longrightarrow> talking base d0 k0 (B + 60) d k \<Longrightarrow> unat (TIME k) \<le> unat (TIME k')"
proof -
  have off: "running k'" "compliant base d0 E \<Longrightarrow> talking base d0 k0 (B + 60) d k \<Longrightarrow> unat (TIME k) \<le> unat (TIME k')" if "MOTOR_STATE k = MOTOR_OFF"
  proof -
    have "send_enable_cmd E k = Done (Ok u, k')" using assms that by (simp add: enable_motor_def)
    then obtain p where "wait E 50 ((if DRIVE_ONE k then writeb p 0b100101 k else writeb p 0b010100 k)\<lparr>MOTOR_STATE := MOTOR_ON\<rparr>) = Done k'"
      unfolding send_enable_cmd_def by (auto simp: run_then_def throw_def ok_def Let_def andThen_eq_Done split: sum.splits)
    moreover define k1 where "k1 = (if DRIVE_ONE k then writeb p 0b100101 k else writeb p 0b010100 k)\<lparr>MOTOR_STATE := MOTOR_ON\<rparr>"
    ultimately have w: "wait E 50 k1 = Done k'" by simp
    have "running k1" by (simp add: k1_def motor_defs)
    from wait_keeps_motor [OF this w] show "running k'" .
    assume E: "compliant base d0 E" and k: "talking base d0 k0 (B + 60) d k"
    have k1: "ints_on k1" "TIME k1 = TIME k" using talking_ints [OF k] by (simp_all add: k1_def writeb_eq)
    have "unat (50 :: u64) + 1 < fuel E" "unat (TIME k1) + unat (50 :: u64) + 5 < 2 ^ 64" "timer_latched E" "timer_wakes E"
      using E k k1(2) by (simp_all add: compliant_def talking_def)
    from wait_time [OF this(3,4) k1(1) this(1,2)] w have "unat (TIME k1) \<le> unat (TIME k')" by (auto split: if_splits)
    then show "unat (TIME k) \<le> unat (TIME k')" by (simp only: k1(2))
  qed
  have on: "running k'" "TIME k' = TIME k" if "MOTOR_STATE k \<noteq> MOTOR_OFF"
    using assms that by (auto simp: enable_motor_def ok_def motor_defs split: if_splits)
  show "running k'" and "compliant base d0 E \<Longrightarrow> talking base d0 k0 (B + 60) d k \<Longrightarrow> unat (TIME k) \<le> unat (TIME k')"
    using off on by (cases "MOTOR_STATE k = MOTOR_OFF"; simp)+
qed

lemma enable_motor_running: "running k \<Longrightarrow> enable_motor E k = Done (Ok (), k)"
  by (simp add: enable_motor_def ok_def)

text \<open>From every state with the property the call returns, with an error, in one with the other.\<close>

definition fails :: "('s \<Rightarrow> bool) \<Rightarrow> ('s, 'e, 'a) fallible \<Rightarrow> ('s \<Rightarrow> bool) \<Rightarrow> bool" where
  "fails P m Q \<longleftrightarrow> (\<forall>s. P s \<longrightarrow> (\<exists>e s'. m s = Done (Inl e, s') \<and> Q s'))"

lemma talking_between: "talking base d0 k0 C d k \<Longrightarrow> unat (TIME k) + B < 2 ^ 64 \<Longrightarrow> talking base d0 k0 B d k"
  by (simp add: talking_def)

text \<open>The clock as the driver reads it: it shows every tick of the log, and one more at most.\<close>

lemma poll_ticks:
  assumes E: "compliant base d0 E" and k: "talking base d0 k0 (B + 1) d k"
  shows "unat (TIME k) + ticks E (io_log (poll E ClockRead k)) \<le> unat (TIME (poll E ClockRead k)) + ticks E (io_log k)"
proof -
  have "timer_latched E" "unat (TIME k) < 2 ^ 64 - 1" using E k by (simp_all add: compliant_def talking_def)
  note t = poll_time [OF this(1) talking_ints [OF k] this(2)]
  obtain evs where "io_log (poll E ClockRead k) = evs @ ClockRead # io_log k" "count_list evs ClockRead = 0"
    using poll_reads(1) by blast
  then have "ticks E (io_log (poll E ClockRead k)) = ticks E (ClockRead # io_log k)" by (simp only: ticks_quiet)
  moreover have "TimerIrq \<in> set is \<Longrightarrow> 0 < count_list is TimerIrq" for "is" using count_list_0_iff [of "is" TimerIrq] by simp
  ultimately show ?thesis using t by (auto simp: Suc_le_eq)
qed

lemma send_byte_loop_times_out:
  fixes k :: "'a kbd_scheme"
  assumes E: "compliant base d0 E" and N: "keeps_time N E" and d: "held_out d = Some v"
    and M: "unat (start + TIMEOUT) \<le> M" "M + 1 + B < 2 ^ 64"
  shows "talking base d0 k0 0 d k \<Longrightarrow> running k \<Longrightarrow> unat (TIME k) \<le> M \<Longrightarrow> io_log k = evs @ l0
    \<Longrightarrow> t0 + ticks E (io_log k) \<le> unat (TIME k) + ticks E l0 \<Longrightarrow> N * (unat (start + TIMEOUT) - t0) \<le> count_list evs ClockRead + n
    \<Longrightarrow> \<exists>e k'. send_byte_loop E (Suc n) start b k = Done (Inl e, k') \<and> talking base d0 k0 B d k'"
proof (induction n arbitrary: k evs)
  case (0 k evs)
  have "talking base d0 k0 (B + 1) d k" using talking_between [OF 0(1)] M 0(3) by simp
  note k1 = talking_poll [OF E this]
  have "ticks E l0 + (unat (start + TIMEOUT) - t0) \<le> ticks E (evs @ l0)" using ticks_many [OF N] 0(6) by simp
  then have "unat (start + TIMEOUT) \<le> unat (TIME (poll E ClockRead k))" using 0(4,5) k1(2) by simp
  then have "\<not> TIME (poll E ClockRead k) < start + TIMEOUT" by (simp add: word_less_nat_alt)
  then show ?case using talking_motor(2) [OF k1(1)] by (auto simp: get_time_def Let_def throw_def)
next
  case (Suc n k evs)
  have k: "talking base d0 k0 (B + 1) d k" using talking_between [OF Suc.prems(1)] M Suc.prems(3) by simp
  let ?k1 = "poll E ClockRead k"
  note k1 = talking_poll [OF E k]
  show ?case
  proof (cases "TIME ?k1 < start + TIMEOUT")
    case False
    then show ?thesis using talking_motor(2) [OF k1(1)] by (auto simp: get_time_def Let_def throw_def)
  next
    case True
    have on: "running ?k1" using poll_reads(2) Suc.prems(2) by blast
    obtain m k2 where k2: "msr E ?k1 = Done (Ok m, k2)" "rqm_dio m = 3" "talking base d0 k0 B d k2"
      using achieves_msr [OF E] k1(1) by (rule achievesE) (use d in simp)
    have same: "MOTOR_STATE k2 = MOTOR_STATE ?k1" "TIME k2 = TIME ?k1"
        "io_log k2 = Inp (4 + base) m # Out 0x80 0 # io_log ?k1"
      using k2(1) talking_port [OF k1(1), of MainStatusRegister] by (auto simp: msr_def readb_eq Let_def ok_def)
    obtain as where as: "io_log ?k1 = as @ ClockRead # io_log k" "count_list as ClockRead = 0" using poll_reads(1) by blast
    have "\<exists>e k'. send_byte_loop E (Suc n) start b k2 = Done (Inl e, k') \<and> talking base d0 k0 B d k'"
    proof (rule Suc.IH)
      show "talking base d0 k0 0 d k2" using k2(3) by (rule talking_between) (use k2(3) in \<open>simp add: talking_def\<close>)
      show "running k2" using on same(1) by simp
      show "unat (TIME k2) \<le> M" using True M(1) same(2) by (simp add: word_less_nat_alt)
      show "io_log k2 = (Inp (4 + base) m # Out 0x80 0 # as @ ClockRead # evs) @ l0" using same(3) as(1) Suc.prems(4) by simp
      show "t0 + ticks E (io_log k2) \<le> unat (TIME k2) + ticks E l0"
        using poll_ticks [OF E k] Suc.prems(5) same(2,3) by simp
      show "N * (unat (start + TIMEOUT) - t0) \<le> count_list (Inp (4 + base) m # Out 0x80 0 # as @ ClockRead # evs) ClockRead + n"
        using as(2) Suc.prems(6) by simp
    qed
    moreover have "send_byte_loop E (Suc (Suc n)) start b k = send_byte_loop E (Suc n) start b k2"
      using True k2(1,2) enable_motor_running [OF on]
      by (subst send_byte_loop.simps(2)) (simp add: get_time_def Let_def try_then_def map_err_def del: send_byte_loop.simps)
    ultimately show ?thesis by simp
  qed
qed

lemma fails_send_byte:
  assumes E: "compliant base d0 E" and N: "keeps_time N E" "30 * N + 1 < fuel E" and d: "held_out d = Some v"
  shows "fails (talking base d0 k0 (B + 200) d) (send_byte E b) (talking base d0 k0 B d)"
  unfolding fails_def
proof (intro allI impI)
  fix k :: "'a kbd_scheme" assume "talking base d0 k0 (B + 200) d k"
  then have k: "talking base d0 k0 (B + 199 + 1) d k" by (simp add: talking_def)
  let ?k1 = "poll E ClockRead k"
  note k1 = talking_poll [OF E k]
  then have k1': "talking base d0 k0 (B + 138 + 60 + 1) d ?k1" by (simp add: talking_def)
  let ?k2 = "poll E ClockRead ?k1"
  note k2 = talking_poll [OF E k1']
  from achieves_enable_motor [OF E] k2(1) obtain u k3 where k3: "enable_motor E ?k2 = Done (Ok u, k3)" "talking base d0 k0 (B + 138) d k3"
    by (rule achievesE)
  from achieves_msr [OF E] k3(2) obtain m k4 where k4: "msr E k3 = Done (Ok m, k4)" "rqm_dio m = 3" "talking base d0 k0 (B + 138) d k4"
    by (rule achievesE) (use d in simp)
  have same: "MOTOR_STATE k4 = MOTOR_STATE k3" "TIME k4 = TIME k3"
    using k4(1) talking_port [OF k3(2), of MainStatusRegister] by (auto simp: msr_def readb_eq Let_def ok_def)
  have on: "running k4" using enable_motor_runs(1) [OF k3(1)] same(1) by simp
  let ?T = "TIME ?k1 + TIMEOUT" and ?M = "2 ^ 64 - 2 - B"
  have T: "unat ?T = unat (TIME ?k1) + 30" using k1(1) by (simp add: talking_def TIMEOUT_def unat_word_ariths)
  obtain n where n: "fuel E = Suc (Suc n)" "30 * N \<le> n" using N(2) less_imp_Suc_add [OF N(2)] by auto
  have low: "unat (TIME ?k1) \<le> unat (TIME k4)"
    using enable_motor_runs(2) [OF k3(1) E k2(1)] k2(2) same(2) by simp
  have "\<exists>e k'. send_byte_loop E (Suc n) (TIME ?k1) b k4 = Done (Inl e, k') \<and> talking base d0 k0 B d k'"
  proof (rule send_byte_loop_times_out [OF E N(1) d _ _ _ on, where M = ?M and evs = "[]" and ?l0.0 = "io_log k4" and ?t0.0 = "unat (TIME k4)"])
    show "unat ?T \<le> ?M" "?M + 1 + B < 2 ^ 64" "unat (TIME k4) \<le> ?M" using T k1(1) k4(3) by (auto simp: talking_def)
    show "talking base d0 k0 0 d k4" using k4(3) by (simp add: talking_def)
    show "N * (unat ?T - unat (TIME k4)) \<le> count_list [] ClockRead + n"
      by (rule order_trans [OF mult_le_mono2 [of _ 30]]) (use low T n(2) in simp_all)
  qed simp_all
  moreover have "TIME ?k2 < ?T" using k2(3) T by (simp add: word_less_nat_alt)
  then have "send_byte E b k = send_byte_loop E (Suc n) (TIME ?k1) b k4"
    using k3(1) k4(1,2) by (simp add: send_byte_def n(1) get_time_def Let_def try_then_def map_err_def)
  ultimately show "\<exists>e k'. send_byte E b k = Done (Inl e, k') \<and> talking base d0 k0 B d k'" by simp
qed

text \<open>
  A command for a controller that holds out bytes: its first byte is not taken, the driver resets the controller, and the second attempt gets through.
\<close>

lemma achieves_after_failure:
  assumes "fails P m R" and "achieves R g Q"
  shows "achieves P (match_res m (\<lambda>_. g) f) Q"
  unfolding achieves_def
proof (intro allI impI)
  fix s assume "P s"
  with assms(1) obtain e s' where "m s = Done (Inl e, s')" "R s'" unfolding fails_def by blast
  then show "\<exists>a s'. match_res m (\<lambda>_. g) f s = Done (Inr a, s') \<and> Q a s'"
    using assms(2) by (simp add: match_res_def achieves_def)
qed

lemma achieves_send_command_stuck:
  assumes E: "compliant base d0 E" and N: "keeps_time N E" "30 * N + 1 < fuel E" and k0: "resettable k0"
    and d: "held_out d = Some v" and len: "1 + length params = cmd_length (command_code cmd)"
  shows "achieves (talking base d0 k0 (B + 2300 + 100 * (1 + length params)) d) (send_command E cmd params)
    (\<lambda>_. talking base d0 k0 B (execute (command_code cmd # params) (d\<lparr>pending := []\<rparr>)))"
proof -
  let ?C = "B + 100 * (1 + length params)"
  have again: "achieves (talking base d0 k0 ?C (awaiting [] (d\<lparr>pending := []\<rparr>)))
      (send_command_loop E (init_fdc E) (Suc n) err (command_code cmd) params)
      (\<lambda>_. talking base d0 k0 B (execute (command_code cmd # params) (d\<lparr>pending := []\<rparr>)))" for n err
    by (rule achieves_send_command_loop [OF E len])
  have "achieves (talking base d0 k0 (?C + 2100 + 200) d) (send_command E cmd params)
      (\<lambda>_. talking base d0 k0 B (execute (command_code cmd # params) (d\<lparr>pending := []\<rparr>)))"
    unfolding send_command_def send_command_with_def RETRIES_def numeral_eq_Suc [of "num.Bit1 (num.Bit0 num.One)"] pred_numeral_simps
      ext [where f = "send_command_loop E (init_fdc E) (Suc n) (Ok ()) (command_code cmd) params" for n, OF send_command_loop.simps(2)]
      numeral_eq_Suc [of "num.Bit0 (num.Bit0 num.One)"] BitM.simps
    by (rule achieves_after_failure [OF fails_send_byte [OF E N d]], rule achieves_match_res [OF achieves_init_fdc [OF E k0]], rule again)
  then show ?thesis by (rule achieves_budget) simp
qed

lemma homes_stuck:
  assumes E: "compliant base d0 E" and N: "keeps_time N E" "30 * N + 1 < fuel E" and k0: "resettable k0" and d: "held_out d = Some v"
  shows "homes base d0 E k0 B d (talking base d0 k0 (B + 2800) d)"
proof -
  have num: "drive_num k0 = 0" using k0 by (simp add: resettable_def)
  have "achieves (talking base d0 k0 (B + 2800) d) (send_command E Recalibrate [0])
      (\<lambda>_. talking base d0 k0 (B + 300) (execute [7, 0] (d\<lparr>pending := []\<rparr>)))"
    using achieves_budget [OF achieves_send_command_stuck [OF E N k0 d, where cmd = Recalibrate and params = "[0]" and B = "B + 300"], of "B + 2800"]
    by (simp add: cmd_length_def)
  then have "achieves (talking base d0 k0 (B + 2800) d) (seek E None)
      (\<lambda>_. talking base d0 k0 B (awaiting [] (d\<lparr>pcn := seek_target None, pending := []\<rparr>)))"
    by (intro achieves_seek_from [OF E talking_drive]) (simp_all add: num execute_simps seek_target_def)
  then show ?thesis by (simp add: homes_def seek_target_def talking_def undisturbed_def)
qed

end
