(* ===== verification/Store.thy ===== *)
theory Store
  imports Reset Floppyfs
begin

text \<open>
  What the clients of kernel/src/floppy/disk.rs rely on: a store of sectors. The interface is a locale, with the
  transfers over track boundaries, formatting and sequences of accesses as its clients; the driver on a working
  controller implements it, with a budget of clock ticks that every access draws on.
\<close>

section \<open>The interface\<close>

text \<open>A run of sectors on one track, and the ticks that accessing it takes at most.\<close>

definition on_track :: "u64 \<Rightarrow> nat \<Rightarrow> bool" where
  "on_track ptr n \<longleftrightarrow> 0 < n \<and> unat ptr + n \<le> 2880 \<and> unat ptr mod 18 + n \<le> 18"

definition access_cost :: "nat \<Rightarrow> nat" where
  "access_cost n = 6000 + 102400 * n"

text \<open>\<open>R B s\<close>: in state \<open>s\<close> the store can be accessed, with a budget of \<open>B\<close> ticks.\<close>

locale sector_reads =
  fixes R :: "nat \<Rightarrow> 's \<Rightarrow> bool" and dr :: "('s, 'e) drive_read" and m :: "nat \<Rightarrow> bytes"
  assumes track_read: "on_track ptr n \<Longrightarrow> length buf = 512 * n \<Longrightarrow>
      achieves (R (B + access_cost n)) (dr ptr buf) (\<lambda>bs s. bs = sectors_of m (unat ptr) n \<and> R B s)"
    and spare: "R (B + c) s \<Longrightarrow> R B s"

lemma sectors_of_append: "sectors_of m a i @ sectors_of m (a + i) j = sectors_of m a (i + j)"
  using upt_add_eq_append [of a "a + i" j] by (simp add: sectors_of_def add.assoc)

lemma read_one_chunk: "read_chunks dr block 0 [buf] = (\<lambda>acc. try_then (dr block buf) (\<lambda>data. ok (acc @ data)))"
proof (intro ext)
  fix acc s
  have "read_chunks dr block 1 [] acc' = ok acc'" for acc' by (simp add: fun_eq_iff)
  then show "read_chunks dr block 0 [buf] acc s = try_then (dr block buf) (\<lambda>data. ok (acc @ data)) s" by simp
qed

lemma write_one_chunk: "write_chunks dw block 0 [buf] = try_then (dw block buf) (\<lambda>_. ok ())"
proof (intro ext)
  fix s
  have "write_chunks dw block 1 [] = ok ()" by (simp add: fun_eq_iff)
  then show "write_chunks dw block 0 [buf] s = try_then (dw block buf) (\<lambda>_. ok ()) s" by simp
qed

lemma table_size: "SIZE_OF_INODE * INODES = 17920" "INODES * SIZE_OF_INODE = 17920"
  by (simp_all add: SIZE_OF_INODE_def INODES_def)

lemma table_chunks: "chunks CYL_BOUNDARY (drop 8704 (replicate 17920 (0 :: u8))) = [replicate 9216 0]"
proof -
  have CB: "CYL_BOUNDARY = 9216" by (simp add: CYL_BOUNDARY_def SECTORS_def SECTOR_SIZE_def)
  show ?thesis unfolding CB by (subst chunks_short) simp_all
qed

context sector_reads
begin

lemma spare_le: "R B' s \<Longrightarrow> B \<le> B' \<Longrightarrow> R B s"
  using spare [of B "B' - B" s] by simp

lemma read_within:
  assumes "on_track ptr n" and "length buf = 512 * n" and "B + access_cost n \<le> B'"
  shows "achieves (R B') (dr ptr buf) (\<lambda>bs s. bs = sectors_of m (unat ptr) n \<and> R B s)"
  by (rule achieves_weaken [OF track_read [OF assms(1,2)]]) (auto intro: spare_le [OF _ assms(3)])

lemma header_read: "achieves (R (B + 110000)) (dr 0 (replicate SIZE_OF_HEADER 0)) (\<lambda>bs s. bs = m 0 \<and> R B s)"
  using read_within [of 0 1 "replicate SIZE_OF_HEADER 0" B "B + 110000"]
  by (simp add: on_track_def access_cost_def SIZE_OF_HEADER_def sectors_of_def)

text \<open>The inode table: 17 sectors of the first track and the whole second one.\<close>

lemma table_read:
  "achieves (R (B + 3600000)) (cyl_read dr INODE_START (replicate (SIZE_OF_INODE * INODES) 0)) (\<lambda>bs s. bs = sectors_of m 1 35 \<and> R B s)"
proof -
  have run: "cyl_read dr INODE_START (replicate (SIZE_OF_INODE * INODES) 0)
      = try_then (dr 1 (replicate 8704 0)) (\<lambda>data. try_then (dr 18 (replicate 9216 0)) (\<lambda>data'. ok (data @ data')))"
    using cyl_read_split [of 1 dr "replicate 17920 0"] table_chunks
    by (simp add: INODE_START_def table_size read_one_chunk del: read_chunks.simps)
  have one: "achieves (R (B + 3600000)) (dr 1 (replicate 8704 0)) (\<lambda>bs s. bs = sectors_of m 1 17 \<and> R (B + 1850000) s)"
    using read_within [of 1 17 "replicate 8704 0" "B + 1850000"] by (simp add: on_track_def access_cost_def)
  have two: "achieves (R (B + 1850000)) (dr 18 (replicate 9216 0)) (\<lambda>bs s. bs = sectors_of m 18 18 \<and> R B s)"
    using read_within [of 18 18 "replicate 9216 0" B] by (simp add: on_track_def access_cost_def)
  show ?thesis
    unfolding run
    by (rule achieves_try_then_val [OF one], rule achieves_try_then_val [OF two])
      (use sectors_of_append [of m 1 17 18] in \<open>auto intro: achieves_ok\<close>)
qed

end

text \<open>A store that can also be written.\<close>

locale sector_store =
  fixes S :: "(nat \<Rightarrow> bytes) \<Rightarrow> nat \<Rightarrow> 's \<Rightarrow> bool" and dr :: "('s, 'e) drive_read" and dw :: "('s, 'e) drive_write"
  assumes reads: "sector_reads (S m) dr m"
    and track_write: "on_track ptr n \<Longrightarrow> length buf = 512 * n \<Longrightarrow>
      achieves (S m (B + access_cost n)) (dw ptr buf) (\<lambda>_. S (write_sectors (unat ptr) buf m) B)"

sublocale sector_store \<subseteq> sector_reads "S m" dr m for m
  by (rule reads)

text \<open>A sequence of accesses, by a driver and on the sectors themselves.\<close>

datatype access = ReadAt u64 nat | WriteAt u64 bytes

fun on_one_track :: "access \<Rightarrow> bool" where
  "on_one_track (ReadAt ptr n) = on_track ptr n"
| "on_one_track (WriteAt ptr buf) = (on_track ptr (length buf div 512) \<and> length buf mod 512 = 0)"

fun cost_of :: "access \<Rightarrow> nat" where
  "cost_of (ReadAt ptr n) = access_cost n"
| "cost_of (WriteAt ptr buf) = access_cost (length buf div 512)"

fun perform :: "('s, 'e) drive_read \<Rightarrow> ('s, 'e) drive_write \<Rightarrow> access list \<Rightarrow> bytes list \<Rightarrow> ('s, 'e, bytes list) fallible" where
  "perform dr dw [] got = ok got"
| "perform dr dw (ReadAt ptr n # as) got = try_then (dr ptr (replicate (512 * n) 0)) (\<lambda>bs. perform dr dw as (got @ [bs]))"
| "perform dr dw (WriteAt ptr buf # as) got = try_then (dw ptr buf) (\<lambda>_. perform dr dw as got)"

fun reads_of :: "(nat \<Rightarrow> bytes) \<Rightarrow> access list \<Rightarrow> bytes list" where
  "reads_of m [] = []"
| "reads_of m (ReadAt ptr n # as) = sectors_of m (unat ptr) n # reads_of m as"
| "reads_of m (WriteAt ptr buf # as) = reads_of (write_sectors (unat ptr) buf m) as"

fun sectors_after :: "(nat \<Rightarrow> bytes) \<Rightarrow> access list \<Rightarrow> nat \<Rightarrow> bytes" where
  "sectors_after m [] = m"
| "sectors_after m (ReadAt ptr n # as) = sectors_after m as"
| "sectors_after m (WriteAt ptr buf # as) = sectors_after (write_sectors (unat ptr) buf m) as"

text \<open>The sectors after formatting.\<close>

definition formatted :: "filesystem_header \<Rightarrow> (nat \<Rightarrow> bytes) \<Rightarrow> nat \<Rightarrow> bytes" where
  "formatted h m i = (if i = 0 then header_as_bytes h else if i < 36 then replicate 512 0 else m i)"

lemma formatted_eq:
  assumes "length (header_as_bytes h) = 512"
  shows "write_sectors 18 (replicate 9216 0) (write_sectors 1 (replicate 8704 0) (write_sectors 0 (header_as_bytes h) m)) = formatted h m"
proof (intro ext)
  fix i :: nat
  have "512 + 512 * (i - a) \<le> 512 * n" if "a \<le> i" "i < a + n" for a n using that by auto
  from this [of 1 17] this [of 18 18]
  show "write_sectors 18 (replicate 9216 0) (write_sectors 1 (replicate 8704 0) (write_sectors 0 (header_as_bytes h) m)) i = formatted h m i"
    using assms by (auto simp: write_sectors_def formatted_def)
qed

context sector_store
begin

lemma write_within:
  assumes "on_track ptr n" and "length buf = 512 * n" and "B + access_cost n \<le> B'"
  shows "achieves (S m B') (dw ptr buf) (\<lambda>_. S (write_sectors (unat ptr) buf m) B)"
  by (rule achieves_weaken [OF track_write [OF assms(1,2)]]) (auto intro: spare_le [OF _ assms(3)])

lemma format_store:
  assumes h: "length (header_as_bytes h) = 512"
  shows "achieves (S m (B + 3710000)) (reformat_drive h (cyl_write dw)) (\<lambda>_. S (formatted h m) B)"
proof -
  let ?m1 = "write_sectors 0 (header_as_bytes h) m" and ?a = "replicate 8704 (0 :: u8)" and ?b = "replicate 9216 (0 :: u8)"
  have run0: "cyl_write dw 0 (header_as_bytes h) = try_then (dw 0 (header_as_bytes h)) (\<lambda>_. ok ())"
  proof -
    have "write_chunks dw 18 0 [] = ok ()" by (simp add: fun_eq_iff)
    then show ?thesis using cyl_write_split [of 0 dw "header_as_bytes h"] h by simp
  qed
  have run1: "cyl_write dw INODE_START (replicate (INODES * SIZE_OF_INODE) 0)
      = try_then (dw 1 ?a) (\<lambda>_. try_then (dw 18 ?b) (\<lambda>_. ok ()))"
    using cyl_write_split [of 1 dw "replicate 17920 0"] table_chunks
    by (simp add: INODE_START_def table_size write_one_chunk del: write_chunks.simps)
  have zero: "achieves (S m (B + 3710000)) (dw 0 (header_as_bytes h)) (\<lambda>_. S ?m1 (B + 3600000))"
    using write_within [of 0 1 "header_as_bytes h" "B + 3600000"] h by (simp add: on_track_def access_cost_def)
  have one: "achieves (S ?m1 (B + 3600000)) (dw 1 ?a) (\<lambda>_. S (write_sectors 1 ?a ?m1) (B + 1850000))"
    using write_within [of 1 17 ?a "B + 1850000"] by (simp add: on_track_def access_cost_def)
  have two: "achieves (S (write_sectors 1 ?a ?m1) (B + 1850000)) (dw 18 ?b) (\<lambda>_. S (formatted h m) B)"
    unfolding formatted_eq [OF h, of m, symmetric] using write_within [of 18 18 ?b B] by (simp add: on_track_def access_cost_def)
  have fin: "achieves (S M C) (ok ()) (\<lambda>_. S M C)" for M C by (simp add: achieves_ok)
  show ?thesis
    unfolding reformat_drive_def run0 run1
    by (rule achieves_try_then [OF achieves_try_then [OF zero fin]], rule achieves_try_then [OF _ fin],
        rule achieves_try_then [OF one], rule achieves_try_then [OF two fin])
qed

lemma performs:
  "list_all on_one_track as \<Longrightarrow> achieves (S m (B + sum_list (map cost_of as))) (perform dr dw as got)
     (\<lambda>bss s. bss = got @ reads_of m as \<and> S (sectors_after m as) B s)"
proof (induction as arbitrary: m got)
  case Nil
  then show ?case by (simp add: achieves_ok)
next
  case (Cons a as)
  let ?B = "B + sum_list (map cost_of as)"
  show ?case
  proof (cases a)
    case (ReadAt ptr n)
    have "achieves (S m (B + sum_list (map cost_of (a # as)))) (dr ptr (replicate (512 * n) 0)) (\<lambda>bs s. bs = sectors_of m (unat ptr) n \<and> S m ?B s)"
      using Cons.prems by (intro read_within) (simp_all add: ReadAt)
    then show ?thesis
      using Cons.IH [of m "got @ [sectors_of m (unat ptr) n]"] Cons.prems
      by (auto simp: ReadAt intro: achieves_try_then_val)
  next
    case (WriteAt ptr buf)
    have "achieves (S m (B + sum_list (map cost_of (a # as)))) (dw ptr buf) (\<lambda>_. S (write_sectors (unat ptr) buf m) ?B)"
      using Cons.prems by (intro write_within [where n = "length buf div 512"]) (auto simp: WriteAt)
    then show ?thesis
      using Cons.IH [of "write_sectors (unat ptr) buf m" got] Cons.prems
      by (auto simp: WriteAt intro: achieves_try_then)
  qed
qed

end

section \<open>The driver\<close>

text \<open>
  The driver with the controller at rest: of \<open>k0\<close> only the counter of bytes read and what interrupts change may differ.
\<close>

definition resting :: "u16 \<Rightarrow> device \<Rightarrow> env \<Rightarrow> 'a kbd_scheme \<Rightarrow> (nat \<Rightarrow> bytes) \<Rightarrow> nat \<Rightarrow> 'a kbd_scheme \<Rightarrow> bool" where
  "resting base d0 E k0 m B k \<longleftrightarrow> compliant base d0 E \<and> FLOPPY_INIT k0 \<and> (\<forall>i < 2880. length (m i) = 512)
     \<and> (\<exists>x d. talking base d0 (k0\<lparr>READ_BYTES := x\<rparr>) B d k \<and> phase d = Command [] \<and> medium d = m)"

text \<open>
  The driver between accesses, after a write also with the controller holding out its result bytes; then the next access needs a reset, and the clock has to advance while the
  driver spins.
\<close>

definition serving :: "u16 \<Rightarrow> device \<Rightarrow> env \<Rightarrow> 'a kbd_scheme \<Rightarrow> (nat \<Rightarrow> bytes) \<Rightarrow> nat \<Rightarrow> 'a kbd_scheme \<Rightarrow> bool" where
  "serving base d0 E k0 m B k \<longleftrightarrow> compliant base d0 E \<and> FLOPPY_INIT k0 \<and> (\<forall>i < 2880. length (m i) = 512)
     \<and> resettable k0 \<and> (\<exists>N. keeps_time N E \<and> 30 * N + 1 < fuel E)
     \<and> (\<exists>x y d. talking base d0 (k0\<lparr>READ_BYTES := x, WRITTEN_BYTES := y\<rparr>) B d k
          \<and> (phase d = Command [] \<or> held_out d \<noteq> None) \<and> medium d = m)"

lemma restingI:
  assumes "compliant base d0 E" "FLOPPY_INIT k0" "\<forall>i < 2880. length (m i) = 512"
    and "talking base d0 (k0\<lparr>READ_BYTES := x\<rparr>) B d k" "phase d = Command []" "medium d = m"
  shows "resting base d0 E k0 m B k"
  using assms unfolding resting_def by blast

lemma servingI:
  assumes "compliant base d0 E" "FLOPPY_INIT k0" "\<forall>i < 2880. length (m i) = 512" "resettable k0" "\<exists>N. keeps_time N E \<and> 30 * N + 1 < fuel E"
    and "talking base d0 (k0\<lparr>READ_BYTES := x, WRITTEN_BYTES := y\<rparr>) B d k" "phase d = Command [] \<or> held_out d \<noteq> None" "medium d = m"
  shows "serving base d0 E k0 m B k"
  using assms unfolding serving_def by blast

lemma disk_read_run:
  assumes "FLOPPY_INIT k" and "0 < n" and "length buf = 512 * n"
  shows "disk_read E ptr buf k = disk_read_retry E DISK_RETRIES (ReadOrWrite IoTimeout) (ucast ptr) (of_nat n) (512 * n) k"
  using assms by (auto simp: disk_read_def SECTOR_SIZE_def)

lemma disk_write_run:
  assumes "FLOPPY_INIT k" and "0 < n" and "length buf = 512 * n"
  shows "disk_write E ptr buf k = disk_write_retry E DISK_RETRIES (ReadOrWrite IoTimeout) (ucast ptr) (of_nat n) buf k"
  using assms by (auto simp: disk_write_def SECTOR_SIZE_def)

lemma disk_read_from:
  assumes E: "compliant base d0 E" and "FLOPPY_INIT k0" and m: "\<forall>i < 2880. length (medium d i) = 512"
    and P: "homes base d0 E k0 (B + 2400 + 102400 * n) d P" and addr: "on_track ptr n" and "length buf = 512 * n"
  shows "achieves P (disk_read E ptr buf)
    (\<lambda>bs k. bs = sectors_of (medium d) (unat ptr) n \<and>
       (\<exists>d'. talking base d0 (k0\<lparr>READ_BYTES := READ_BYTES k0 + of_nat (512 * n)\<rparr>) B d' k \<and> phase d' = Command [] \<and> medium d' = medium d))"
proof -
  have lba: "unat (ucast ptr :: u16) = unat ptr" using addr by (intro ucast_sector) (simp add: on_track_def)
  obtain r where r: "DISK_RETRIES = Suc r" by (simp add: DISK_RETRIES_def)
  have init: "FLOPPY_INIT k" if "P k" for k using P that assms(2) by (simp add: homes_def)
  note track = addr [unfolded on_track_def, folded lba]
  from achieves_disk_read_retry [OF E assms(2) m P, where lba = "ucast ptr" and r = r and err = "ReadOrWrite IoTimeout"] track
  have "achieves P (disk_read_retry E DISK_RETRIES (ReadOrWrite IoTimeout) (ucast ptr) (of_nat n) (512 * n))
    (\<lambda>bs k. bs = sectors_of (medium d) (unat ptr) n \<and>
       (\<exists>d'. talking base d0 (k0\<lparr>READ_BYTES := READ_BYTES k0 + of_nat (512 * n)\<rparr>) B d' k \<and> phase d' = Command [] \<and> medium d' = medium d))"
    by (simp add: lba r)
  then show ?thesis by (rule achieves_pointwise) (use addr assms(6) in \<open>auto simp: on_track_def intro: disk_read_run init\<close>)
qed

lemma disk_write_from:
  assumes E: "compliant base d0 E" and "FLOPPY_INIT k0"
    and P: "homes base d0 E k0 (B + 1600 + 102400 * n) d P" and addr: "on_track ptr n" and "length buf = 512 * n"
  shows "achieves P (disk_write E ptr buf)
    (\<lambda>_ k. \<exists>d'. talking base d0 (k0\<lparr>WRITTEN_BYTES := WRITTEN_BYTES k0 + of_nat (512 * n)\<rparr>) B d' k
       \<and> (\<exists>b bs. phase d' = Result (b # bs)) \<and> medium d' = write_sectors (unat ptr) buf (medium d))"
proof -
  have lba: "unat (ucast ptr :: u16) = unat ptr" using addr by (intro ucast_sector) (simp add: on_track_def)
  obtain r where r: "DISK_RETRIES = Suc r" by (simp add: DISK_RETRIES_def)
  have init: "FLOPPY_INIT k" if "P k" for k using P that assms(2) by (simp add: homes_def)
  note track = addr [unfolded on_track_def, folded lba]
  from achieves_disk_write_retry [OF E assms(2) P, where lba = "ucast ptr" and r = r and err = "ReadOrWrite IoTimeout" and buf = buf] track assms(5)
  have "achieves P (disk_write_retry E DISK_RETRIES (ReadOrWrite IoTimeout) (ucast ptr) (of_nat n) buf)
    (\<lambda>_ k. \<exists>d'. talking base d0 (k0\<lparr>WRITTEN_BYTES := WRITTEN_BYTES k0 + of_nat (512 * n)\<rparr>) B d' k
       \<and> (\<exists>b bs. phase d' = Result (b # bs)) \<and> medium d' = write_sectors (unat ptr) buf (medium d))"
    by (simp add: lba r)
  then show ?thesis by (rule achieves_pointwise) (use addr assms(5) in \<open>auto simp: on_track_def intro: disk_write_run init\<close>)
qed

lemma achieves_from:
  assumes "\<And>s. P s \<Longrightarrow> \<exists>P' Q'. P' s \<and> achieves P' c Q' \<and> (\<forall>a s. Q' a s \<longrightarrow> Q a s)"
  shows "achieves P c Q"
  unfolding achieves_def
proof (intro allI impI)
  fix s assume "P s"
  with assms obtain P' Q' where "P' s" "achieves P' c Q'" "\<forall>a s. Q' a s \<longrightarrow> Q a s" by blast
  then show "\<exists>a s'. c s = Done (Inr a, s') \<and> Q a s'" unfolding achieves_def by blast
qed

interpretation resting_driver: sector_reads "resting base d0 E k0 m" "disk_read E" m for base d0 E k0 m
proof
  fix ptr n B and buf :: bytes
  assume addr: "on_track ptr n" and len: "length buf = 512 * n"
  show "achieves (resting base d0 E k0 m (B + access_cost n)) (disk_read E ptr buf)
      (\<lambda>bs s. bs = sectors_of m (unat ptr) n \<and> resting base d0 E k0 m B s)" (is "achieves _ _ ?Q")
  proof (rule achieves_from)
    fix k assume k: "resting base d0 E k0 m (B + access_cost n) k"
    then obtain x d where t: "talking base d0 (k0\<lparr>READ_BYTES := x\<rparr>) (B + access_cost n) d k" "phase d = Command []" "medium d = m"
      unfolding resting_def by blast
    have r: "compliant base d0 E" "FLOPPY_INIT k0" "\<forall>i < 2880. length (m i) = 512" using k by (simp_all add: resting_def)
    have "awaiting [] d = d" using t(2) by (simp add: awaiting_def)
    then have "homes base d0 E (k0\<lparr>READ_BYTES := x\<rparr>) (B + 2400 + 102400 * n) d (talking base d0 (k0\<lparr>READ_BYTES := x\<rparr>) (B + access_cost n) d)"
      using homes_ready [OF r(1), where d = d and B = "B + 2400 + 102400 * n" and B' = "B + access_cost n"] by (simp add: access_cost_def)
    note run = disk_read_from [OF r(1) _ _ this addr len, unfolded t(3), OF _ r(3)]
    show "\<exists>P' Q'. P' k \<and> achieves P' (disk_read E ptr buf) Q' \<and> (\<forall>a s. Q' a s \<longrightarrow> ?Q a s)"
      by (rule exI, rule exI, rule conjI [OF t(1)], rule conjI [OF run]) (use restingI [OF r] r(2) in auto)
  qed
qed (auto simp: resting_def dest: talking_less)

lemma homes_serving:
  assumes E: "compliant base d0 E" "keeps_time N E" "30 * N + 1 < fuel E" and k: "resettable k0" "phase d = Command [] \<or> held_out d \<noteq> None"
  shows "homes base d0 E k0 B d (talking base d0 k0 (B + 3000) d)"
proof (cases "phase d = Command []")
  case True
  then have "awaiting [] d = d" by (simp add: awaiting_def)
  then show ?thesis using homes_ready [OF E(1), of B "B + 3000" k0 d] by simp
next
  case False
  then obtain v where "held_out d = Some v" using k(2) by auto
  from homes_stuck [OF E k(1) this, of "B + 200"] show ?thesis
    unfolding homes_def by (auto elim!: achieves_weaken simp: talking_def)
qed

lemma written_sectors_full:
  assumes "\<forall>i < 2880. length (m i) = 512" and "length buf = 512 * n"
  shows "\<forall>i < 2880. length (write_sectors ptr buf m i) = 512"
proof -
  have "512 + 512 * (i - ptr) \<le> 512 * n" if "ptr \<le> i" "i < ptr + n" for i using that by auto
  then show ?thesis using assms by (auto simp: write_sectors_def)
qed

lemma held_out_Result: "phase d = Result (b # bs) \<Longrightarrow> held_out d = Some b"
  by (simp add: held_out_def)

lemma serving_less: "serving base d0 E k0 m (B + c) k \<Longrightarrow> serving base d0 E k0 m B k"
  unfolding serving_def using talking_less by blast

text \<open>Where an access starts.\<close>

lemma serving_start:
  assumes "serving base d0 E k0 m (B + access_cost n) k"
  shows "\<exists>k1 d. (\<exists>x y. k1 = k0\<lparr>READ_BYTES := x, WRITTEN_BYTES := y\<rparr>) \<and> talking base d0 k1 (B + access_cost n) d k \<and> medium d = m
    \<and> homes base d0 E k1 (B + 3000 + 102400 * n) d (talking base d0 k1 (B + access_cost n) d)"
proof -
  obtain N x y d where N: "keeps_time N E" "30 * N + 1 < fuel E"
    and d: "talking base d0 (k0\<lparr>READ_BYTES := x, WRITTEN_BYTES := y\<rparr>) (B + access_cost n) d k"
      "phase d = Command [] \<or> held_out d \<noteq> None" "medium d = m"
    using assms unfolding serving_def by blast
  let ?k1 = "k0\<lparr>READ_BYTES := x, WRITTEN_BYTES := y\<rparr>"
  have "compliant base d0 E" "resettable ?k1" using assms by (simp_all add: serving_def resettable_def)
  note homes_serving [OF this(1) N this(2) d(2), of "B + 3000 + 102400 * n"]
  moreover have "B + 3000 + 102400 * n + 3000 = B + access_cost n" by (simp add: access_cost_def)
  ultimately show ?thesis using d by (intro exI [of _ ?k1] exI [of _ d]) auto
qed

lemma homes_less: "homes base d0 E k0 (B + c) d P \<Longrightarrow> homes base d0 E k0 B d P"
  unfolding homes_def by (auto elim!: achieves_weaken simp: talking_def)

lemma serving_parts:
  assumes "serving base d0 E k0 m B k"
  shows "compliant base d0 E" "FLOPPY_INIT k0" "\<forall>i < 2880. length (m i) = 512" "resettable k0" "\<exists>N. keeps_time N E \<and> 30 * N + 1 < fuel E"
  using assms by (simp_all add: serving_def)

lemma serving_read:
  assumes addr: "on_track ptr n" and len: "length buf = 512 * n"
  shows "achieves (serving base d0 E k0 m (B + access_cost n)) (disk_read E ptr buf)
      (\<lambda>bs s. bs = sectors_of m (unat ptr) n \<and> serving base d0 E k0 m B s)" (is "achieves _ _ ?Q")
proof (rule achieves_from)
  fix k assume k: "serving base d0 E k0 m (B + access_cost n) k"
  obtain k1 d x y where k1: "k1 = k0\<lparr>READ_BYTES := x, WRITTEN_BYTES := y\<rparr>" and t: "talking base d0 k1 (B + access_cost n) d k" "medium d = m"
    and P: "homes base d0 E k1 (B + 2400 + 102400 * n + 600) d (talking base d0 k1 (B + access_cost n) d)"
    using serving_start [OF k] by (auto simp: algebra_simps)
  note p = serving_parts [OF k]
  have k1': "FLOPPY_INIT k1" "k1\<lparr>READ_BYTES := v\<rparr> = k0\<lparr>READ_BYTES := v, WRITTEN_BYTES := y\<rparr>" for v using p(2) by (simp_all add: k1)
  note run = disk_read_from [OF p(1) k1'(1) _ homes_less [OF P] addr len, unfolded t(2) k1'(2), OF p(3)]
  show "\<exists>P' Q'. P' k \<and> achieves P' (disk_read E ptr buf) Q' \<and> (\<forall>a s. Q' a s \<longrightarrow> ?Q a s)"
    by (rule exI, rule exI, rule conjI [OF t(1)], rule conjI [OF run]) (use servingI [OF p] in auto)
qed

lemma serving_write:
  assumes addr: "on_track ptr n" and len: "length buf = 512 * n"
  shows "achieves (serving base d0 E k0 m (B + access_cost n)) (disk_write E ptr buf)
      (\<lambda>_. serving base d0 E k0 (write_sectors (unat ptr) buf m) B)" (is "achieves _ _ ?Q")
proof (rule achieves_from)
  fix k assume k: "serving base d0 E k0 m (B + access_cost n) k"
  obtain k1 d x y where k1: "k1 = k0\<lparr>READ_BYTES := x, WRITTEN_BYTES := y\<rparr>" and t: "talking base d0 k1 (B + access_cost n) d k" "medium d = m"
    and P: "homes base d0 E k1 (B + 1600 + 102400 * n + 1400) d (talking base d0 k1 (B + access_cost n) d)"
    using serving_start [OF k] by (auto simp: algebra_simps)
  note p = serving_parts [OF k] and full = written_sectors_full [OF serving_parts(3) [OF k] len]
  have k1': "FLOPPY_INIT k1" "k1\<lparr>WRITTEN_BYTES := v\<rparr> = k0\<lparr>READ_BYTES := x, WRITTEN_BYTES := v\<rparr>" for v using p(2) by (simp_all add: k1)
  note run = disk_write_from [OF p(1) k1'(1) homes_less [OF P] addr len, unfolded t(2) k1'(2)]
  show "\<exists>P' Q'. P' k \<and> achieves P' (disk_write E ptr buf) Q' \<and> (\<forall>a s. Q' a s \<longrightarrow> ?Q a s)"
    by (rule exI, rule exI, rule conjI [OF t(1)], rule conjI [OF run]) (use servingI [OF p(1,2) full p(4,5)] in \<open>auto simp: held_out_Result\<close>)
qed

interpretation driver: sector_store "serving base d0 E k0" "disk_read E" "disk_write E" for base d0 E k0
proof
  show "achieves (serving base d0 E k0 m (B + access_cost n)) (disk_read E ptr buf)
      (\<lambda>bs s. bs = sectors_of m (unat ptr) n \<and> serving base d0 E k0 m B s)"
    if "on_track ptr n" "length buf = 512 * n" for m ptr n B and buf :: bytes using that by (rule serving_read)
  show "achieves (serving base d0 E k0 m (B + access_cost n)) (disk_write E ptr buf)
      (\<lambda>_. serving base d0 E k0 (write_sectors (unat ptr) buf m) B)"
    if "on_track ptr n" "length buf = 512 * n" for m ptr n B and buf :: bytes using that by (rule serving_write)
qed (rule serving_less)

lemma at_rest_serving:
  assumes "compliant base d0 E" "keeps_time N E" "30 * N + 1 < fuel E" "at_rest base d0 d k" "resettable k" "unat (TIME k) + B < 2 ^ 64"
  shows "serving base d0 E k (medium d) B k"
  by (rule servingI [where x = "READ_BYTES k" and y = "WRITTEN_BYTES k" and d = d])
    (use assms in \<open>auto simp: at_rest_def talking_def\<close>)

text \<open>
  C4: the driver on a working controller implements a store of sectors: any sequence of reads and writes, each within one track, succeeds, with
  interrupts arriving at any time and with the resets that a command needs after a write. The reads return what was last written to their
  sectors, or what the medium held; in the end the medium holds exactly the writes; and the whole takes a bounded number of ticks.
\<close>

theorem driver_implements_store:
  fixes k :: "'a kbd_scheme"
  assumes "compliant base d0 E" and "keeps_time N E" and "30 * N + 1 < fuel E" and "at_rest base d0 d k" and "resettable k"
    and "list_all on_one_track as" and "unat (TIME k) + sum_list (map cost_of as) < 2 ^ 64"
  shows "\<exists>k'. perform (disk_read E) (disk_write E) as [] k = Done (Ok (reads_of (medium d) as), k')
    \<and> medium (after base d0 (io_log k')) = sectors_after (medium d) as
    \<and> unat (TIME k') \<le> unat (TIME k) + sum_list (map cost_of as)"
proof -
  let ?C = "sum_list (map cost_of as)" and ?m = "sectors_after (medium d) as"
  let ?B = "2 ^ 64 - 1 - (unat (TIME k) + ?C)"
  have "serving base d0 E k (medium d) (?B + ?C) k" using assms(7) by (intro at_rest_serving [OF assms(1-5)]) simp
  with driver.performs [OF assms(6), where got = "[]"] obtain k' where k': "perform (disk_read E) (disk_write E) as [] k = Done (Ok (reads_of (medium d) as), k')"
    "serving base d0 E k ?m ?B k'"
    by (rule achievesE) auto
  then obtain k1 d' where t: "talking base d0 k1 ?B d' k'" "medium d' = ?m" unfolding serving_def by blast
  have "unat (TIME k') \<le> unat (TIME k) + ?C" using t(1) assms(7) by (rule talking_elapsed)
  then show ?thesis using k'(1) talking_dev [OF t(1)] t(2) by auto
qed

lemma device_env_keeps_time: "keeps_time 1 (device_env d0)" "30 * 1 + 1 < fuel (device_env d0)"
proof -
  have "ticks (device_env d0) (evs @ l) = ticks (device_env d0) l + count_list evs ClockRead" for evs l
    by (induction evs) (simp_all add: device_env_def sample_env_def)
  then show "keeps_time 1 (device_env d0)" by (simp add: keeps_time_def)
qed (simp add: device_env_def sample_env_def)

definition drive_kbd :: kbd where
  "drive_kbd = rested_kbd\<lparr>FLOPPY_SPACE := snd (init_later_init 1440 (init_later_uninit 0))\<rparr>"

lemma drive_kbd_ready: "at_rest 0x3F0 sample_device sample_device drive_kbd" "resettable drive_kbd" "TIME drive_kbd = 0"
  using rested_kbd_at_rest
  by (simp_all add: at_rest_def base_known_def drive_kbd_def resettable_def init_later_init_def init_later_uninit_def init_later_read_def Let_def)
    (simp add: rested_kbd_def running_kbd_def initial_kbd_def based_fdc_def initial_fdc_def fdc.extend_def clock.extend_def)

theorem driver_implements_store_witness:
  "\<exists>k'. perform (disk_read (device_env sample_device)) (disk_write (device_env sample_device))
       [WriteAt 20 (replicate 512 7), ReadAt 19 2, WriteAt 20 (replicate 512 9), ReadAt 20 1] [] drive_kbd
     = Done (Ok [replicate 512 19 @ replicate 512 7, replicate 512 9], k')"
proof -
  let ?as = "[WriteAt 20 (replicate 512 7), ReadAt 19 2, WriteAt 20 (replicate 512 9), ReadAt 20 1]"
  have "reads_of (medium sample_device) ?as = [replicate 512 19 @ replicate 512 7, replicate 512 9]"
    by (simp add: sectors_of_def sample_device_def write_sectors_def upt_rec)
  then show ?thesis
    using driver_implements_store [OF device_env_compliant device_env_keeps_time drive_kbd_ready(1,2), of ?as] drive_kbd_ready(3)
    by (auto simp: on_track_def access_cost_def)
qed

end
