(* ===== verification/Mount.thy ===== *)
theory Mount
  imports Store
begin

text \<open>
  Mounting the filesystem of kernel/src/floppy/floppyfs.rs through the driver on a working
  controller: the header and the inode table read back are the sectors of the medium, split over
  two tracks and read byte by byte, with interrupts arriving in between; and what formatting
  wrote can be mounted.
\<close>

section \<open>Mounting\<close>

text \<open>Mounting, from what its two reads return.\<close>

lemma mount_reads:
  fixes k :: "'a fsk_scheme"
  assumes "FLOPPY_INIT k" and "hdr_magic (header_from_raw raw) = MAGIC" and "tbl_ok (INODE_TBL k)" and "bmp_ok (BLOCK_BMP k)"
    and k1: "disk_read E 0 (replicate SIZE_OF_HEADER 0) k = Done (Ok raw, k1)" "kbd.more k1 = kbd.more k"
    and k2: "floppyfs_read E INODE_START (replicate (SIZE_OF_INODE * INODES) 0) k1 = Done (Ok buf, k2)"
  shows "if distinct (claimed_blocks buf) \<and> set (claimed_blocks buf) \<inter> bmp_used (BLOCK_BMP k) = {}
    then \<exists>bmp'. init_floppyfs E k
           = Done (ExOk, k2\<lparr>INODE_TBL := stored 0 (active_nods_of buf) (INODE_TBL k), BLOCK_BMP := bmp', FLOPPYFS_INIT := True\<rparr>)
        \<and> bmp_ok bmp' \<and> bmp_used bmp' = bmp_used (BLOCK_BMP k) \<union> set (claimed_blocks buf)
    else \<exists>e k'. init_floppyfs E k = Done (ExError (TableError (AllocBmp e)), k')"
proof -
  have same: "INODE_TBL k1 = INODE_TBL k" "BLOCK_BMP k1 = BLOCK_BMP k"
    using k1(2) by (cases k; cases k1; simp)+
  note tbl = read_table_run [where rd = "floppyfs_read E", OF assms(3,4), of k1 buf k2, OF k2]
  have run: "init_floppyfs E k = load_table E k1" using assms(1,2) k1(1) by (simp add: init_floppyfs_def Let_def)
  show ?thesis
  proof (cases "distinct (claimed_blocks buf) \<and> set (claimed_blocks buf) \<inter> bmp_used (BLOCK_BMP k) = {}")
    case True
    with tbl obtain bmp' where loaded: "read_table (floppyfs_read E) (INODE_TBL k, BLOCK_BMP k, k1) =
        Done (Ok (of_nat (length (active_nods_of buf)), of_nat (length (claimed_blocks buf))),
          (stored 0 (active_nods_of buf) (INODE_TBL k), bmp', k2))"
      "bmp_ok bmp'" "bmp_used bmp' = bmp_used (BLOCK_BMP k) \<union> set (claimed_blocks buf)"
      by auto
    have "init_floppyfs E k
        = Done (ExOk, k2\<lparr>INODE_TBL := stored 0 (active_nods_of buf) (INODE_TBL k), BLOCK_BMP := bmp', FLOPPYFS_INIT := True\<rparr>)"
      unfolding run load_table_def same loaded(1) by simp
    then show ?thesis unfolding if_P [OF True] using loaded(2,3) by blast
  next
    case False
    with tbl obtain e st where "read_table (floppyfs_read E) (INODE_TBL k, BLOCK_BMP k, k1) = Done (Err (AllocBmp e), st)"
      by auto
    then show ?thesis unfolding run if_not_P [OF False] by (cases st) (auto simp: load_table_def same)
  qed
qed

lemma talking_more: "talking base d0 (k0\<lparr>READ_BYTES := x\<rparr>) B d k \<Longrightarrow> kbd.more k = kbd.more k0"
  "talking base d0 (k0\<lparr>READ_BYTES := x, WRITTEN_BYTES := y\<rparr>) B d k \<Longrightarrow> kbd.more k = kbd.more k0"
  by (simp_all add: talking_def undisturbed_def)

text \<open>
  C2: Mounting a formatted drive, end to end: when sector 0 holds a header with the right magic number, the
  sectors 1 to 35 hold the inode table, and no two active inodes claim the same block, mounting succeeds:
  the inodes in memory are the active ones of the medium in order, the bitmap marks exactly the
  blocks they claim, the medium is unchanged and the driver ready. With a doubly claimed block it fails with
  the bitmap's error.
\<close>

theorem mount_formatted_drive:
  fixes k :: "'a fsk_scheme"
  assumes "compliant base d0 E" and "at_rest base d0 d k" and "unat (TIME k) + 3800000 < 2 ^ 64"
    and "hdr_magic (header_from_raw (medium d 0)) = MAGIC" and "tbl_ok (INODE_TBL k)" and "bmp_ok (BLOCK_BMP k)"
    and "buf = sectors_of (medium d) 1 35"
  shows "if distinct (claimed_blocks buf) \<and> set (claimed_blocks buf) \<inter> bmp_used (BLOCK_BMP k) = {}
    then \<exists>k'. init_floppyfs E k = Done (ExOk, k') \<and> FLOPPYFS_INIT k'
        \<and> INODE_TBL k' = stored 0 (active_nods_of buf) (INODE_TBL k)
        \<and> bmp_ok (BLOCK_BMP k') \<and> bmp_used (BLOCK_BMP k') = bmp_used (BLOCK_BMP k) \<union> set (claimed_blocks buf)
        \<and> (\<exists>d'. at_rest base d0 d' k' \<and> medium d' = medium d)
    else \<exists>e k'. init_floppyfs E k = Done (ExError (TableError (AllocBmp e)), k')"
proof -
  let ?m = "medium d"
  have init: "FLOPPY_INIT k" and m: "\<forall>i < 2880. length (?m i) = 512" using assms(2) by (simp_all add: at_rest_def)
  have "talking base d0 (k\<lparr>READ_BYTES := READ_BYTES k\<rparr>) 3710000 (awaiting [] d) k"
    using at_rest_talking [OF assms(2), of 3710000] assms(3) by simp
  then have "resting base d0 E k ?m (0 + 3600000 + 110000) k"
    by (intro restingI [OF assms(1) init m, where x = "READ_BYTES k" and d = "awaiting [] d"]) (simp_all add: awaiting_def)
  with resting_driver.header_read obtain k1 where k1: "disk_read E 0 (replicate SIZE_OF_HEADER 0) k = Done (Ok (?m 0), k1)"
    "resting base d0 E k ?m (0 + 3600000) k1"
    by (rule achievesE) blast
  from resting_driver.table_read k1(2) obtain k2
    where k2: "floppyfs_read E INODE_START (replicate (SIZE_OF_INODE * INODES) 0) k1 = Done (Ok buf, k2)" "resting base d0 E k ?m 0 k2"
    unfolding assms(7) floppyfs_read_def by (rule achievesE) blast
  have "kbd.more k1 = kbd.more k" using k1(2) talking_more(1) unfolding resting_def by blast
  note mount = mount_reads [OF init assms(4-6) k1(1) this k2(1)]
  obtain x d' where d': "talking base d0 (k\<lparr>READ_BYTES := x\<rparr>) 0 d' k2" "phase d' = Command []" "medium d' = ?m"
    using k2(2) unfolding resting_def by blast
  have "at_rest base d0 d' (k2\<lparr>INODE_TBL := t, BLOCK_BMP := b, FLOPPYFS_INIT := f\<rparr>)" for t b f
    using d' init m talking_known [OF d'(1)] talking_ints [OF d'(1)] talking_init [OF d'(1)] talking_dev [OF d'(1)] talking_enabled [OF d'(1)]
    by (simp add: at_rest_def base_known_def)
  then show ?thesis using mount d'(3) by (fastforce split: if_splits)
qed

text \<open>
  C3: formatting and mounting: formatting a drive through the driver succeeds, and the drive can then be mounted, although the
  first access after the writes finds the controller with result bytes that nobody read and resets it. The
  filesystem mounted is empty: the table in memory and the bitmap are as before. On the medium the first 36 sectors are the header
  and a zeroed table, all others are as they were.
\<close>

theorem format_then_mount:
  fixes k :: "'a fsk_scheme"
  assumes "compliant base d0 E" and "keeps_time N E" and "30 * N + 1 < fuel E" and "at_rest base d0 d k" and "resettable k"
    and "unat (TIME k) + 7500000 < 2 ^ 64" and "tbl_ok (INODE_TBL k)" and "bmp_ok (BLOCK_BMP k)"
  shows "\<exists>k1 k2. reformat_drive (GOOD_FS_HEADER E) (floppyfs_write E) k = Done (Ok (), k1) \<and> init_floppyfs E k1 = Done (ExOk, k2)
    \<and> FLOPPYFS_INIT k2 \<and> INODE_TBL k2 = INODE_TBL k \<and> bmp_used (BLOCK_BMP k2) = bmp_used (BLOCK_BMP k)
    \<and> medium (after base d0 (io_log k2)) = formatted (GOOD_FS_HEADER E) (medium d)"
proof -
  let ?h = "GOOD_FS_HEADER E" and ?m = "formatted (GOOD_FS_HEADER E) (medium d)"
  have wf: "header_wf ?h" by (simp add: header_wf_def GOOD_FS_HEADER_def filesystem_header_new_def header_consts MAGIC_def)
  have len: "length (header_as_bytes ?h) = 512" using header_bytes.length_as_bytes [OF wf] by (simp add: header_consts)
  have magic: "hdr_magic (header_from_raw (?m 0)) = MAGIC"
    using header_bytes.from_raw_as_bytes [OF wf] by (simp add: formatted_def GOOD_FS_HEADER_def filesystem_header_new_def)
  have zero: "sectors_of ?m 1 35 = replicate (SIZE_OF_INODE * INODES) 0"
  proof -
    have "map ?m [1..<1 + 35] = replicate 35 (replicate 512 0)" by (intro nth_equalityI) (simp_all add: formatted_def)
    then show ?thesis by (simp add: sectors_of_def concat_replicate_replicate SIZE_OF_INODE_def INODES_def)
  qed
  have "serving base d0 E k (medium d) (0 + 3600000 + 110000 + 3710000) k"
    using assms(6) by (intro at_rest_serving [OF assms(1-5)]) simp
  with driver.format_store [OF len] obtain u k1 where k1: "reformat_drive ?h (floppyfs_write E) k = Done (Ok u, k1)"
    "serving base d0 E k ?m (0 + 3600000 + 110000) k1"
    unfolding floppyfs_write_def by (rule achievesE)
  from driver.header_read k1(2) obtain k2 where k2: "disk_read E 0 (replicate SIZE_OF_HEADER 0) k1 = Done (Ok (?m 0), k2)"
    "serving base d0 E k ?m (0 + 3600000) k2"
    by (rule achievesE) blast
  from driver.table_read [where m = ?m, unfolded zero] k2(2) obtain k3
    where k3: "floppyfs_read E INODE_START (replicate (SIZE_OF_INODE * INODES) 0) k2 = Done (Ok (replicate (SIZE_OF_INODE * INODES) 0), k3)"
      "serving base d0 E k ?m 0 k3"
    unfolding floppyfs_read_def by (rule achievesE) blast
  have more: "kbd.more k1 = kbd.more k" "kbd.more k2 = kbd.more k"
    using k1(2) k2(2) talking_more(2) unfolding serving_def by blast+
  have same: "INODE_TBL k1 = INODE_TBL k" "BLOCK_BMP k1 = BLOCK_BMP k" using more(1) by (cases k; cases k1; simp)+
  have init: "FLOPPY_INIT k1" using k1(2) talking_init unfolding serving_def by fastforce
  have "tbl_ok (INODE_TBL k1)" "bmp_ok (BLOCK_BMP k1)" "kbd.more k2 = kbd.more k1" using assms(7,8) same more by simp_all
  from mount_reads [OF init magic this(1,2) k2(1) this(3) k3(1)] obtain bmp'
    where mount: "init_floppyfs E k1 = Done (ExOk, k3\<lparr>INODE_TBL := INODE_TBL k, BLOCK_BMP := bmp', FLOPPYFS_INIT := True\<rparr>)"
      "bmp_used bmp' = bmp_used (BLOCK_BMP k)"
    by (auto simp: no_active_on_zeroed claimed_blocks_def same)
  have "medium (after base d0 (io_log k3)) = ?m" using k3(2) talking_dev unfolding serving_def by blast
  with k1(1) mount show ?thesis by (auto intro!: exI)
qed

text \<open>A controller with a formatted, empty medium.\<close>

definition formatted_device :: device where
  "formatted_device = sample_device\<lparr>medium := (\<lambda>i.
     if i = 0 then header_as_bytes (filesystem_header_new (replicate HDR_NAME_LEN 0) 1 2026 0 FsFeatures_FLOPPY) else replicate 512 0)\<rparr>"

definition rested_fsk :: fsk where
  "rested_fsk = kbd.extend rested_kbd \<lparr>FLOPPYFS_INIT = False, INODE_TBL = inode_tbl_static, BLOCK_BMP = block_bmp_static\<rparr>"

lemma formatted_sectors: "sectors_of (medium formatted_device) 1 35 = replicate (SIZE_OF_INODE * INODES) 0"
proof -
  have "map (medium formatted_device) [1..<1 + 35] = replicate 35 (replicate 512 0)"
    by (intro nth_equalityI) (simp_all add: formatted_device_def)
  then show ?thesis
    by (simp add: sectors_of_def concat_replicate_replicate SIZE_OF_INODE_def INODES_def)
qed

theorem mount_formatted_drive_witness:
  "\<exists>k'. init_floppyfs (device_env formatted_device) rested_fsk = Done (ExOk, k') \<and> FLOPPYFS_INIT k'"
proof -
  let ?h = "filesystem_header_new (replicate HDR_NAME_LEN 0) 1 2026 0 FsFeatures_FLOPPY"
  have wf: "header_wf ?h" by (simp add: header_wf_def filesystem_header_new_def header_consts MAGIC_def)
  have hdr: "hdr_magic (header_from_raw (medium formatted_device 0)) = MAGIC"
    using header_bytes.from_raw_as_bytes [OF wf] by (simp add: formatted_device_def filesystem_header_new_def)
  have log: "io_log rested_kbd = [Out 0x3F2 0b010100]" by (simp add: rested_kbd_def)
  have rest: "at_rest 0x3F0 formatted_device formatted_device rested_fsk" "TIME rested_fsk = 0"
    using header_bytes.length_as_bytes [OF wf] rested_kbd_at_rest
    by (auto simp: at_rest_def rested_fsk_def kbd.extend_def base_known_def formatted_device_def sample_device_def header_consts log dev_step_def)
  show ?thesis
    using mount_formatted_drive [OF device_env_compliant rest(1)] hdr rest(2) inode_tbl_static_ok block_bmp_static_ok
      no_active_on_zeroed formatted_sectors
    by (auto simp: claimed_blocks_def rested_fsk_def kbd.extend_def)
qed

text \<open>Formatting and mounting a drive that holds something else.\<close>

definition drive_fsk :: fsk where
  "drive_fsk = kbd.extend drive_kbd \<lparr>FLOPPYFS_INIT = False, INODE_TBL = inode_tbl_static, BLOCK_BMP = block_bmp_static\<rparr>"

lemma drive_fsk_ready: "at_rest 0x3F0 sample_device sample_device drive_fsk" "resettable drive_fsk" "TIME drive_fsk = 0"
  using drive_kbd_ready by (simp_all add: at_rest_def base_known_def resettable_def drive_fsk_def kbd.extend_def)

theorem format_then_mount_witness:
  "\<exists>k1 k2. reformat_drive (GOOD_FS_HEADER (device_env sample_device)) (floppyfs_write (device_env sample_device)) drive_fsk = Done (Ok (), k1)
     \<and> init_floppyfs (device_env sample_device) k1 = Done (ExOk, k2) \<and> FLOPPYFS_INIT k2"
proof -
  have "tbl_ok (INODE_TBL drive_fsk)" "bmp_ok (BLOCK_BMP drive_fsk)"
    using inode_tbl_static_ok block_bmp_static_ok by (simp_all add: drive_fsk_def kbd.extend_def)
  then show ?thesis
    using format_then_mount [OF device_env_compliant device_env_keeps_time drive_fsk_ready(1,2)] drive_fsk_ready(3) by auto
qed

end
