(* ===== verification/Spec2Isabelle.thy ===== *)
theory Spec2Isabelle
  imports Test_Harness Seeder Build_Script Mount
begin

text \<open>
  \<^bold>\<open>Verification of the sunflower kernel\<close>

  Sunflower is a small x86-64 kernel in Rust: a boot sequence that sets up the processor's tables and the devices, drivers for
  the VGA text screen, the interrupt controllers, timer, real time clock, speaker, PS/2 keyboard and floppy
  drive, and a simple filesystem on the floppy. After booting it polls the keyboard forever. This development models the kernel
  (src/kernel/src), its filesystem library (src/libfs/src), its utility library (src/libutil/src), the kernel's build
  script (src/kernel/build.rs) and the tool that builds and runs it (src/seeder/src).

  \<^bold>\<open>How programs are modelled\<close>

  A call returns, panics or does not return: the datatype \<open>run\<close> of Prelude with the constructors \<open>Done\<close>, \<open>Panic\<close> and \<open>Hang\<close>, sequenced
  by \<open>andThen\<close>. Rust's \<^verbatim>\<open>Result\<close> is a sum with the error on the left, and \<open>fallible\<close> is a state passing call
  with such a result; \<open>safe\<close> and \<open>triple\<close> are the rules to reason about it. Machine integers are words of their width,
  with wrap-around where the release build wraps; an index out of range or a division by zero is \<open>Panic\<close>.

  The kernel's statics and the hardware it owns form one state, a chain of extensible records, each declared with its driver:
  \<open>machine\<close> (log of port accesses, interrupt flag, initialised flags), \<open>vga\<close>, \<open>clock\<close>, \<open>fdc\<close>, \<open>kbd\<close>, \<open>fsk\<close> (filesystem), \<open>cpu\<close> (segment
  and task registers, GDT, TSS), \<open>icpu\<close> (IDT), \<open>sysk\<close> (vendor string, panic counter). An operation works on every
  extension of the record it needs, which states what it cannot touch.

  The environment \<open>env\<close> of Machine stands for what the kernel cannot know: what a port read returns and which interrupts
  arrive, both any function of the log of everything that happened before; where statics and handlers are in memory; the build's constants.
  Theorems hold for every environment unless they say otherwise. Interrupts are taken at the points where the code reads the clock, halts or spins, as sequences of
  handlers; C17 (\<open>interrupts_do_not_disturb\<close>) is why other points need none. Code that is not in the repository is a parameter: the controller driver
  \<^verbatim>\<open>ps2\<close> and the decoder \<^verbatim>\<open>pc_keyboard\<close> in Keyboard, the drive functions a caller passes to libfs, the parsers \<^verbatim>\<open>toml\<close> and \<^verbatim>\<open>clap\<close>,
  the operating system the build tool runs on (\<open>host\<close> in Seeder), the serial port's driver \<^verbatim>\<open>uart_16550\<close> (\<open>uart\<close> in Test_Harness).

  Where a theorem says that a transfer succeeds, the environment has to be a working floppy controller: Controller
  describes one (\<open>compliant\<close>, a state machine with phases, a medium and status bytes, from the controller's documentation) and
  reasons about the driver against it with a calculus of total correctness (\<open>achieves\<close>, and \<open>fails\<close> for calls that return an error),
  interrupts arriving at any point. A write leaves its result bytes in the controller, so the next command is refused until the driver has waited for its
  timeout and reset the controller: Reset proves that this works, provided the clock advances while the driver spins (\<open>keeps_time\<close>). Store hides all
  this behind the interface its clients need, a store of sectors (locales \<open>sector_reads\<close> and \<open>sector_store\<close>, interpreted for the driver), on which formatting
  and mounting rest.

  \<^bold>\<open>Loops\<close>

  Loops over data are structural. A loop that waits for hardware runs at most \<open>fuel E\<close> times and is then \<open>Hang\<close>, as if
  it had never ended; what must end is proved with a bound on the fuel that is needed (\<open>wait_duration\<close> needs more
  iterations than ticks, \<open>boot_chime_ends\<close> more than 70). The mutual recursion of sending a command and resetting the controller
  is cut by a depth. The endless poll loop is run for any number of iterations. What is shown against a working controller (C2 to C5,
  C13) states how much fuel and how much time before the tick counter overflows it needs: every access is given a budget of ticks.

  \<^bold>\<open>Theories\<close>

  \<^item> Prelude: results, sequencing, the rules for safety and triples, bytes, text.
  \<^item> Sync, Send: libutil's \<^verbatim>\<open>InitLater\<close> and \<^verbatim>\<open>ExclusiveMap\<close> (sync.rs), byte views and descriptors (send.rs). The locale
    \<open>mapped_cell\<close> in Cont_Access states what exclusive access promises and is interpreted for \<^verbatim>\<open>ExclusiveMap\<close> and
    \<^verbatim>\<open>ContAccess\<close> (interrupts/cont_access.rs).
  \<^item> Fs_Types, Fs_Inode, Fs_Header, Fs_Table, Fs_Init, Fs_Lookup: libfs (lib.rs, header.rs, table.rs, init.rs). The locale of block
    allocators is interpreted for the bitmap, that of byte layouts for inodes, headers and directory entries.
  \<^item> Machine, Vga, Screen: ports and flags (ports.rs, startup.rs), the text screen (vga.rs and vga/). Screen collects what its clients need.
  \<^item> Pic, Rtc, Motor, Irq, Clock, Speaker: interrupts/pic.rs, time.rs, floppy/motor.rs, the handlers of interrupts/idt.rs, speaker.rs.
  \<^item> Fifo, Disk, Floppy, Floppyfs: floppy/fifo.rs and reset.rs, floppy/disk.rs, floppy.rs, floppy/floppyfs.rs.
  \<^item> Gdt, Idt: gdt.rs, interrupts/idt.rs and interrupts.rs, with the processor's reading of descriptors.
  \<^item> Sysinfo, Panic: sysinfo.rs, panic.rs.
  \<^item> Keyboard, Kbd_Queue, Kbd_Safety: interrupts/keyboard.rs and the poll loop. The locale \<open>fifo_buffer\<close> states what the
    interrupt handler and the poll loop rely on and is interpreted for the scancode buffer.
  \<^item> Startup, Boot: startup.rs and main.rs; the stages of the start.
  \<^item> Controller, Reset: a working floppy controller as the environment of the driver; transfers, resets and the driver's start on it.
  \<^item> Store, Mount: the driver on it as a store of sectors; formatting and mounting through it.
  \<^item> Build_Script: kernel/build.rs, and the constants the kernel takes from it (\<^verbatim>\<open>env_as_int!\<close> of sysinfo.rs).
  \<^item> Seeder: main.rs and cmd.rs of seeder, over a host that answers starting programs and opening, writing and copying files. The
    locale \<open>log_property\<close> states what a property of the log of these requests needs to hold of every command.
  \<^item> Lib_Tests, Kernel_Tests, Test_Harness: the repository's unit tests as programs over the model, and tests.rs, which runs them.

  \<^bold>\<open>What is shown\<close>

  \<^item> The start does not panic, and the poll loop panics exactly on the system command that asks for it (C1, C20); the processor's tables deliver
    every vector to its handler, and the start programs the interrupt controllers, the clock and the timer (C10, C37); a
    panic is reported and does not return (C21); cells that interrupt handlers must not use are guarded (C40).
  \<^item> Floppy: transfers, commands and drive selection do not panic, report what happened and keep the other drivers' state
    (C6, C11, C16, C29, C30). On a working controller the driver starts (C13), a read returns the sectors asked for (C5), a write stores them (C25), any sequence of reads and writes is
    that of a store of sectors (C4), a formatted drive is mounted (C2), and what formatting wrote can be mounted (C3). Reads over
    several tracks are split into requests of one track (C15); addresses (C31), the motor (C32).
  \<^item> Filesystem: the bitmap, the inode table and mounting (C7, C8, C14, C24), layouts and encodings (C26, C27).
  \<^item> Concurrency: mutual exclusion and initialisation under every interleaving (C12, C28), interrupts (C17), the scancode
    queue (C9).
  \<^item> Keyboard: what is typed, commands, initialisation (C20, C34, C35).
  \<^item> Timing: waiting and the clock (C18, C38); screen (C19); interrupt controllers (C33).
  \<^item> Building: what is started and in which order (C22), which files are written (C36), and that the version file
    reaches the kernel's constants (C23).
  \<^item> A run of tests ends with the exit code that tells whether all of them passed (C39). Without an id: unit tests of the
    libraries (\<open>library_unit_tests_pass\<close>) and tests of the kernel (\<open>kernel_tests_run\<close>, \<open>kernel_unit_tests_pass\<close>,
    \<open>wait_waits_for_correct_time_passes\<close>, \<open>disable_motor_keeps_motor_running_passes\<close>).

  Theorems without an id show where the code does not do what its comments say, among them \<open>cyl_write_third_piece_misplaced\<close>,
  \<open>alloc_inode_panics_on_last_slots\<close>, \<open>init_later_interrupted_init_twice\<close>, \<open>scancodes_dropped_when_pointer_wraps\<close> and
  \<open>send_byte_refused\<close> (a write leaves its result bytes in the controller, which refuses the next command), \<open>second_drive_reset_fails\<close> and
  \<open>rtc_test_fails_late\<close>.

  \<^bold>\<open>Not modelled\<close>

  The output that test builds add while they start; the colours of the build tool's help; saving and restoring
  registers in the assembly of handlers and around \<^verbatim>\<open>cpuid\<close>; debug and warning messages, which the modelled build leaves out; how the
  bitflags crate prints flags; memory ordering, since all code runs on one processor.
\<close>

end
